(* ===== verification/Thumb_Prelude.thy ===== *)
theory Thumb_Prelude
  imports Main "HOL-Library.Word"
begin

text \<open>
  Shared vocabulary of the development: the C++ exceptions the program throws as values of one
  datatype, the result type that every fallible operation returns, the parts of the C++ standard
  library the sources use for text (\<open>std::to_string\<close>, \<open>std::stoi\<close>, \<open>string::find\<close>), the
  \<open>NUL\<close>-separated cache keys, 32-bit \<open>int\<close> arithmetic, and the generic lemmas the component
  theories share.
\<close>

section \<open>Exceptions and results\<close>

text \<open>
  One constructor per C++ exception class that the modelled code throws or catches.
  \<open>Assertion\<close> is a failed \<open>assert()\<close>, \<open>Abort\<close> a call of \<open>abort()\<close> and \<open>Null_deref\<close> a
  dereferenced null pointer: none of the three can be caught by the program.
\<close>

datatype exn =
    Runtime_error string
  | Logic_error string
  | Invalid_argument string
  | Domain_error string
  | Out_of_range string
  | System_error int string
  | InvalidArgumentException string
  | LogicException string
  | ResourceException string
  | FileException string int
  | Assertion string
  | Abort
  | Null_deref string

type_synonym 'a result = "exn + 'a"

text \<open>What a \<open>catch (std::exception const&)\<close> handler stops.\<close>

fun catchable :: "exn \<Rightarrow> bool" where
  "catchable (Assertion _) = False"
| "catchable Abort = False"
| "catchable (Null_deref _) = False"
| "catchable _ = True"

definition rbind :: "'a result \<Rightarrow> ('a \<Rightarrow> 'b result) \<Rightarrow> 'b result" where
  "rbind r f = (case r of Inl e \<Rightarrow> Inl e | Inr a \<Rightarrow> f a)"

lemma rbind_simps [simp]:
  "rbind (Inl e) f = Inl e"
  "rbind (Inr a) f = f a"
  by (simp_all add: rbind_def)

lemma rbind_Inr_iff: "rbind r f = Inr b \<longleftrightarrow> (\<exists>a. r = Inr a \<and> f a = Inr b)"
  by (cases r) auto

lemma rbind_Inl_iff: "rbind r f = Inl e \<longleftrightarrow> r = Inl e \<or> (\<exists>a. r = Inr a \<and> f a = Inl e)"
  by (cases r) auto

definition assert_r :: "bool \<Rightarrow> string \<Rightarrow> unit result" where
  "assert_r b what = (if b then Inr () else Inl (Assertion what))"

lemma assert_r_simps [simp]:
  "assert_r True w = Inr ()"
  "assert_r False w = Inl (Assertion w)"
  "assert_r b w = Inr u \<longleftrightarrow> b"
  by (simp_all add: assert_r_def)

section \<open>Actions on a state\<close>

text \<open>
  A member function that changes its object and may throw: it returns its result or the exception, and
  the state it leaves behind in both cases. \<open>act_bind\<close> is \<open>;\<close>, \<open>act_catch\<close> is \<open>try ... catch (std::exception const& e)\<close>.
\<close>

type_synonym ('s, 'a) act = "'s \<Rightarrow> 'a result \<times> 's"

definition act_ret :: "'a \<Rightarrow> ('s, 'a) act" where
  "act_ret a s = (Inr a, s)"

definition act_throw :: "exn \<Rightarrow> ('s, 'a) act" where
  "act_throw e s = (Inl e, s)"

definition act_of :: "'a result \<Rightarrow> ('s, 'a) act" where
  "act_of r s = (r, s)"

definition act_modify :: "('s \<Rightarrow> 's) \<Rightarrow> ('s, unit) act" where
  "act_modify f s = (Inr (), f s)"

definition act_bind :: "('s, 'a) act \<Rightarrow> ('a \<Rightarrow> ('s, 'b) act) \<Rightarrow> ('s, 'b) act" where
  "act_bind m f s = (case m s of (Inl e, s') \<Rightarrow> (Inl e, s') | (Inr a, s') \<Rightarrow> f a s')"

definition act_catch :: "('s, 'a) act \<Rightarrow> (exn \<Rightarrow> ('s, 'a) act) \<Rightarrow> ('s, 'a) act" where
  "act_catch m h s = (case m s of (Inr a, s') \<Rightarrow> (Inr a, s') | (Inl e, s') \<Rightarrow> if catchable e then h e s' else (Inl e, s'))"

definition act_zoom :: "('s \<Rightarrow> 't) \<Rightarrow> ('t \<Rightarrow> 's \<Rightarrow> 's) \<Rightarrow> ('t, 'a) act \<Rightarrow> ('s, 'a) act" where
  "act_zoom get put m s = (case m (get s) of (r, t) \<Rightarrow> (r, put t s))"

lemma act_simps [simp]:
  "act_ret a s = (Inr a, s)" "act_throw e s = (Inl e, s)" "act_of r s = (r, s)" "act_modify f s = (Inr (), f s)"
  by (simp_all add: act_ret_def act_throw_def act_of_def act_modify_def)

lemma act_bind_simps:
  "m s = (Inr a, s') \<Longrightarrow> act_bind m f s = f a s'"
  "m s = (Inl e, s') \<Longrightarrow> act_bind m f s = (Inl e, s')"
  by (simp_all add: act_bind_def)

lemma act_bind_Inr_iff: "act_bind m f s = (Inr b, s'') \<longleftrightarrow> (\<exists>a s'. m s = (Inr a, s') \<and> f a s' = (Inr b, s''))"
  by (auto simp: act_bind_def split: prod.splits sum.splits)

lemma act_bind_ret [simp]:
  "act_bind (act_ret a) f s = f a s" "act_bind (act_throw e) f s = (Inl e, s)" "act_bind (act_modify g) f s = f () (g s)"
  "act_bind (act_of (Inr a)) f s = f a s" "act_bind (act_of (Inl e)) f s = (Inl e, s)"
  by (simp_all add: act_bind_def)

text \<open>\<open>leaves f m\<close>: the action \<open>m\<close> does not change the part \<open>f\<close> of the state, whether it throws or not.\<close>

definition leaves :: "('s \<Rightarrow> 'b) \<Rightarrow> ('s, 'a) act \<Rightarrow> bool" where
  "leaves f m \<longleftrightarrow> (\<forall>s. f (snd (m s)) = f s)"

named_theorems leaves_intros

lemma leavesD: "leaves f m \<Longrightarrow> m s = (r, s') \<Longrightarrow> f s' = f s"
  unfolding leaves_def by (metis snd_conv)

lemma leaves_basic [leaves_intros]:
  "leaves f (act_ret a)" "leaves f (act_throw e)" "leaves f (act_of r)"
  by (simp_all add: leaves_def)

lemma leaves_modify: "(\<And>s. f (g s) = f s) \<Longrightarrow> leaves f (act_modify g)"
  by (simp add: leaves_def)

lemma leaves_bind [leaves_intros]: "leaves f m \<Longrightarrow> (\<And>a. leaves f (n a)) \<Longrightarrow> leaves f (act_bind m n)"
  by (simp add: leaves_def act_bind_def split: prod.splits sum.splits) (metis snd_conv)

lemma leaves_catch: "leaves f m \<Longrightarrow> (\<And>e. leaves f (h e)) \<Longrightarrow> leaves f (act_catch m h)"
  by (simp add: leaves_def act_catch_def split: prod.splits sum.splits) (metis snd_conv)

lemma leaves_zoom: "(\<And>t s. f (put t s) = f s) \<Longrightarrow> leaves f (act_zoom get put m)"
  by (simp add: leaves_def act_zoom_def split: prod.splits)

lemma leaves_dep: "(\<And>s0. leaves f (m s0)) \<Longrightarrow> leaves f (\<lambda>s. m s s)"
  by (simp add: leaves_def)

lemma leaves_if [leaves_intros]: "leaves f m \<Longrightarrow> leaves f n \<Longrightarrow> leaves f (if b then m else n)"
  by simp

lemma leaves_option [leaves_intros]:
  "leaves f m \<Longrightarrow> (\<And>a. leaves f (n a)) \<Longrightarrow> leaves f (case x of None \<Rightarrow> m | Some a \<Rightarrow> n a)"
  by (cases x) simp_all

lemma leaves_sum [leaves_intros]:
  "(\<And>a. leaves f (m a)) \<Longrightarrow> (\<And>b. leaves f (n b)) \<Longrightarrow> leaves f (case x of Inl a \<Rightarrow> m a | Inr b \<Rightarrow> n b)"
  by (cases x) simp_all

lemma leaves_list [leaves_intros]:
  "leaves f m \<Longrightarrow> (\<And>a as. leaves f (n a as)) \<Longrightarrow> leaves f (case xs of [] \<Rightarrow> m | a # as \<Rightarrow> n a as)"
  by (cases xs) simp_all

text \<open>
  \<open>what()\<close>: the text of the standard exceptions, and name and reason of the program's own (without the
  nested exceptions, which these values do not carry).
\<close>

fun what :: "exn \<Rightarrow> string" where
  "what (Runtime_error s) = s"
| "what (Logic_error s) = s"
| "what (Invalid_argument s) = s"
| "what (Domain_error s) = s"
| "what (Out_of_range s) = s"
| "what (System_error n s) = s"
| "what (InvalidArgumentException s) = ''unity::InvalidArgumentException'' @ (if s = [] then [] else '': '' @ s)"
| "what (LogicException s) = ''unity::LogicException'' @ (if s = [] then [] else '': '' @ s)"
| "what (ResourceException s) = ''unity::ResourceException'' @ (if s = [] then [] else '': '' @ s)"
| "what (FileException s n) = ''unity::FileException: '' @ s"
| "what (Assertion s) = s"
| "what Abort = []"
| "what (Null_deref s) = s"

section \<open>Numbers as text\<close>

definition digit :: "nat \<Rightarrow> char" where
  "digit n = ''0123456789'' ! n"

definition is_digit :: "char \<Rightarrow> bool" where
  "is_digit c \<longleftrightarrow> c \<in> set ''0123456789''"

definition digit_value :: "char \<Rightarrow> nat" where
  "digit_value c = of_char c - 48"

text \<open>\<open>std::to_string\<close> on unsigned and on signed integers.\<close>

fun nat_to_string :: "nat \<Rightarrow> string" where
  "nat_to_string n =
     (if n < 10 then [digit n] else nat_to_string (n div 10) @ [digit (n mod 10)])"

declare nat_to_string.simps [simp del]

definition int_to_string :: "int \<Rightarrow> string" where
  "int_to_string i =
     (if i < 0 then CHR ''-'' # nat_to_string (nat (- i)) else nat_to_string (nat i))"

lemma less_10_cases:
  "(n::nat) < 10 \<Longrightarrow> n = 0 \<or> n = 1 \<or> n = 2 \<or> n = 3 \<or> n = 4 \<or> n = 5 \<or> n = 6 \<or> n = 7 \<or> n = 8 \<or> n = 9"
  by arith

lemma digit_props: "n < 10 \<Longrightarrow> is_digit (digit n) \<and> digit_value (digit n) = n"
  by (drule less_10_cases) (elim disjE, simp_all add: digit_def is_digit_def digit_value_def)

lemma is_digit_digit [simp]: "n < 10 \<Longrightarrow> is_digit (digit n)"
  by (simp add: digit_props)

lemma digit_value_digit [simp]: "n < 10 \<Longrightarrow> digit_value (digit n) = n"
  by (simp add: digit_props)

lemma not_is_digit [simp]:
  "\<not> is_digit (CHR 0x00)" "\<not> is_digit (CHR ''.'')" "\<not> is_digit (CHR ''-'')"
  "\<not> is_digit (CHR ''+'')" "\<not> is_digit (CHR ''x'')" "\<not> is_digit (CHR '' '')"
  by (simp_all add: is_digit_def)

fun digits_value :: "nat \<Rightarrow> string \<Rightarrow> nat" where
  "digits_value acc [] = acc"
| "digits_value acc (c # cs) = digits_value (10 * acc + digit_value c) cs"

lemma digits_value_append: "digits_value acc (xs @ ys) = digits_value (digits_value acc xs) ys"
  by (induction xs arbitrary: acc) auto

lemma nat_to_string_digits: "\<forall>c \<in> set (nat_to_string n). is_digit c"
proof (induction n rule: nat_to_string.induct)
  case (1 n)
  then show ?case
    by (cases "n < 10") (auto simp: nat_to_string.simps [of n])
qed

lemma nat_to_string_nonempty [simp]: "nat_to_string n \<noteq> []"
  by (subst nat_to_string.simps) simp

lemma digits_value_nat_to_string: "digits_value 0 (nat_to_string n) = n"
proof (induction n rule: nat_to_string.induct)
  case (1 n)
  then show ?case
    by (cases "n < 10") (auto simp: nat_to_string.simps [of n] digits_value_append)
qed

lemma nat_to_string_inject [simp]: "nat_to_string m = nat_to_string n \<longleftrightarrow> m = n"
  by (metis digits_value_nat_to_string)

lemma nat_to_string_no_minus: "nat_to_string n \<noteq> CHR ''-'' # xs"
  using nat_to_string_digits [of n] by auto

lemma int_to_string_inject [simp]: "int_to_string i = int_to_string j \<longleftrightarrow> i = j"
  using nat_to_string_no_minus nat_to_string_no_minus [symmetric]
  by (auto simp: int_to_string_def)

lemma int_to_string_chars:
  "c \<in> set (int_to_string i) \<Longrightarrow> is_digit c \<or> c = CHR ''-''"
  using nat_to_string_digits by (auto simp: int_to_string_def split: if_splits)

lemma int_to_string_no_nul [simp]: "CHR 0x00 \<notin> set (int_to_string i)"
  using int_to_string_chars [of "CHR 0x00" i] by auto

lemma int_to_string_no_dot [simp]: "CHR ''.'' \<notin> set (int_to_string i)"
  using int_to_string_chars [of "CHR ''.''" i] by auto

lemma int_to_string_no_x [simp]: "CHR ''x'' \<notin> set (int_to_string i)"
  using int_to_string_chars [of "CHR ''x''" i] by auto

section \<open>\<open>int\<close> is 32 bits wide\<close>

definition INT_MIN :: int where "INT_MIN = - 2147483648"
definition INT_MAX :: int where "INT_MAX = 2147483647"

definition in_int :: "int \<Rightarrow> bool" where
  "in_int i \<longleftrightarrow> INT_MIN \<le> i \<and> i \<le> INT_MAX"

text \<open>A conversion to \<open>int\<close>, and \<open>int\<close> arithmetic as the machine does it, wraps around modulo \<open>2 ^ 32\<close>.\<close>

definition int32 :: "int \<Rightarrow> int" where
  "int32 i = (i + 2147483648) mod 4294967296 - 2147483648"

lemma int32_id [simp]: "in_int i \<Longrightarrow> int32 i = i"
  by (simp add: int32_def in_int_def INT_MIN_def INT_MAX_def)

lemma in_int_int32: "in_int (int32 i)"
  using pos_mod_bound [of 4294967296 "i + 2147483648"] pos_mod_sign [of 4294967296 "i + 2147483648"]
  by (simp add: int32_def in_int_def INT_MIN_def INT_MAX_def)

section \<open>\<open>std::stoi\<close>\<close>

text \<open>
  \<open>std::stoi\<close> skips white space, reads an optional sign and the longest run of decimal digits, and
  ignores what follows. It throws \<open>invalid_argument\<close> when there is no digit and \<open>out_of_range\<close>
  when the number is not an \<open>int\<close>.
\<close>

definition is_space :: "char \<Rightarrow> bool" where
  "is_space c \<longleftrightarrow> c \<in> {CHR '' '', CHR 0x09, CHR 0x0A, CHR 0x0B, CHR 0x0C, CHR 0x0D}"

fun stoi_sign :: "string \<Rightarrow> int \<times> string" where
  "stoi_sign [] = (1, [])"
| "stoi_sign (c # cs) =
     (if c = CHR ''-'' then (- 1, cs) else if c = CHR ''+'' then (1, cs) else (1, c # cs))"

definition stoi :: "string \<Rightarrow> int result" where
  "stoi s =
     (let (sg, r) = stoi_sign (dropWhile is_space s);
          ds = takeWhile is_digit r
      in if ds = [] then Inl (Invalid_argument ''stoi'')
         else let v = sg * int (digits_value 0 ds)
              in if in_int v then Inr v else Inl (Out_of_range ''stoi''))"

lemma is_digit_not_space: "is_digit c \<Longrightarrow> \<not> is_space c"
  by (auto simp: is_digit_def is_space_def)

lemma dropWhile_space_int_to_string: "dropWhile is_space (int_to_string i) = int_to_string i"
proof -
  have "\<not> is_space (hd (int_to_string i))"
    using int_to_string_chars [of "hd (int_to_string i)" i] is_digit_not_space
    by (cases "int_to_string i") (auto simp: is_space_def int_to_string_def split: if_splits)
  then show ?thesis
    by (cases "int_to_string i") auto
qed

lemma takeWhile_digits [simp]: "takeWhile is_digit (nat_to_string n) = nat_to_string n"
  using nat_to_string_digits [of n] by (simp add: takeWhile_eq_all_conv)

lemma stoi_sign_nat [simp]: "stoi_sign (nat_to_string n) = (1, nat_to_string n)"
  using nat_to_string_digits [of n] by (cases "nat_to_string n") auto

lemma stoi_int_to_string: "in_int i \<Longrightarrow> stoi (int_to_string i) = Inr i"
  by (simp add: stoi_def dropWhile_space_int_to_string)
    (auto simp: int_to_string_def digits_value_nat_to_string)

lemma stoi_in_int: "stoi s = Inr i \<Longrightarrow> in_int i"
  by (auto simp: stoi_def Let_def split: if_splits prod.splits)

lemma stoi_catchable: "stoi s = Inl e \<Longrightarrow> catchable e"
  by (auto simp: stoi_def Let_def split: if_splits prod.splits)

text \<open>\<open>std::stoll\<close> is the same for 64-bit integers.\<close>

definition in_int64 :: "int \<Rightarrow> bool" where
  "in_int64 i \<longleftrightarrow> - (2 ^ 63) \<le> i \<and> i \<le> 2 ^ 63 - 1"

definition stoll :: "string \<Rightarrow> int result" where
  "stoll s =
     (let (sg, r) = stoi_sign (dropWhile is_space s);
          ds = takeWhile is_digit r
      in if ds = [] then Inl (Invalid_argument ''stoll'')
         else let v = sg * int (digits_value 0 ds)
              in if in_int64 v then Inr v else Inl (Out_of_range ''stoll''))"

lemma stoll_int_to_string: "in_int64 i \<Longrightarrow> stoll (int_to_string i) = Inr i"
  by (simp add: stoll_def dropWhile_space_int_to_string)
    (auto simp: int_to_string_def digits_value_nat_to_string)

section \<open>Formatted input\<close>

text \<open>
  \<open>std::istream >> int\<close>: once the stream has failed, or when only white space is left, the variable
  keeps its value; text that is no number stores 0, a number that does not fit stores the nearest
  \<open>int\<close>, and both make the stream fail.
\<close>

record istream =
  in_rest :: string
  in_failed :: bool

definition extract_int :: "istream \<Rightarrow> int \<Rightarrow> istream \<times> int" where
  "extract_int is v =
     (if in_failed is then (is, v)
      else let s = dropWhile is_space (in_rest is)
           in if s = [] then (\<lparr>in_rest = [], in_failed = True\<rparr>, v)
              else let (sg, r) = stoi_sign s;
                       ds = takeWhile is_digit r;
                       r' = dropWhile is_digit r;
                       n = sg * int (digits_value 0 ds)
                   in if ds = [] then (\<lparr>in_rest = r', in_failed = True\<rparr>, 0)
                      else if in_int n then (\<lparr>in_rest = r', in_failed = False\<rparr>, n)
                      else (\<lparr>in_rest = r', in_failed = True\<rparr>, if n < 0 then INT_MIN else INT_MAX))"

lemma digits_before_space:
  assumes "is_space c"
  shows "takeWhile is_digit (nat_to_string n @ c # t) = nat_to_string n"
    and "dropWhile is_digit (nat_to_string n @ c # t) = c # t"
proof -
  have "\<not> is_digit c" using assms is_digit_not_space by blast
  then show "takeWhile is_digit (nat_to_string n @ c # t) = nat_to_string n"
    and "dropWhile is_digit (nat_to_string n @ c # t) = c # t"
    using nat_to_string_digits [of n] by (simp_all add: takeWhile_append dropWhile_append)
qed

lemma stoi_sign_nat_append: "stoi_sign (nat_to_string n @ t) = (1, nat_to_string n @ t)"
  using nat_to_string_digits [of n] by (cases "nat_to_string n") auto

lemma dropWhile_space_number: "dropWhile is_space (int_to_string i @ t) = int_to_string i @ t"
proof -
  have "int_to_string i \<noteq> []" by (simp add: int_to_string_def)
  then obtain c cs where c: "int_to_string i = c # cs" by (cases "int_to_string i") auto
  then have "\<not> is_space c"
    using dropWhile_space_int_to_string [of i] by (metis dropWhile.simps(2) dropWhile_eq_self_iff list.sel(1) list.distinct(1))
  with c show ?thesis by simp
qed

text \<open>A printed number followed by white space is read back.\<close>

lemma extract_int_printed:
  assumes "in_int i" and "is_space c"
  shows "extract_int \<lparr>in_rest = int_to_string i @ c # t, in_failed = False\<rparr> v = (\<lparr>in_rest = c # t, in_failed = False\<rparr>, i)"
proof (cases "i < 0")
  case True
  with assms show ?thesis
    by (simp add: extract_int_def dropWhile_space_number)
      (simp add: int_to_string_def digits_before_space digits_value_nat_to_string)
next
  case False
  with assms show ?thesis
    by (simp add: extract_int_def dropWhile_space_number)
      (simp add: int_to_string_def digits_before_space digits_value_nat_to_string stoi_sign_nat_append)
qed

lemma extract_int_skip_space:
  "is_space c \<Longrightarrow> extract_int \<lparr>in_rest = c # t, in_failed = False\<rparr> v = extract_int \<lparr>in_rest = t, in_failed = False\<rparr> v"
  by (simp add: extract_int_def)

section \<open>\<open>NUL\<close>-separated keys\<close>

abbreviation NUL :: char where
  "NUL \<equiv> CHR 0x00"

lemma sep_split_inject:
  assumes "c \<notin> set a" and "c \<notin> set a'"
  shows "a @ c # b = a' @ c # b' \<longleftrightarrow> a = a' \<and> b = b'"
  using assms
proof (induction a arbitrary: a')
  case Nil
  then show ?case by (cases a') auto
next
  case (Cons x a)
  then show ?case by (cases a') auto
qed

lemmas nul_split_inject = sep_split_inject [of NUL]

lemma nul_split_inject_last:
  assumes "NUL \<notin> set b" and "NUL \<notin> set b'"
  shows "a @ NUL # b = a' @ NUL # b' \<longleftrightarrow> a = a' \<and> b = b'"
proof -
  have "a @ NUL # b = a' @ NUL # b' \<longleftrightarrow> rev b @ NUL # rev a = rev b' @ NUL # rev a'"
    by (metis append_Cons append_assoc append_Nil rev.simps(2) rev_append rev_rev_ident)
  also have "\<dots> \<longleftrightarrow> a = a' \<and> b = b'"
    using assms by (auto simp: nul_split_inject)
  finally show ?thesis .
qed

section \<open>Text\<close>

text \<open>\<open>s.find(p) == 0\<close>, the way the sources test for a prefix.\<close>

fun starts_with :: "string \<Rightarrow> string \<Rightarrow> bool" where
  "starts_with [] s = True"
| "starts_with (p # ps) [] = False"
| "starts_with (p # ps) (c # cs) = (p = c \<and> starts_with ps cs)"

lemma starts_with_iff: "starts_with p s \<longleftrightarrow> (\<exists>t. s = p @ t)"
  by (induction p s rule: starts_with.induct) auto

definition ends_with :: "string \<Rightarrow> string \<Rightarrow> bool" where
  "ends_with suffix s = starts_with (rev suffix) (rev s)"

lemma ends_with_iff: "ends_with suffix s \<longleftrightarrow> (\<exists>t. s = t @ suffix)"
proof
  assume "ends_with suffix s"
  then obtain t where "rev s = rev suffix @ t"
    by (auto simp: ends_with_def starts_with_iff)
  then have "s = rev t @ suffix"
    by (metis rev_append rev_rev_ident)
  then show "\<exists>t. s = t @ suffix" ..
qed (auto simp: ends_with_def starts_with_iff)

end
