(* ===== verification/Backoff.thy ===== *)
theory Backoff
  imports Thumb_Prelude
begin

text \<open>
  The exponential back-off for remote servers: class \<open>BackoffAdjuster\<close> of
  \<open>include/internal/backoff_adjuster.h\<close> and \<open>src/backoff_adjuster.cpp\<close>. The record has the
  class's four members. \<open>std::chrono::system_clock\<close> counts nanoseconds and the periods are in
  seconds, so a period is scaled by \<open>NS_PER_S\<close> where the code adds it to a time point. The clock
  reading \<open>now\<close> of each operation is an argument.
\<close>

section \<open>State and operations\<close>

record backoff =
  last_fail_time :: int
  backoff_period :: int
  min_backoff :: int
  max_backoff :: int

definition NS_PER_S :: int where
  "NS_PER_S = 1000000000"

definition BackoffAdjuster :: backoff where
  "BackoffAdjuster =
     \<lparr>last_fail_time = 0, backoff_period = 0, min_backoff = 1, max_backoff = 1 * 2\<rparr>"

definition set_last_fail_time :: "int \<Rightarrow> backoff \<Rightarrow> backoff" where
  "set_last_fail_time fail_time b = b\<lparr>last_fail_time := fail_time\<rparr>"

definition set_backoff_period :: "int \<Rightarrow> backoff \<Rightarrow> backoff result" where
  "set_backoff_period p b =
     rbind (assert_r (p \<le> max_backoff b) ''backoff_period <= max_backoff_'') (\<lambda>_.
     Inr (b\<lparr>backoff_period := p\<rparr>))"

definition set_min_backoff :: "int \<Rightarrow> backoff \<Rightarrow> backoff result" where
  "set_min_backoff m b =
     rbind (assert_r (m > 0) ''min_backoff.count() > 0'') (\<lambda>_.
     Inr (b\<lparr>min_backoff := m\<rparr>))"

definition set_max_backoff :: "int \<Rightarrow> backoff \<Rightarrow> backoff result" where
  "set_max_backoff m b =
     rbind (assert_r (m > 0) ''max_backoff.count() > 0'') (\<lambda>_.
     rbind (assert_r (m \<ge> 2 * min_backoff b) ''max_backoff.count() >= 2 * min_backoff_.count()'') (\<lambda>_.
     Inr (b\<lparr>max_backoff := m\<rparr>)))"

text \<open>The instant at which the current period ends: \<open>last_fail_time + backoff_period\<close>.\<close>

definition deadline :: "backoff \<Rightarrow> int" where
  "deadline b = last_fail_time b + backoff_period b * NS_PER_S"

definition retry_ok :: "int \<Rightarrow> backoff \<Rightarrow> bool" where
  "retry_ok now b = (if backoff_period b = 0 then True else now > deadline b)"

definition adjust_retry_limit :: "int \<Rightarrow> backoff \<Rightarrow> bool \<times> backoff" where
  "adjust_retry_limit now b =
     (if backoff_period b = 0
      then (True, b\<lparr>backoff_period := min_backoff b, last_fail_time := now\<rparr>)
      else if now > deadline b
      then (True, b\<lparr>backoff_period := min (2 * backoff_period b) (max_backoff b),
                    last_fail_time := now\<rparr>)
      else (False, b))"

definition reset_backoff :: "int \<Rightarrow> backoff \<Rightarrow> backoff" where
  "reset_backoff now b =
     (if backoff_period b \<noteq> 0
      then if now > deadline b
           then b\<lparr>backoff_period := 0, last_fail_time := 0\<rparr>
           else b
      else b)"

lemmas backoff_defs = retry_ok_def adjust_retry_limit_def reset_backoff_def deadline_def

section \<open>Well-formed adjusters\<close>

definition wf_backoff :: "backoff \<Rightarrow> bool" where
  "wf_backoff b \<longleftrightarrow>
     0 < min_backoff b \<and> min_backoff b \<le> max_backoff b \<and>
     0 \<le> backoff_period b \<and> backoff_period b \<le> max_backoff b"

lemma wf_BackoffAdjuster: "wf_backoff BackoffAdjuster"
  by (simp add: wf_backoff_def BackoffAdjuster_def)

lemma wf_adjust_retry_limit: "wf_backoff b \<Longrightarrow> wf_backoff (snd (adjust_retry_limit now b))"
  by (auto simp: wf_backoff_def adjust_retry_limit_def)

lemma wf_reset_backoff: "wf_backoff b \<Longrightarrow> wf_backoff (reset_backoff now b)"
  by (auto simp: wf_backoff_def reset_backoff_def)

lemma wf_set_last_fail_time: "wf_backoff b \<Longrightarrow> wf_backoff (set_last_fail_time t b)"
  by (simp add: wf_backoff_def set_last_fail_time_def)

lemma wf_set_backoff_period:
  "wf_backoff b \<Longrightarrow> 0 \<le> p \<Longrightarrow> set_backoff_period p b = Inr b' \<Longrightarrow> wf_backoff b'"
  by (auto simp: wf_backoff_def set_backoff_period_def rbind_Inr_iff)

section \<open>The contract of a retry gate\<close>

text \<open>
  What a client of the adjuster relies on: a gate that is shut until a deadline, that a failure
  can only shut again once it is open, and that neither a failure nor a success moves while it is
  shut. The request logic sees the adjuster through this interface.
\<close>

datatype gate_event = Failure | Success

locale retry_gate =
  fixes inv :: "'s \<Rightarrow> bool"
    and open_at :: "int \<Rightarrow> 's \<Rightarrow> bool"
    and fail_at :: "int \<Rightarrow> 's \<Rightarrow> 's"
    and succeed_at :: "int \<Rightarrow> 's \<Rightarrow> 's"
  assumes inv_fail: "inv s \<Longrightarrow> inv (fail_at t s)"
    and inv_succeed: "inv s \<Longrightarrow> inv (succeed_at t s)"
    and open_mono: "open_at t s \<Longrightarrow> t \<le> u \<Longrightarrow> open_at u s"
    and shut_fail: "\<not> open_at t s \<Longrightarrow> fail_at t s = s"
    and shut_succeed: "\<not> open_at t s \<Longrightarrow> succeed_at t s = s"
    and fail_shuts: "inv s \<Longrightarrow> \<not> open_at t (fail_at t s)"
    and eventually_open: "\<exists>t. open_at t s"
begin

fun gate_step :: "int \<times> gate_event \<Rightarrow> 's \<Rightarrow> 's" where
  "gate_step (t, Failure) s = fail_at t s"
| "gate_step (t, Success) s = succeed_at t s"

lemma inv_gate_step: "inv s \<Longrightarrow> inv (gate_step e s)"
  by (cases e; cases "snd e") (auto simp: inv_fail inv_succeed)

lemma inv_gate_steps: "inv s \<Longrightarrow> inv (fold gate_step es s)"
  by (induction es arbitrary: s) (auto simp: inv_gate_step)

lemma shut_before: "\<not> open_at u s \<Longrightarrow> t \<le> u \<Longrightarrow> \<not> open_at t s"
  using open_mono by blast

text \<open>While the gate is shut, no interleaving of outcomes moves it.\<close>

lemma shut_frozen:
  "\<not> open_at u s \<Longrightarrow> \<forall>e \<in> set es. fst e \<le> u \<Longrightarrow> fold gate_step es s = s"
proof (induction es)
  case Nil
  then show ?case by simp
next
  case (Cons e es)
  then have "gate_step e s = s"
    by (cases e; cases "snd e") (auto simp: shut_fail shut_succeed dest: shut_before)
  with Cons show ?case by simp
qed

text \<open>Every outcome sequence leaves a gate that opens again.\<close>

lemma opens_again: "\<exists>t. \<forall>u \<ge> t. open_at u (fold gate_step es s)"
  using eventually_open [of "fold gate_step es s"] open_mono by blast

end

lemma retry_ok_iff: "retry_ok now b \<longleftrightarrow> backoff_period b = 0 \<or> deadline b < now"
  by (simp add: retry_ok_def)

interpretation adjuster: retry_gate wf_backoff retry_ok "\<lambda>t b. snd (adjust_retry_limit t b)" reset_backoff
proof unfold_locales
  show "wf_backoff s \<Longrightarrow> wf_backoff (snd (adjust_retry_limit t s))" for s t
    by (rule wf_adjust_retry_limit)
  show "wf_backoff s \<Longrightarrow> wf_backoff (reset_backoff t s)" for s t
    by (rule wf_reset_backoff)
  show "retry_ok t s \<Longrightarrow> t \<le> u \<Longrightarrow> retry_ok u s" for s t u
    by (auto simp: retry_ok_iff)
  show "\<not> retry_ok t s \<Longrightarrow> snd (adjust_retry_limit t s) = s" for s t
    by (auto simp: retry_ok_iff adjust_retry_limit_def)
  show "\<not> retry_ok t s \<Longrightarrow> reset_backoff t s = s" for s t
    by (auto simp: retry_ok_iff reset_backoff_def)
  show "wf_backoff s \<Longrightarrow> \<not> retry_ok t (snd (adjust_retry_limit t s))" for s t
    by (auto simp: retry_ok_iff adjust_retry_limit_def deadline_def wf_backoff_def NS_PER_S_def)
  show "\<exists>t. retry_ok t s" for s
    by (rule exI [of _ "deadline s + 1"]) (simp add: retry_ok_iff)
qed

section \<open>Growth of the period\<close>

fun run_failures :: "int list \<Rightarrow> backoff \<Rightarrow> backoff" where
  "run_failures [] b = b"
| "run_failures (t # ts) b = run_failures ts (snd (adjust_retry_limit t b))"

text \<open>Each failure happens after the period that the earlier ones set has run out.\<close>

fun spaced :: "int list \<Rightarrow> backoff \<Rightarrow> bool" where
  "spaced [] b = True"
| "spaced (t # ts) b = (deadline b < t \<and> spaced ts (snd (adjust_retry_limit t b)))"

lemma run_failures_doubles:
  assumes "0 < backoff_period b" and "0 \<le> max_backoff b" and "backoff_period b \<le> max_backoff b"
    and "spaced ts b"
  shows "backoff_period (run_failures ts b) = min (2 ^ length ts * backoff_period b) (max_backoff b)"
  using assms
proof (induction ts arbitrary: b)
  case Nil
  then show ?case by simp
next
  case (Cons t ts)
  let ?b = "snd (adjust_retry_limit t b)"
  have p: "backoff_period ?b = min (2 * backoff_period b) (max_backoff b)"
    and m: "max_backoff ?b = max_backoff b"
    using Cons.prems by (auto simp: adjust_retry_limit_def)
  have "backoff_period (run_failures ts ?b) =
          min (2 ^ length ts * backoff_period ?b) (max_backoff ?b)"
    using Cons.prems p m by (intro Cons.IH) auto
  also have "\<dots> = min (2 ^ length (t # ts) * backoff_period b) (max_backoff b)"
  proof (cases "2 * backoff_period b \<le> max_backoff b")
    case True
    then show ?thesis by (simp add: p m min_absorb1 mult.assoc mult.left_commute)
  next
    case False
    have "max_backoff b \<le> 2 ^ length ts * max_backoff b"
      using Cons.prems(2) by (simp add: mult_le_cancel_right1)
    moreover have "max_backoff b \<le> 2 * 2 ^ length ts * backoff_period b"
    proof -
      have "2 * backoff_period b \<le> 2 ^ length ts * (2 * backoff_period b)"
        using Cons.prems(1) by (simp add: mult_le_cancel_right1)
      with False have "max_backoff b \<le> 2 ^ length ts * (2 * backoff_period b)"
        by linarith
      then show ?thesis by (simp add: ac_simps)
    qed
    ultimately show ?thesis using False by (simp add: p m min_def)
  qed
  finally show ?case by simp
qed

text \<open>
  C27. After \<open>n + 1\<close> temporary failures, each later than the period the earlier ones set, the back-off
  period is \<open>min (2 ^ n * min_backoff) max_backoff\<close>: it doubles from the minimum and stops at
  the maximum.
\<close>

theorem backoff_exponential:
  assumes "wf_backoff b" and "backoff_period b = 0" and "spaced (t # ts) b"
  shows "backoff_period (run_failures (t # ts) b) = min (2 ^ length ts * min_backoff b) (max_backoff b)"
proof -
  let ?b = "snd (adjust_retry_limit t b)"
  have first: "backoff_period ?b = min_backoff b" "max_backoff ?b = max_backoff b"
    using assms(2) by (auto simp: adjust_retry_limit_def)
  have "backoff_period (run_failures ts ?b) = min (2 ^ length ts * backoff_period ?b) (max_backoff ?b)"
    using assms first by (intro run_failures_doubles) (auto simp: wf_backoff_def)
  with first show ?thesis by simp
qed

theorem backoff_exponential_witness:
  "backoff_period (run_failures [1, 1000000002, 3000000003] BackoffAdjuster) = 2"
proof -
  have "spaced [1, 1000000002, 3000000003] BackoffAdjuster"
    by (simp add: BackoffAdjuster_def adjust_retry_limit_def deadline_def NS_PER_S_def)
  from backoff_exponential [OF wf_BackoffAdjuster _ this] show ?thesis
    by (simp add: BackoffAdjuster_def)
qed

text \<open>
  While the back-off period is running, the adjuster is frozen: whatever failures and (late)
  successes the thread pool reports up to an instant \<open>u\<close> that is still within the period, in any
  order, the state is unchanged and no retry is allowed.
\<close>

theorem backoff_frozen_in_window:
  assumes "\<not> retry_ok u b" and "\<forall>e \<in> set es. fst e \<le> u"
  shows "fold (\<lambda>(t, ok). if ok then reset_backoff t else (\<lambda>b. snd (adjust_retry_limit t b))) es b = b"
proof -
  let ?f = "\<lambda>(t, ok). if ok then reset_backoff t else (\<lambda>b. snd (adjust_retry_limit t b))"
  let ?g = "\<lambda>(t, ok). (t, if ok then Success else Failure)"
  have "?f = adjuster.gate_step \<circ> ?g"
    by (auto simp: fun_eq_iff)
  then have "fold ?f es b = fold adjuster.gate_step (map ?g es) b"
    by (simp add: fold_map)
  also have "\<dots> = b"
    using assms by (intro adjuster.shut_frozen [of u]) auto
  finally show ?thesis .
qed

theorem backoff_frozen_in_window_witness:
  "fold (\<lambda>(t, ok). if ok then reset_backoff t else (\<lambda>b. snd (adjust_retry_limit t b)))
     [(8, True), (7, False), (9, True)]
     \<lparr>last_fail_time = 5, backoff_period = 1, min_backoff = 1, max_backoff = 2\<rparr> =
   \<lparr>last_fail_time = 5, backoff_period = 1, min_backoff = 1, max_backoff = 2\<rparr>"
  by (rule backoff_frozen_in_window [of 9]) (simp_all add: retry_ok_def deadline_def NS_PER_S_def)

end
