(* ===== verification/Cache_Helper.thy ===== *)
theory Cache_Helper
  imports Thumb_Prelude
begin

text \<open>
  \<open>CacheHelper\<close> (\<open>include/internal/cachehelper.h\<close>): the wrapper around a persistent string cache
  that recovers from a corrupt database. The cache itself (\<open>core::PersistentStringCache\<close>) and the
  file system call \<open>boost::filesystem::remove_all\<close> are not part of the repository: they are the
  operations of the parameter \<open>B\<close>, a record of functions on the stored data, of type \<open>'w\<close>. Each
  operation returns its result, or the exception it throws, and the data it leaves behind.
\<close>

section \<open>The underlying cache, as a parameter\<close>

datatype discard_policy = Lru_ttl | Lru_only

text \<open>
  \<open>core::PersistentCacheStats\<close>, with the accessors the sources call. A \<open>double\<close> is carried as the
  word of its 64 bits; a time point is in nanoseconds.
\<close>

record cache_stats =
  st_cache_path :: string
  st_policy :: discard_policy
  st_size :: int
  st_size_in_bytes :: int
  st_max_size_in_bytes :: int
  st_hits :: int
  st_misses :: int
  st_hits_since_last_miss :: int
  st_misses_since_last_hit :: int
  st_longest_hit_run :: int
  st_longest_miss_run :: int
  st_avg_hit_run_length :: "64 word"
  st_avg_miss_run_length :: "64 word"
  st_ttl_evictions :: int
  st_lru_evictions :: int
  st_most_recent_hit_time :: int
  st_most_recent_miss_time :: int
  st_longest_hit_run_time :: int
  st_longest_miss_run_time :: int
  st_histogram :: "int list"

record 'w backend =
  b_open :: "string \<Rightarrow> int \<Rightarrow> discard_policy \<Rightarrow> 'w \<Rightarrow> unit result \<times> 'w"
  b_open_existing :: "string \<Rightarrow> 'w \<Rightarrow> unit result \<times> 'w"
  b_resize :: "int \<Rightarrow> 'w \<Rightarrow> unit result \<times> 'w"
  b_remove_all :: "string \<Rightarrow> 'w \<Rightarrow> unit result \<times> 'w"
  b_get :: "int \<Rightarrow> string \<Rightarrow> 'w \<Rightarrow> string option result \<times> 'w"
  b_put :: "int \<Rightarrow> string \<Rightarrow> string \<Rightarrow> int \<Rightarrow> 'w \<Rightarrow> bool result \<times> 'w"
  b_contains_key :: "int \<Rightarrow> string \<Rightarrow> 'w \<Rightarrow> bool result \<times> 'w"
  b_clear_stats :: "'w \<Rightarrow> unit result \<times> 'w"
  b_invalidate :: "'w \<Rightarrow> unit result \<times> 'w"
  b_compact :: "'w \<Rightarrow> unit result \<times> 'w"
  b_stats :: "'w \<Rightarrow> cache_stats result \<times> 'w"

text \<open>
  The first argument of \<open>b_get\<close>, \<open>b_put\<close> and \<open>b_contains_key\<close> is the time of the call, which decides
  whether an entry has expired. An expiry time of 0, the default time point, means no expiry.
\<close>

section \<open>State and operations\<close>

text \<open>\<open>is_open\<close> is whether the \<open>unique_ptr c_\<close> holds a cache; \<open>store\<close> is the cache's data.\<close>

record 'w helper =
  h_path :: string
  h_max_bytes :: int
  h_policy :: discard_policy
  is_open :: bool
  store :: 'w

fun is_logic_error :: "exn \<Rightarrow> bool" where
  "is_logic_error (Logic_error _) = True"
| "is_logic_error (Invalid_argument _) = True"
| "is_logic_error (Domain_error _) = True"
| "is_logic_error (Out_of_range _) = True"
| "is_logic_error _ = False"

definition init_cache :: "'w backend \<Rightarrow> 'w helper \<Rightarrow> unit result \<times> 'w helper" where
  "init_cache B h =
     (case b_open B (h_path h) (h_max_bytes h) (h_policy h) (store h) of
        (Inr _, w) \<Rightarrow> (Inr (), h\<lparr>is_open := True, store := w\<rparr>)
      | (Inl e, w) \<Rightarrow>
          if is_logic_error e
          then case b_open_existing B (h_path h) w of
                 (Inl e', w') \<Rightarrow> (Inl e', h\<lparr>store := w'\<rparr>)
               | (Inr _, w') \<Rightarrow>
                   (case b_resize B (h_max_bytes h) w' of
                      (r, w'') \<Rightarrow> (r, h\<lparr>is_open := True, store := w''\<rparr>))
          else (Inl e, h\<lparr>store := w\<rparr>))"

definition recover :: "'w backend \<Rightarrow> exn \<Rightarrow> 'w helper \<Rightarrow> unit result \<times> 'w helper" where
  "recover B e h =
     (case e of
        System_error code msg \<Rightarrow>
          if code \<noteq> 666 then (Inl e, h)
          else let h1 = h\<lparr>is_open := False\<rparr>
               in case b_remove_all B (h_path h1) (store h1) of
                    (Inl e', w) \<Rightarrow> (Inl e', h1\<lparr>store := w\<rparr>)
                  | (Inr _, w) \<Rightarrow> init_cache B (h1\<lparr>store := w\<rparr>)
      | _ \<Rightarrow> (Inl e, h))"

definition call :: "'w backend \<Rightarrow> ('w helper \<Rightarrow> 'a result \<times> 'w helper) \<Rightarrow> 'w helper \<Rightarrow> 'a result \<times> 'w helper" where
  "call B func h =
     (case func h of
        (Inr a, h1) \<Rightarrow> (Inr a, h1)
      | (Inl e, h1) \<Rightarrow>
          if \<not> catchable e then (Inl e, h1)
          else case recover B e h1 of
                 (Inl e', h2) \<Rightarrow> (Inl e', h2)
               | (Inr _, h2) \<Rightarrow> func h2)"

text \<open>\<open>c_->op(...)\<close>: a call through the \<open>unique_ptr\<close>.\<close>

definition deref :: "('w \<Rightarrow> 'a result \<times> 'w) \<Rightarrow> 'w helper \<Rightarrow> 'a result \<times> 'w helper" where
  "deref f h =
     (if \<not> is_open h then (Inl (Null_deref ''c_''), h)
      else case f (store h) of (r, w) \<Rightarrow> (r, h\<lparr>store := w\<rparr>))"

definition CacheHelper :: "'w backend \<Rightarrow> string \<Rightarrow> int \<Rightarrow> discard_policy \<Rightarrow> 'w \<Rightarrow> unit result \<times> 'w helper" where
  "CacheHelper B cache_path max_size_in_bytes pol w =
     call B (init_cache B)
       \<lparr>h_path = cache_path, h_max_bytes = max_size_in_bytes, h_policy = pol, is_open = False, store = w\<rparr>"

definition cache_get :: "'w backend \<Rightarrow> int \<Rightarrow> string \<Rightarrow> 'w helper \<Rightarrow> string option result \<times> 'w helper" where
  "cache_get B now key h = call B (deref (b_get B now key)) h"

definition cache_put :: "'w backend \<Rightarrow> int \<Rightarrow> string \<Rightarrow> string \<Rightarrow> int \<Rightarrow> 'w helper \<Rightarrow> bool result \<times> 'w helper" where
  "cache_put B now key value expiry h = call B (deref (b_put B now key value expiry)) h"

definition cache_contains_key :: "'w backend \<Rightarrow> int \<Rightarrow> string \<Rightarrow> 'w helper \<Rightarrow> bool result \<times> 'w helper" where
  "cache_contains_key B now key h = deref (b_contains_key B now key) h"

definition cache_clear_stats :: "'w backend \<Rightarrow> 'w helper \<Rightarrow> unit result \<times> 'w helper" where
  "cache_clear_stats B h = deref (b_clear_stats B) h"

definition cache_invalidate :: "'w backend \<Rightarrow> 'w helper \<Rightarrow> unit result \<times> 'w helper" where
  "cache_invalidate B h = call B (deref (b_invalidate B)) h"

definition cache_compact :: "'w backend \<Rightarrow> 'w helper \<Rightarrow> unit result \<times> 'w helper" where
  "cache_compact B h = call B (deref (b_compact B)) h"

definition cache_stats_of :: "'w backend \<Rightarrow> 'w helper \<Rightarrow> cache_stats result \<times> 'w helper" where
  "cache_stats_of B h = deref (b_stats B) h"

lemmas cache_op_defs = cache_get_def cache_put_def cache_invalidate_def cache_compact_def

section \<open>Shared facts about the call wrapper\<close>

lemma deref_frame:
  "deref f h = (r, h') \<Longrightarrow> h_path h' = h_path h \<and> h_max_bytes h' = h_max_bytes h \<and> h_policy h' = h_policy h \<and> is_open h' = is_open h"
  by (auto simp: deref_def split: if_splits prod.splits)

lemma init_cache_frame:
  "init_cache B h = (r, h') \<Longrightarrow> h_path h' = h_path h \<and> h_max_bytes h' = h_max_bytes h \<and> h_policy h' = h_policy h"
  by (auto simp: init_cache_def split: if_splits prod.splits sum.splits)

lemma recover_frame:
  "recover B e h = (r, h') \<Longrightarrow> h_path h' = h_path h \<and> h_max_bytes h' = h_max_bytes h \<and> h_policy h' = h_policy h"
  by (auto simp: recover_def Let_def split: if_splits prod.splits sum.splits exn.splits
      dest!: init_cache_frame)

lemma init_cache_open: "init_cache B h = (Inr u, h') \<Longrightarrow> is_open h'"
  by (auto simp: init_cache_def split: if_splits prod.splits sum.splits)

lemma recover_success:
  "recover B e h = (Inr u, h') \<Longrightarrow> (\<exists>msg. e = System_error 666 msg) \<and> is_open h'"
  by (auto simp: recover_def Let_def split: if_splits prod.splits sum.splits exn.splits
      dest: init_cache_open)

lemma recover_other:
  "\<nexists>msg. e = System_error 666 msg \<Longrightarrow> recover B e h = (Inl e, h)"
  by (auto simp: recover_def split: exn.splits)

lemma call_cases:
  assumes "call B f h = (r, h')"
  obtains (direct) a where "f h = (Inr a, h')" "r = Inr a"
    | (passed_on) e where "f h = (Inl e, h')" "r = Inl e" "\<nexists>msg. e = System_error 666 msg"
    | (failed_recovery) msg h1 e where "f h = (Inl (System_error 666 msg), h1)"
        "recover B (System_error 666 msg) h1 = (Inl e, h')" "r = Inl e"
    | (retried) msg h1 u h2 where "f h = (Inl (System_error 666 msg), h1)"
        "recover B (System_error 666 msg) h1 = (Inr u, h2)" "f h2 = (r, h')"
proof (cases "f h")
  case (Pair rf h1)
  show ?thesis
  proof (cases rf)
    case (Inr a)
    with assms Pair show ?thesis by (intro direct [of a]) (simp_all add: call_def)
  next
    case (Inl e)
    show ?thesis
    proof (cases "\<exists>msg. e = System_error 666 msg")
      case False
      with assms Pair Inl passed_on show ?thesis
        by (auto simp: call_def recover_other split: if_splits)
    next
      case True
      then obtain msg where e: "e = System_error 666 msg" by blast
      with assms Pair Inl failed_recovery retried show ?thesis
        by (auto simp: call_def split: prod.splits sum.splits)
    qed
  qed
qed

section \<open>Healing caches\<close>

text \<open>
  The documented behaviour of the underlying cache that recovery relies on: removing the directory
  succeeds, a cache opened in a removed directory is intact, and an intact cache stays intact and
  does not report corruption.
\<close>

definition heals :: "'w backend \<Rightarrow> ('w \<Rightarrow> bool) \<Rightarrow> bool" where
  "heals B ok \<longleftrightarrow>
     (\<forall>p w. fst (b_remove_all B p w) = Inr ()) \<and>
     (\<forall>p n pol w. (let w' = snd (b_remove_all B p w)
        in fst (b_open B p n pol w') = Inr () \<and> ok (snd (b_open B p n pol w')))) \<and>
     (\<forall>now k w msg. ok w \<longrightarrow> fst (b_get B now k w) \<noteq> Inl (System_error 666 msg) \<and> ok (snd (b_get B now k w))) \<and>
     (\<forall>now k v x w msg. ok w \<longrightarrow>
        fst (b_put B now k v x w) \<noteq> Inl (System_error 666 msg) \<and> ok (snd (b_put B now k v x w)))"

lemma heals_get:
  assumes "heals B ok" and "ok w" and "b_get B now k w = (r, w')"
  shows "(\<forall>msg. r \<noteq> Inl (System_error 666 msg)) \<and> ok w'"
  using assms unfolding heals_def by (metis fst_conv snd_conv)

lemma heals_put:
  assumes "heals B ok" and "ok w" and "b_put B now k v x w = (r, w')"
  shows "(\<forall>msg. r \<noteq> Inl (System_error 666 msg)) \<and> ok w'"
  using assms unfolding heals_def by (metis fst_conv snd_conv)

lemma recover_heals:
  assumes "heals B ok" and "recover B (System_error 666 msg) h = (r, h')"
  shows "r = Inr () \<and> is_open h' \<and> ok (store h')"
proof -
  obtain w where w: "b_remove_all B (h_path h) (store h) = (Inr (), w)"
    using assms(1) by (metis heals_def prod.collapse)
  with assms(1) obtain w' where w': "b_open B (h_path h) (h_max_bytes h) (h_policy h) w = (Inr (), w')" "ok w'"
    unfolding heals_def Let_def by (metis prod.collapse snd_conv)
  from assms(2) w w' show ?thesis
    by (auto simp: recover_def Let_def init_cache_def)
qed

lemma call_heals:
  assumes "heals B ok"
    and never: "\<And>h r h'. f h = (r, h') \<Longrightarrow> is_open h \<Longrightarrow> ok (store h) \<Longrightarrow>
                   (\<forall>msg. r \<noteq> Inl (System_error 666 msg)) \<and> is_open h' \<and> ok (store h')"
    and frame: "\<And>h r h'. f h = (r, h') \<Longrightarrow> is_open h' = is_open h"
    and "is_open h" and "call B f h = (r, h')"
  shows "(\<forall>msg. r \<noteq> Inl (System_error 666 msg)) \<and> is_open h'"
  using assms(5)
proof (cases rule: call_cases)
  case (direct a)
  then show ?thesis using frame assms(4) by auto
next
  case (passed_on e)
  then show ?thesis using frame assms(4) by auto
next
  case (failed_recovery msg h1 e)
  then show ?thesis using recover_heals [OF assms(1)] by blast
next
  case (retried msg h1 u h2)
  then show ?thesis using recover_heals [OF assms(1)] never by blast
qed

section \<open>The contract of a string cache\<close>

text \<open>An entry as a reader sees it at time \<open>now\<close>: an expiry time of 0 means that it never expires.\<close>

definition unexpired :: "int \<Rightarrow> (string \<times> int) option \<Rightarrow> string option" where
  "unexpired now entry =
     (case entry of None \<Rightarrow> None | Some (v, x) \<Rightarrow> if x \<noteq> 0 \<and> x \<le> now then None else Some v)"

lemma unexpired_simps [simp]:
  "unexpired now None = None" "unexpired now (Some (v, 0)) = Some v"
  "now < x \<Longrightarrow> unexpired now (Some (v, x)) = Some v"
  by (simp_all add: unexpired_def)

text \<open>
  What the clients of a cache rely on. \<open>view\<close> is the contents of a cache and \<open>roomy k v\<close> says that the
  entry is not larger than the cache. A cache may evict other entries when it stores one.
\<close>

locale string_cache =
  fixes get :: "int \<Rightarrow> string \<Rightarrow> ('c, string option) act"
    and put :: "int \<Rightarrow> string \<Rightarrow> string \<Rightarrow> int \<Rightarrow> ('c, bool) act"
    and contains :: "int \<Rightarrow> string \<Rightarrow> ('c, bool) act"
    and invalidate :: "('c, unit) act"
    and inv :: "'c \<Rightarrow> bool"
    and view :: "'c \<Rightarrow> string \<Rightarrow> (string \<times> int) option"
    and roomy :: "string \<Rightarrow> string \<Rightarrow> bool"
  assumes get_law: "inv c \<Longrightarrow> \<exists>c'. get now k c = (Inr (unexpired now (view c k)), c') \<and> inv c' \<and> view c' = view c"
    and put_law: "inv c \<Longrightarrow> x = 0 \<or> now < x \<Longrightarrow>
      \<exists>c'. put now k v x c = (Inr (roomy k v), c') \<and> inv c' \<and> (roomy k v \<longrightarrow> view c' k = Some (v, x)) \<and>
           (\<forall>j. j \<noteq> k \<longrightarrow> view c' j = None \<or> view c' j = view c j)"
    and contains_law: "inv c \<Longrightarrow>
      \<exists>c'. contains now k c = (Inr (unexpired now (view c k) \<noteq> None), c') \<and> inv c' \<and> view c' = view c"
    and invalidate_law: "inv c \<Longrightarrow> \<exists>c'. invalidate c = (Inr (), c') \<and> inv c' \<and> view c' = (\<lambda>_. None)"
begin

lemma getE:
  assumes "inv c" and "get now k c = (r, c')"
  shows "r = Inr (unexpired now (view c k))" and "inv c'" and "view c' = view c"
  using get_law [OF assms(1), of now k] assms(2) by auto

lemma putE:
  assumes "inv c" and "x = 0 \<or> now < x" and "put now k v x c = (r, c')"
  shows "r = Inr (roomy k v)" and "inv c'" and "roomy k v \<Longrightarrow> view c' k = Some (v, x)"
    and "j \<noteq> k \<Longrightarrow> view c' j = None \<or> view c' j = view c j"
  using put_law [OF assms(1,2), of k v] assms(3) by auto

text \<open>A stored entry is found again until it expires.\<close>

lemma get_after_put:
  assumes "inv c" and "x = 0 \<or> now < x" and "roomy k v" and "put now k v x c = (r, c')"
    and "x = 0 \<or> now' < x"
  shows "\<exists>c''. get now' k c' = (Inr (Some v), c'')"
  using putE [OF assms(1,2,4)] assms(3,5) get_law [of c' now' k] by auto

lemma get_after_invalidate:
  assumes "inv c" and "invalidate c = (r, c')"
  shows "\<exists>c''. get now k c' = (Inr None, c'')"
  using invalidate_law [OF assms(1)] assms(2) get_law [of c' now k] by auto

end

text \<open>The same promises, for the operations of the underlying cache.\<close>

definition healthy_backend ::
  "'w backend \<Rightarrow> ('w \<Rightarrow> bool) \<Rightarrow> ('w \<Rightarrow> string \<Rightarrow> (string \<times> int) option) \<Rightarrow> (string \<Rightarrow> string \<Rightarrow> bool) \<Rightarrow> bool" where
  "healthy_backend B ok content roomy \<longleftrightarrow>
     (\<forall>now k w. ok w \<longrightarrow> (\<exists>w'. b_get B now k w = (Inr (unexpired now (content w k)), w') \<and> ok w' \<and> content w' = content w)) \<and>
     (\<forall>now k v x w. ok w \<and> (x = 0 \<or> now < x) \<longrightarrow>
        (\<exists>w'. b_put B now k v x w = (Inr (roomy k v), w') \<and> ok w' \<and> (roomy k v \<longrightarrow> content w' k = Some (v, x)) \<and>
              (\<forall>j. j \<noteq> k \<longrightarrow> content w' j = None \<or> content w' j = content w j))) \<and>
     (\<forall>now k w. ok w \<longrightarrow>
        (\<exists>w'. b_contains_key B now k w = (Inr (unexpired now (content w k) \<noteq> None), w') \<and> ok w' \<and> content w' = content w)) \<and>
     (\<forall>w. ok w \<longrightarrow> (\<exists>w'. b_invalidate B w = (Inr (), w') \<and> ok w' \<and> content w' = (\<lambda>_. None)))"

text \<open>The helper keeps the promises of the cache it wraps.\<close>

lemma call_deref_ok: "is_open h \<Longrightarrow> f (store h) = (Inr a, w) \<Longrightarrow> call B (deref f) h = (Inr a, h\<lparr>store := w\<rparr>)"
  by (simp add: call_def deref_def)

lemma helper_string_cache:
  assumes "healthy_backend B ok content roomy"
  shows "string_cache (cache_get B) (cache_put B) (cache_contains_key B) (cache_invalidate B)
           (\<lambda>h. is_open h \<and> ok (store h)) (\<lambda>h. content (store h)) roomy"
proof unfold_locales
  note D = assms [unfolded healthy_backend_def]
  note get_D = D [THEN conjunct1, rule_format]
    and put_D = D [THEN conjunct2, THEN conjunct1, rule_format]
    and contains_D = D [THEN conjunct2, THEN conjunct2, THEN conjunct1, rule_format]
    and invalidate_D = D [THEN conjunct2, THEN conjunct2, THEN conjunct2, rule_format]
  fix c :: "'a helper" and now k v x
  assume "is_open c \<and> ok (store c)"
  then have c: "is_open c" "ok (store c)" by auto
  obtain w where "b_get B now k (store c) = (Inr (unexpired now (content (store c) k)), w)" "ok w"
      "content w = content (store c)"
    using get_D [OF c(2)] by blast
  with c(1) show "\<exists>c'. cache_get B now k c = (Inr (unexpired now (content (store c) k)), c') \<and>
      (is_open c' \<and> ok (store c')) \<and> content (store c') = content (store c)"
    by (simp add: cache_get_def call_deref_ok)
  obtain w where "b_contains_key B now k (store c) = (Inr (unexpired now (content (store c) k) \<noteq> None), w)" "ok w"
      "content w = content (store c)"
    using contains_D [OF c(2)] by blast
  with c(1) show "\<exists>c'. cache_contains_key B now k c = (Inr (unexpired now (content (store c) k) \<noteq> None), c') \<and>
      (is_open c' \<and> ok (store c')) \<and> content (store c') = content (store c)"
    by (simp add: cache_contains_key_def deref_def)
  obtain w where "b_invalidate B (store c) = (Inr (), w)" "ok w" "content w = (\<lambda>_. None)"
    using invalidate_D [OF c(2)] by blast
  with c(1) show "\<exists>c'. cache_invalidate B c = (Inr (), c') \<and> (is_open c' \<and> ok (store c')) \<and> content (store c') = (\<lambda>_. None)"
    by (simp add: cache_invalidate_def call_deref_ok)
  assume "x = 0 \<or> now < x"
  from put_D [OF conjI [OF c(2) this], of k v] obtain w where "b_put B now k v x (store c) = (Inr (roomy k v), w)" "ok w"
      "roomy k v \<longrightarrow> content w k = Some (v, x)" "\<forall>j. j \<noteq> k \<longrightarrow> content w j = None \<or> content w j = content (store c) j"
    by blast
  with c(1) show "\<exists>c'. cache_put B now k v x c = (Inr (roomy k v), c') \<and> (is_open c' \<and> ok (store c')) \<and>
      (roomy k v \<longrightarrow> content (store c') k = Some (v, x)) \<and>
      (\<forall>j. j \<noteq> k \<longrightarrow> content (store c') j = None \<or> content (store c') j = content (store c) j)"
    by (simp add: cache_put_def call_deref_ok)
qed

section \<open>A concrete cache\<close>

text \<open>
  An instance of the parameter on which the hypotheses above hold: an association list with expiry
  times and a flag for a corrupt database.
\<close>

type_synonym mem = "bool \<times> (string \<times> string \<times> int) list"

definition mem_fail :: "mem \<Rightarrow> 'a result \<times> mem" where
  "mem_fail w = (Inl (System_error 666 ''corrupt''), w)"

fun mem_get :: "int \<Rightarrow> string \<Rightarrow> mem \<Rightarrow> string option result \<times> mem" where
  "mem_get now k (bad, es) =
     (if bad then mem_fail (bad, es)
      else (Inr (case map_of es k of
                   None \<Rightarrow> None
                 | Some (v, x) \<Rightarrow> if x \<noteq> 0 \<and> x \<le> now then None else Some v), (bad, es)))"

fun mem_put :: "int \<Rightarrow> string \<Rightarrow> string \<Rightarrow> int \<Rightarrow> mem \<Rightarrow> bool result \<times> mem" where
  "mem_put now k v x (bad, es) =
     (if bad then mem_fail (bad, es) else (Inr True, (bad, (k, v, x) # es)))"

definition mem_stats :: "mem \<Rightarrow> cache_stats" where
  "mem_stats w =
     \<lparr>st_cache_path = ''/c'', st_policy = Lru_only, st_size = int (length (snd w)), st_size_in_bytes = 0,
      st_max_size_in_bytes = 1024, st_hits = 0, st_misses = 0, st_hits_since_last_miss = 0,
      st_misses_since_last_hit = 0, st_longest_hit_run = 0, st_longest_miss_run = 0,
      st_avg_hit_run_length = 0, st_avg_miss_run_length = 0, st_ttl_evictions = 0, st_lru_evictions = 0,
      st_most_recent_hit_time = 0, st_most_recent_miss_time = 0, st_longest_hit_run_time = 0,
      st_longest_miss_run_time = 0, st_histogram = [int (length (snd w))]\<rparr>"

definition mem_backend :: "mem backend" where
  "mem_backend =
     \<lparr>b_open = (\<lambda>p n pol w. (Inr (), w)),
      b_open_existing = (\<lambda>p w. (Inr (), w)),
      b_resize = (\<lambda>n w. (Inr (), w)),
      b_remove_all = (\<lambda>p w. (Inr (), (False, []))),
      b_get = mem_get,
      b_put = mem_put,
      b_contains_key = (\<lambda>now k w. (Inr (\<exists>v. fst (mem_get now k (False, snd w)) = Inr (Some v)), w)),
      b_clear_stats = (\<lambda>w. (Inr (), w)),
      b_invalidate = (\<lambda>w. (Inr (), (fst w, []))),
      b_compact = (\<lambda>w. (Inr (), w)),
      b_stats = (\<lambda>w. (Inr (mem_stats w), w))\<rparr>"

definition mem_helper :: "bool \<Rightarrow> (string \<times> string \<times> int) list \<Rightarrow> mem helper" where
  "mem_helper bad es =
     \<lparr>h_path = ''/c'', h_max_bytes = 1024, h_policy = Lru_only, is_open = True, store = (bad, es)\<rparr>"

lemma mem_backend_heals: "heals mem_backend (\<lambda>w. \<not> fst w)"
  by (auto simp: heals_def mem_backend_def)

lemma mem_get_good: "\<not> bad \<Longrightarrow> mem_get now k (bad, es) = (Inr (unexpired now (map_of es k)), (bad, es))"
  by (auto simp: unexpired_def split: option.splits)

lemma mem_backend_healthy: "healthy_backend mem_backend (\<lambda>w. \<not> fst w) (\<lambda>w. map_of (snd w)) (\<lambda>k v. True)"
  unfolding healthy_backend_def
proof (intro conjI allI impI)
  fix now x :: int and k v :: string and w :: mem
  obtain bad es where w: "w = (bad, es)" by fastforce
  show "\<exists>w'. b_get mem_backend now k w = (Inr (unexpired now (map_of (snd w) k)), w') \<and> \<not> fst w' \<and>
      map_of (snd w') = map_of (snd w)" if "\<not> fst w"
    using that mem_get_good [of bad now k es] by (simp add: w mem_backend_def del: mem_get.simps)
  show "\<exists>w'. b_contains_key mem_backend now k w = (Inr (unexpired now (map_of (snd w) k) \<noteq> None), w') \<and> \<not> fst w' \<and>
      map_of (snd w') = map_of (snd w)" if "\<not> fst w"
    using that mem_get_good [of False now k es] by (simp add: w mem_backend_def del: mem_get.simps)
  show "\<exists>w'. b_invalidate mem_backend w = (Inr (), w') \<and> \<not> fst w' \<and> map_of (snd w') = (\<lambda>_. None)" if "\<not> fst w"
    using that by (simp add: w mem_backend_def fun_eq_iff)
  show "\<exists>w'. b_put mem_backend now k v x w = (Inr True, w') \<and> \<not> fst w' \<and> (True \<longrightarrow> map_of (snd w') k = Some (v, x)) \<and>
      (\<forall>j. j \<noteq> k \<longrightarrow> map_of (snd w') j = None \<or> map_of (snd w') j = map_of (snd w) j)"
    if "\<not> fst w \<and> (x = 0 \<or> now < x)"
    using that by (simp add: w mem_backend_def)
qed

interpretation mem_cache: string_cache "cache_get mem_backend" "cache_put mem_backend" "cache_contains_key mem_backend"
    "cache_invalidate mem_backend" "\<lambda>h. is_open h \<and> \<not> fst (store h)" "\<lambda>h. map_of (snd (store h))" "\<lambda>k v. True"
  by (rule helper_string_cache [OF mem_backend_healthy])

section \<open>Properties\<close>

text \<open>
  Only a corrupt database is ever deleted. When the underlying operation fails with anything
  other than a system error 666, the wrapper passes that exception on, and the data is exactly what
  the failed operation left: nothing is removed, reopened or retried.
\<close>

theorem cache_other_errors_pass:
  assumes "is_open h" and "b_put B now key value expiry (store h) = (Inl e, w)"
    and "\<forall>msg. e \<noteq> System_error 666 msg"
  shows "cache_put B now key value expiry h = (Inl e, h\<lparr>store := w\<rparr>)"
  using assms by (auto simp: cache_put_def call_def deref_def recover_other)

theorem cache_other_errors_pass_witness:
  "cache_put (mem_backend\<lparr>b_put := (\<lambda>now k v x w. (Inl (System_error 5 ''io''), w))\<rparr>) 1 ''k'' ''v'' 0
     (mem_helper False []) = (Inl (System_error 5 ''io''), mem_helper False [])"
  using cache_other_errors_pass [of "mem_helper False []"
      "mem_backend\<lparr>b_put := (\<lambda>now k v x w. (Inl (System_error 5 ''io''), w))\<rparr>" 1 "''k''" "''v''" 0
      "System_error 5 ''io''" "(False, [])"]
  by (simp add: mem_helper_def)

text \<open>
  C28. Self-healing. With a cache that heals as documented, a \<open>get\<close> or \<open>put\<close> on an open helper never
  reports database corruption to its caller and always leaves a cache that is open, even when the
  database was corrupt at the time of the call.
\<close>

theorem cache_self_healing:
  assumes "heals B ok" and "is_open h"
  shows "(\<forall>msg. fst (cache_get B now k h) \<noteq> Inl (System_error 666 msg)) \<and> is_open (snd (cache_get B now k h)) \<and>
         (\<forall>msg. fst (cache_put B now k v x h) \<noteq> Inl (System_error 666 msg)) \<and> is_open (snd (cache_put B now k v x h))"
proof -
  have g: "(\<forall>msg. r \<noteq> Inl (System_error 666 msg)) \<and> is_open h'"
    if "cache_get B now k h = (r, h')" for r h'
    using that unfolding cache_get_def
    by (rule call_heals [OF assms(1) _ _ assms(2), rotated 2])
      (auto simp: deref_def split: if_splits prod.splits dest: heals_get [OF assms(1)])
  have p: "(\<forall>msg. r \<noteq> Inl (System_error 666 msg)) \<and> is_open h'"
    if "cache_put B now k v x h = (r, h')" for r h'
    using that unfolding cache_put_def
    by (rule call_heals [OF assms(1) _ _ assms(2), rotated 2])
      (auto simp: deref_def split: if_splits prod.splits dest: heals_put [OF assms(1)])
  show ?thesis
    using g [OF surjective_pairing] p [OF surjective_pairing] by blast
qed

theorem cache_self_healing_witness:
  "(\<forall>msg. fst (cache_get mem_backend 5 ''k'' (mem_helper True [])) \<noteq> Inl (System_error 666 msg)) \<and>
   is_open (snd (cache_get mem_backend 5 ''k'' (mem_helper True []))) \<and>
   (\<forall>msg. fst (cache_put mem_backend 5 ''k'' ''v'' 0 (mem_helper True [])) \<noteq> Inl (System_error 666 msg)) \<and>
   is_open (snd (cache_put mem_backend 5 ''k'' ''v'' 0 (mem_helper True [])))"
  by (rule cache_self_healing [OF mem_backend_heals]) (simp add: mem_helper_def)

text \<open>
  When recovery itself fails, the helper is left without a cache: the wrapper throws the recovery
  error, and the next operation through the helper dereferences the null \<open>c_\<close>.
\<close>

theorem cache_failed_recovery_leaves_null:
  assumes "is_open h" and "b_get B now k (store h) = (Inl (System_error 666 msg), w)"
    and "b_remove_all B (h_path h) w = (Inl e, w')" and "catchable e"
  shows "fst (cache_get B now k h) = Inl e \<and>
         fst (cache_get B now' k' (snd (cache_get B now k h))) = Inl (Null_deref ''c_'')"
proof -
  have "cache_get B now k h = (Inl e, h\<lparr>is_open := False, store := w'\<rparr>)"
    using assms by (simp add: cache_get_def call_def deref_def recover_def)
  then show ?thesis
    by (simp add: cache_get_def call_def deref_def)
qed

theorem cache_failed_recovery_leaves_null_witness:
  "fst (cache_get (mem_backend\<lparr>b_remove_all := (\<lambda>p w. (Inl (Runtime_error ''rm''), w))\<rparr>) 5 ''k''
          (mem_helper True [])) = Inl (Runtime_error ''rm'') \<and>
   fst (cache_get (mem_backend\<lparr>b_remove_all := (\<lambda>p w. (Inl (Runtime_error ''rm''), w))\<rparr>) 6 ''k''
          (snd (cache_get (mem_backend\<lparr>b_remove_all := (\<lambda>p w. (Inl (Runtime_error ''rm''), w))\<rparr>) 5 ''k''
                  (mem_helper True [])))) = Inl (Null_deref ''c_'')"
  by (rule cache_failed_recovery_leaves_null [of _ _ _ _ "''corrupt''" "(True, [])" _ "(True, [])"])
    (simp_all add: mem_helper_def mem_backend_def mem_fail_def)

end
