(* ===== verification/System_Utils.thy ===== *)
theory System_Utils
  imports Thumb_Prelude
begin

text \<open>
  The small wrappers around system interfaces: \<open>src/safe_strerror.cpp\<close>, \<open>src/mimetype.cpp\<close>,
  \<open>src/check_access.cpp\<close>, \<open>src/file_io.cpp\<close>, \<open>src/make_directories.cpp\<close> and \<open>src/file_lock.cpp\<close>. The calls of the C library, GIO and
  AppArmor are parameters: a function's result, or the list of results that successive calls return.
\<close>

section \<open>Error texts\<close>

text \<open>\<open>strerror_r\<close> returns 0 and a text, \<open>EINVAL\<close> (22), \<open>ERANGE\<close> (34) or something else.\<close>

definition EINVAL :: int where "EINVAL = 22"
definition ERANGE :: int where "ERANGE = 34"

definition safe_strerror :: "(int \<Rightarrow> int \<times> string) \<Rightarrow> int \<Rightarrow> string" where
  "safe_strerror strerror_r errnum =
     (case strerror_r errnum of
        (rc, buf) \<Rightarrow>
          if rc = 0 then buf
          else if rc = EINVAL then ''invalid error number '' @ int_to_string errnum @ '' for strerror_r()''
          else if rc = ERANGE
          then ''buffer size of '' @ int_to_string 512 @ '' is too small for strerror_r(), errnum = '' @ int_to_string errnum
          else ''impossible return value '' @ int_to_string rc @ '' from strerror_r(), errnum = '' @ int_to_string errnum)"

section \<open>MIME types\<close>

text \<open>\<open>query\<close> is \<open>g_file_query_info\<close>: an error message, or the content type attribute.\<close>

definition get_mimetype :: "(string \<Rightarrow> string + string) \<Rightarrow> string \<Rightarrow> string result" where
  "get_mimetype query filename =
     (case query filename of
        Inl message \<Rightarrow> Inl (Runtime_error message)
      | Inr content_type \<Rightarrow>
          if content_type = []
          then Inl (Runtime_error (''get_mimetype(): '' @ filename @ '': could not determine content type''))
          else Inr content_type)"

section \<open>Access checks\<close>

datatype access = Access_write | Access_read

definition access_bits :: "access \<Rightarrow> int" where
  "access_bits a = (case a of Access_write \<Rightarrow> 2 | Access_read \<Rightarrow> 4)"

text \<open>
  \<open>aa_is_enabled\<close>, the fixed prefix \<open>AA_QUERY_CMD_LABEL\<close> and \<open>aa_query_label\<close>, which fails with an error
  number or answers whether access is allowed.
\<close>

record apparmor =
  aa_is_enabled :: bool
  aa_query_cmd_label :: string
  aa_query_label :: "int \<Rightarrow> string \<Rightarrow> int + bool"
  aa_strerror :: "int \<Rightarrow> int \<times> string"

definition aa_class :: char where "aa_class = CHR 0x02"

definition query_file :: "apparmor \<Rightarrow> access \<Rightarrow> string \<Rightarrow> string \<Rightarrow> bool result" where
  "query_file A acc label path =
     (if \<not> aa_is_enabled A then Inr True
      else let query = aa_query_cmd_label A @ label @ [NUL] @ [aa_class] @ path
           in case aa_query_label A (access_bits acc) query of
                Inl errno \<Rightarrow> Inl (Runtime_error (''query_file(): Could not query AppArmor access: '' @
                                                 safe_strerror (aa_strerror A) errno))
              | Inr allowed \<Rightarrow> Inr allowed)"

definition apparmor_can_read :: "apparmor \<Rightarrow> string \<Rightarrow> string \<Rightarrow> bool result" where
  "apparmor_can_read A label path = query_file A Access_read label path"

section \<open>File I/O\<close>

text \<open>Results of successive \<open>read\<close> calls: the bytes read (none at the end of the file) or an error number.\<close>

type_synonym reads = "(int + string) list"

fun read_loop :: "(int \<Rightarrow> int \<times> string) \<Rightarrow> string \<Rightarrow> reads \<Rightarrow> string \<Rightarrow> string result" where
  "read_loop se filename [] contents = Inr contents"
| "read_loop se filename (Inl errno # rs) contents =
     Inl (Runtime_error (''read_file(): cannot read from \"'' @ filename @ ''\": '' @ safe_strerror se errno))"
| "read_loop se filename (Inr buf # rs) contents =
     (if length buf = 0 then Inr contents else read_loop se filename rs (contents @ buf))"

definition read_file :: "(int \<Rightarrow> int \<times> string) \<Rightarrow> (string \<Rightarrow> int + reads) \<Rightarrow> string \<Rightarrow> string result" where
  "read_file se open_file filename =
     (case open_file filename of
        Inl errno \<Rightarrow> Inl (Runtime_error (''read_file(): cannot open \"'' @ filename @ ''\": '' @ safe_strerror se errno))
      | Inr rs \<Rightarrow> read_loop se filename rs [])"

text \<open>
  \<open>write_file(filename, buf, len)\<close> writes a temporary file in the same directory and renames it. \<open>mkstemp\<close>,
  \<open>write\<close> and \<open>rename\<close> are the parameters; \<open>write\<close> returns how many bytes it wrote. The model's files are a
  map from names to contents, and the result is paired with the files left behind.
\<close>

record fs_calls =
  fc_parent :: "string \<Rightarrow> string"
  fc_mkstemp :: "string \<Rightarrow> int + string"
  fc_write :: "string \<Rightarrow> int + nat"
  fc_rename :: "string \<Rightarrow> string \<Rightarrow> int option"
  fc_strerror :: "int \<Rightarrow> int \<times> string"

definition write_file :: "fs_calls \<Rightarrow> string \<Rightarrow> string \<Rightarrow> (string \<rightharpoonup> string) \<Rightarrow> unit result \<times> (string \<rightharpoonup> string)" where
  "write_file F filename buf fs =
     (let pattern = fc_parent F filename @ ''/thumbnailer.XXXXXX''
      in case fc_mkstemp F pattern of
           Inl errno \<Rightarrow>
             (Inl (Runtime_error (''write_file(): mkstemp() failed for '' @ pattern @ '': '' @
                                  safe_strerror (fc_strerror F) errno)), fs)
         | Inr tmp \<Rightarrow>
             let fs1 = fs(tmp \<mapsto> [])
             in case fc_write F buf of
                  Inl errno \<Rightarrow>
                    (Inl (Runtime_error (''write_file(): cannot write to \"'' @ filename @ ''\": '' @
                                         safe_strerror (fc_strerror F) errno)), fs1)
                | Inr rc \<Rightarrow>
                    let fs2 = fs1(tmp \<mapsto> take rc buf)
                    in if rc \<noteq> length buf
                       then (Inl (Runtime_error (''write_file(): short write for \"'' @ filename @ ''\"'')), fs2)
                       else case fc_rename F tmp filename of
                              Some errno \<Rightarrow>
                                (Inl (Runtime_error (''write_file(): cannot rename '' @ tmp @ '' to '' @ filename @
                                                     '': '' @ safe_strerror (fc_strerror F) errno)), fs2(tmp := None))
                            | None \<Rightarrow> (Inr (), (fs2(tmp := None))(filename \<mapsto> buf)))"

text \<open>
  \<open>write_file(in_fd, out_fd)\<close>: copies until a read returns nothing. Each round consumes one read result and
  one write result; the output is what the writes stored.
\<close>

fun copy_loop :: "(int \<Rightarrow> int \<times> string) \<Rightarrow> reads \<Rightarrow> (int + nat) list \<Rightarrow> string \<Rightarrow> string result" where
  "copy_loop se [] ws out = Inr out"
| "copy_loop se (Inl errno # rs) ws out = Inl (Runtime_error (''read failed: '' @ safe_strerror se errno))"
| "copy_loop se (Inr buf # rs) [] out = Inr out"
| "copy_loop se (Inr buf # rs) (w # ws) out =
     (case w of
        Inl errno \<Rightarrow> Inl (Runtime_error (''write failed: '' @ safe_strerror se errno))
      | Inr bytes_written \<Rightarrow>
          if bytes_written \<noteq> length buf
          then Inl (Runtime_error (''short write, requested '' @ nat_to_string (length buf) @ '' bytes, wrote '' @
                                   nat_to_string bytes_written @ '' bytes''))
          else if length buf \<noteq> 0 then copy_loop se rs ws (out @ buf) else Inr out)"

definition write_fd_to_path :: "(int \<Rightarrow> int \<times> string) \<Rightarrow> (string \<Rightarrow> int option) \<Rightarrow> string \<Rightarrow> reads \<Rightarrow> (int + nat) list \<Rightarrow> string result" where
  "write_fd_to_path se open_out path rs ws =
     (case open_out path of
        Some errno \<Rightarrow> Inl (Runtime_error (''write_file(): cannot open '' @ path @ '': '' @ safe_strerror se errno))
      | None \<Rightarrow> copy_loop se rs ws [])"

text \<open>\<open>tmpdir\<close> is the environment variable \<open>TMPDIR\<close>.\<close>

definition tmp_dir :: "string option \<Rightarrow> string" where
  "tmp_dir tmpdir = (case tmpdir of Some d \<Rightarrow> d | None \<Rightarrow> ''/tmp'')"

definition create_tmp_filename :: "fs_calls \<Rightarrow> string option \<Rightarrow> string result" where
  "create_tmp_filename F tmpdir =
     (let pattern = tmp_dir tmpdir @ ''/thumbnailer.XXXXXX''
      in case fc_mkstemp F pattern of
           Inl errno \<Rightarrow> Inl (Runtime_error (''create_tmp_filename(): mkstemp() failed for '' @ pattern @ '': '' @
                                            safe_strerror (fc_strerror F) errno))
         | Inr tmp \<Rightarrow> Inr tmp)"

text \<open>\<open>mkdirs\<close> is \<open>g_mkdir_with_parents\<close>: a return code and the directories afterwards. The code is ignored: failures are silent.\<close>

definition make_directories :: "(string \<Rightarrow> int \<Rightarrow> 'd \<Rightarrow> int \<times> 'd) \<Rightarrow> string \<Rightarrow> int \<Rightarrow> 'd \<Rightarrow> 'd" where
  "make_directories mkdirs path_name mode dirs = snd (mkdirs path_name mode dirs)"

section \<open>Advisory file locks\<close>

record file_lock =
  lock_path :: string
  locked :: bool

datatype flock_result = Flock_ok | Would_block | Flock_error int

definition sleep_interval :: int where "sleep_interval = 100"

definition AdvisoryFileLock :: "(string \<Rightarrow> int option) \<Rightarrow> string \<Rightarrow> file_lock result" where
  "AdvisoryFileLock open_file path =
     (case open_file path of
        Some errno \<Rightarrow> Inl (FileException (''AdvisoryFileLock::lock(): cannot open '' @ path) errno)
      | None \<Rightarrow> Inr \<lparr>lock_path = path, locked = False\<rparr>)"

text \<open>
  The polling loop: \<open>results\<close> are the results of successive \<open>flock\<close> calls. The list running out means that
  the call never returns (a blocking \<open>flock\<close> that is never granted): the value None.
\<close>

fun flock_loop :: "flock_result list \<Rightarrow> int \<Rightarrow> (bool result) option" where
  "flock_loop [] remaining_time = None"
| "flock_loop (r # rs) remaining_time =
     (case r of
        Flock_ok \<Rightarrow> Some (Inr True)
      | Flock_error errno \<Rightarrow> Some (Inl (FileException ''AdvisoryFileLock::lock(): flock failed'' errno))
      | Would_block \<Rightarrow>
          let remaining = remaining_time - sleep_interval
          in if remaining > 0 then flock_loop rs remaining else Some (Inr False))"

definition file_lock_lock :: "flock_result list \<Rightarrow> int \<Rightarrow> file_lock \<Rightarrow> (bool result \<times> file_lock) option" where
  "file_lock_lock results msecs l =
     (if locked l then Some (Inl (LogicException (''AdvisoryFileLock::lock(): locked already: '' @ lock_path l)), l)
      else case flock_loop results msecs of
             None \<Rightarrow> None
           | Some (Inl e) \<Rightarrow> Some (Inl e, l)
           | Some (Inr b) \<Rightarrow> Some (Inr b, l\<lparr>locked := b\<rparr>))"

definition file_lock_unlock :: "int option \<Rightarrow> file_lock \<Rightarrow> unit result \<times> file_lock" where
  "file_lock_unlock flock_un l =
     (if \<not> locked l then (Inl (LogicException (''AdvisoryFileLock::unlock(): unlocked already: '' @ lock_path l)), l)
      else case flock_un of
             Some errno \<Rightarrow> (Inl (FileException (''AdvisoryFileLock::unlock(): cannot unlock '' @ lock_path l) errno), l)
           | None \<Rightarrow> (Inr (), l\<lparr>locked := False\<rparr>))"

text \<open>
  The destructor closes the descriptor, and with it goes the lock, whether \<open>unlock\<close> was called or not; \<open>held\<close> are
  the files the process has locked. \<open>fd_\<close> is valid in every object, because the constructor throws otherwise.
\<close>

definition AdvisoryFileLock_destroy :: "file_lock \<Rightarrow> string set \<Rightarrow> string set" where
  "AdvisoryFileLock_destroy l held = (if locked l then held - {lock_path l} else held)"

section \<open>Shared facts\<close>

lemma read_loop_complete:
  "\<forall>d \<in> set ds. d \<noteq> [] \<Longrightarrow> read_loop se f (map Inr ds @ Inr [] # rs) acc = Inr (acc @ concat ds)"
  by (induction ds arbitrary: acc) auto

lemma copy_loop_complete:
  "\<forall>d \<in> set ds. d \<noteq> [] \<Longrightarrow>
     copy_loop se (map Inr ds @ Inr [] # rs) (map (Inr \<circ> length) ds @ Inr 0 # ws) acc = Inr (acc @ concat ds)"
  by (induction ds arbitrary: acc) auto

section \<open>Properties\<close>

lemma write_file_replaces:
  assumes "\<And>pattern tmp. fc_mkstemp F pattern = Inr tmp \<Longrightarrow> tmp \<noteq> filename \<and> fs tmp = None"
    and "write_file F filename buf fs = (r, fs')"
  shows "fs' filename = (if r = Inr () then Some buf else fs filename) \<and>
         (r = Inr () \<longrightarrow> fs' = fs(filename \<mapsto> buf))"
proof (cases "fc_mkstemp F (fc_parent F filename @ ''/thumbnailer.XXXXXX'')")
  case (Inl errno)
  with assms(2) show ?thesis by (auto simp: write_file_def)
next
  case (Inr tmp)
  with assms(1) have "tmp \<noteq> filename" "fs tmp = None" by blast+
  note tmp = this
  show ?thesis
  proof (cases "fc_write F buf")
    case (Inl errno)
    with Inr tmp assms(2) show ?thesis by (auto simp: write_file_def)
  next
    case w: (Inr rc)
    from tmp(2) have "(fs(tmp \<mapsto> x))(tmp := None) = fs" for x by (rule_tac ext) simp
    with Inr w tmp assms(2) show ?thesis
      by (cases "rc = length buf"; cases "fc_rename F tmp filename") (auto simp: write_file_def)
  qed
qed

text \<open>
  Atomic replacement: whatever fails, the file that is to be written keeps its old contents until
  the final rename succeeds, and then has exactly the new contents; when the rename fails, or all is
  well, no temporary file is left behind.
\<close>

theorem write_file_atomic:
  assumes "\<And>pattern tmp. fc_mkstemp F pattern = Inr tmp \<Longrightarrow> tmp \<noteq> filename \<and> fs tmp = None"
    and "write_file F filename buf fs = (r, fs')"
  shows "fs' filename = (if r = Inr () then Some buf else fs filename) \<and>
         (r = Inr () \<longrightarrow> fs' = fs(filename \<mapsto> buf))"
  by (rule write_file_replaces [OF assms])

theorem write_file_atomic_witness:
  "snd (write_file \<lparr>fc_parent = (\<lambda>_. ''/d''), fc_mkstemp = (\<lambda>p. Inr ''/d/thumbnailer.a1b2c3''),
                    fc_write = (\<lambda>b. Inr (length b - 1)), fc_rename = (\<lambda>_ _. None), fc_strerror = (\<lambda>_. (0, []))\<rparr>
          ''/d/f'' ''new'' [''/d/f'' \<mapsto> ''old'']) ''/d/f'' = Some ''old''"
proof -
  let ?F = "\<lparr>fc_parent = (\<lambda>_. ''/d''), fc_mkstemp = (\<lambda>p. Inr ''/d/thumbnailer.a1b2c3''),
             fc_write = (\<lambda>b. Inr (length b - 1)), fc_rename = (\<lambda>_ _. None), fc_strerror = (\<lambda>_. (0, []))\<rparr> :: fs_calls"
  obtain r fs' where w: "write_file ?F ''/d/f'' ''new'' [''/d/f'' \<mapsto> ''old''] = (r, fs')" by fastforce
  then have "r \<noteq> Inr ()" by (auto simp: write_file_def)
  with write_file_atomic [OF _ w] w show ?thesis by simp
qed

text \<open>
  Locking with a timeout ends: once the polls cover the time limit the call returns, whatever
  \<open>flock\<close> answers, with a lock exactly when one of the calls granted it; a lock that is not
  available is reported as \<open>false\<close> after the limit.
\<close>

theorem file_lock_timed:
  assumes "\<not> locked l" and "0 < msecs" and "msecs \<le> sleep_interval * int (length results)"
    and "\<forall>e. Flock_error e \<notin> set results"
  shows "\<exists>b. file_lock_lock results msecs l = Some (Inr b, l\<lparr>locked := b\<rparr>) \<and>
             (b \<longrightarrow> Flock_ok \<in> set results) \<and> (Flock_ok \<notin> set results \<longrightarrow> \<not> b)"
proof -
  have "\<exists>b. flock_loop results msecs = Some (Inr b) \<and> (b \<longrightarrow> Flock_ok \<in> set results)"
    using assms(2-4)
  proof (induction results arbitrary: msecs)
    case (Cons r rs)
    then show ?case
      by (cases r) (auto simp: Let_def sleep_interval_def algebra_simps)
  qed simp
  with assms(1) show ?thesis by (auto simp: file_lock_lock_def)
qed

theorem file_lock_timed_witness:
  "\<exists>b. file_lock_lock [Would_block, Would_block, Flock_ok] 150 \<lparr>lock_path = ''/l'', locked = False\<rparr> =
         Some (Inr b, \<lparr>lock_path = ''/l'', locked = b\<rparr>)"
  using file_lock_timed [of "\<lparr>lock_path = ''/l'', locked = False\<rparr>" 150 "[Would_block, Would_block, Flock_ok]"]
  by (auto simp: sleep_interval_def)

end
