(* ===== verification/Image_Model.thy ===== *)
theory Image_Model
  imports System_Utils
begin

text \<open>
  Class \<open>Image\<close> (\<open>include/internal/image.h\<close>, \<open>src/image.cpp\<close>): loading, orienting, scaling and
  encoding images. The image library (\<open>gdk-pixbuf\<close>), the EXIF library and \<open>QSize::scale\<close> are not
  part of the repository. They are the parameters \<open>G\<close>, \<open>X\<close> and \<open>qscale\<close>; what the code
  relies on is stated by the predicates \<open>keeps_aspect\<close> and \<open>gdk_contract\<close>. \<open>QSize\<close> is Qt's pair of
  two \<open>int\<close>s, valid when both are at least zero.
\<close>

section \<open>Sizes\<close>

record qsize =
  width :: int
  height :: int

definition QSize :: "int \<Rightarrow> int \<Rightarrow> qsize" where
  "QSize w h = \<lparr>width = w, height = h\<rparr>"

definition QSize_default :: qsize where
  "QSize_default = QSize (- 1) (- 1)"

definition isValid :: "qsize \<Rightarrow> bool" where
  "isValid s \<longleftrightarrow> width s \<ge> 0 \<and> height s \<ge> 0"

definition transpose_size :: "qsize \<Rightarrow> qsize" where
  "transpose_size s = QSize (height s) (width s)"

type_synonym qscale = "qsize \<Rightarrow> qsize \<Rightarrow> qsize"

text \<open>
  What \<open>QSize::scale(size, Qt::KeepAspectRatio)\<close> promises: the result lies inside \<open>size\<close>, and
  because the aspect ratio is kept, a size that does not fit inside \<open>size\<close> shrinks in both directions.
\<close>

definition keeps_aspect :: "qscale \<Rightarrow> bool" where
  "keeps_aspect qscale \<longleftrightarrow>
     (\<forall>s t. 1 \<le> width s \<and> 1 \<le> height s \<and> isValid t \<longrightarrow>
        0 \<le> width (qscale s t) \<and> width (qscale s t) \<le> width t \<and>
        0 \<le> height (qscale s t) \<and> height (qscale s t) \<le> height t \<and>
        (width t < width s \<or> height t < height s \<longrightarrow>
           width (qscale s t) \<le> width s \<and> height (qscale s t) \<le> height s))"

lemma keeps_aspectD:
  assumes "keeps_aspect qscale" and "1 \<le> width s" and "1 \<le> height s" and "isValid t"
  shows "0 \<le> width (qscale s t)" and "width (qscale s t) \<le> width t"
    and "0 \<le> height (qscale s t)" and "height (qscale s t) \<le> height t"
    and "width t < width s \<or> height t < height s \<Longrightarrow> width (qscale s t) \<le> width s"
    and "width t < width s \<or> height t < height s \<Longrightarrow> height (qscale s t) \<le> height s"
  using assms unfolding keeps_aspect_def by blast+

text \<open>\<open>0\<close> in a requested size leaves that dimension free.\<close>

definition fits :: "int \<Rightarrow> int \<Rightarrow> qsize \<Rightarrow> bool" where
  "fits w h req \<longleftrightarrow> (width req = 0 \<or> w \<le> width req) \<and> (height req = 0 \<or> h \<le> height req)"

lemma qsize_simps [simp]:
  "width (QSize w h) = w" "height (QSize w h) = h"
  by (simp_all add: QSize_def)

lemma qsize_eqI: "width a = width b \<Longrightarrow> height a = height b \<Longrightarrow> (a::qsize) = b"
  by simp

lemma fits_transpose: "fits w h (transpose_size req) \<longleftrightarrow> fits h w req"
  by (auto simp: fits_def transpose_size_def)

lemma isValid_transpose [simp]: "isValid (transpose_size s) \<longleftrightarrow> isValid s"
  by (auto simp: isValid_def transpose_size_def)

section \<open>The image library, as a parameter\<close>

datatype rotation = Rotate_none | Rotate_clockwise | Rotate_upsidedown | Rotate_counterclockwise

text \<open>A \<open>size-prepared\<close> callback: the size it sets on the loader, if it sets one.\<close>

type_synonym size_callback = "int \<Rightarrow> int \<Rightarrow> (int \<times> int) option"

record ('p, 'l) gdk =
  g_width :: "'p \<Rightarrow> int"
  g_height :: "'p \<Rightarrow> int"
  g_has_alpha :: "'p \<Rightarrow> bool"
  g_rgb :: "'p \<Rightarrow> bool"
  g_bits_per_sample :: "'p \<Rightarrow> int"
  g_n_channels :: "'p \<Rightarrow> int"
  g_rowstride :: "'p \<Rightarrow> int"
  g_pixels :: "'p \<Rightarrow> 8 word list"
  g_flip :: "bool \<Rightarrow> 'p \<Rightarrow> 'p option"
  g_rotate :: "rotation \<Rightarrow> 'p \<Rightarrow> 'p option"
  g_scale :: "int \<Rightarrow> int \<Rightarrow> 'p \<Rightarrow> 'p option"
  g_save :: "string \<Rightarrow> (string \<times> string) list \<Rightarrow> 'p \<Rightarrow> string + string"
  l_new :: "size_callback \<Rightarrow> 'l option"
  l_write :: "string \<Rightarrow> 'l \<Rightarrow> string + 'l"
  l_has_animation :: "'l \<Rightarrow> bool"
  l_on_loading_frame :: "'l \<Rightarrow> bool"
  l_close :: "'l \<Rightarrow> string + 'l"
  l_pixbuf :: "'l \<Rightarrow> 'p option"

section \<open>Loading\<close>

text \<open>
  A \<open>Reader\<close> hands out its data in segments: the record has the results of successive \<open>read\<close> calls (a
  segment or an exception) and the result of \<open>rewind\<close>, which starts the list again. \<open>BufferReader\<close>
  returns its whole buffer once; \<open>FdReader\<close> returns what \<open>::read\<close> on the descriptor returns (bytes or an
  error number), up to the first empty result.
\<close>

record reader =
  r_segments :: "string result list"
  r_rewind :: "unit result"

definition BufferReader :: "string \<Rightarrow> reader" where
  "BufferReader data = \<lparr>r_segments = [Inr data], r_rewind = Inr ()\<rparr>"

fun fd_segments :: "(int \<Rightarrow> int \<times> string) \<Rightarrow> reads \<Rightarrow> string result list" where
  "fd_segments se [] = []"
| "fd_segments se (Inl errno # rs) = [Inl (Runtime_error (''FdReader::read() failed: '' @ safe_strerror se errno))]"
| "fd_segments se (Inr d # rs) = (if length d > 0 then Inr d # fd_segments se rs else [])"

definition FdReader :: "(int \<Rightarrow> int \<times> string) \<Rightarrow> reads \<Rightarrow> int option \<Rightarrow> reader" where
  "FdReader se rs lseek =
     \<lparr>r_segments = fd_segments se rs,
      r_rewind = (case lseek of
                    None \<Rightarrow> Inr ()
                  | Some errno \<Rightarrow> Inl (Runtime_error (''FdReader::rewind() failed: '' @ safe_strerror se errno)))\<rparr>"

fun load_loop :: "('p, 'l) gdk \<Rightarrow> string result list \<Rightarrow> 'l \<Rightarrow> bool \<Rightarrow> ('l \<times> bool) result" where
  "load_loop G [] l iter = Inr (l, False)"
| "load_loop G (Inl e # ds) l iter = Inl e"
| "load_loop G (Inr d # ds) l iter =
     (case l_write G d l of
        Inl msg \<Rightarrow> Inl (Runtime_error (''load_image(): cannot write to pixbuf loader: '' @ msg))
      | Inr l' \<Rightarrow>
          (let iter' = (if \<not> iter then l_has_animation G l' else iter)
           in if iter' \<and> \<not> l_on_loading_frame G l' then Inr (l', True)
              else load_loop G ds l' iter'))"

definition load_image :: "('p, 'l) gdk \<Rightarrow> reader \<Rightarrow> size_callback \<Rightarrow> 'p result" where
  "load_image G rd cb =
     (case l_new G cb of
        None \<Rightarrow> Inl (Runtime_error ''load_image(): cannot allocate GdkPixbufLoader'')
      | Some l0 \<Rightarrow>
          rbind (load_loop G (r_segments rd) l0 False) (\<lambda>(l, first_frame_finished).
          rbind (if \<not> first_frame_finished
                 then (case l_close G l of
                         Inl msg \<Rightarrow> Inl (Runtime_error (''load_image(): cannot close pixbuf loader: '' @ msg))
                       | Inr l' \<Rightarrow> Inr l')
                 else Inr l) (\<lambda>l'.
          case l_pixbuf G l' of
            None \<Rightarrow> Inl (Runtime_error ''load_image(): cannot create pixbuf'')
          | Some p \<Rightarrow> Inr p)))"

text \<open>\<open>Fill in missing dimensions\<close>, as both callbacks and \<open>Image::scale\<close> do it.\<close>

definition fill_missing :: "qsize \<Rightarrow> int \<Rightarrow> int \<Rightarrow> qsize" where
  "fill_missing req w h =
     QSize (if width req = 0 then w else width req) (if height req = 0 then h else height req)"

definition maybe_scale_thumbnail :: "qscale \<Rightarrow> qsize \<Rightarrow> size_callback" where
  "maybe_scale_thumbnail qscale req w h =
     (if (width req = 0 \<or> w < width req) \<and> (height req = 0 \<or> h < height req) then Some (0, 0)
      else let image_size = qscale (QSize w h) (fill_missing req w h)
           in if width image_size \<noteq> w \<or> height image_size \<noteq> h
              then Some (width image_size, height image_size)
              else None)"

definition maybe_scale_image :: "qscale \<Rightarrow> qsize \<Rightarrow> size_callback" where
  "maybe_scale_image qscale req w h =
     (if \<not> isValid req then None
      else let r = fill_missing req w h
           in if w \<le> width r \<and> h \<le> height r then None
              else let image_size = qscale (QSize w h) r
                   in Some (width image_size, height image_size))"

record 'p image =
  pixbuf :: "'p option"
  alpha_flag :: bool

definition empty_image :: "'p image" where
  "empty_image = \<lparr>pixbuf = None, alpha_flag = False\<rparr>"

text \<open>
  What the EXIF loader finds in the data: the orientation (when there is an orientation entry of
  format \<open>SHORT\<close>) and the embedded thumbnail, if any.
\<close>

record exif =
  ex_orientation :: "int option"
  ex_thumbnail :: "string option"

definition rotated_90 :: "int \<Rightarrow> bool" where
  "rotated_90 orientation \<longleftrightarrow> orientation \<in> {5, 6, 7, 8}"

definition apply_orientation :: "('p, 'l) gdk \<Rightarrow> int \<Rightarrow> 'p \<Rightarrow> 'p option" where
  "apply_orientation G orientation p =
     (if orientation = 2 then g_flip G True p
      else if orientation = 3 then g_rotate G Rotate_upsidedown p
      else if orientation = 4 then g_flip G False p
      else if orientation = 5 then Option.bind (g_rotate G Rotate_clockwise p) (g_flip G True)
      else if orientation = 6 then g_rotate G Rotate_clockwise p
      else if orientation = 7 then Option.bind (g_rotate G Rotate_counterclockwise p) (g_flip G True)
      else if orientation = 8 then g_rotate G Rotate_counterclockwise p
      else Some p)"

definition exif_orientation :: "exif option \<Rightarrow> int" where
  "exif_orientation ex =
     (case ex of None \<Rightarrow> 1 | Some x \<Rightarrow> (case ex_orientation x of None \<Rightarrow> 1 | Some v \<Rightarrow> v))"

text \<open>
  The EXIF loader: whether one can be created, whether it wants more data after the segments it was
  given, and what it found in them.
\<close>

record exif_loader =
  xl_new :: bool
  xl_more :: "string list \<Rightarrow> bool"
  xl_data :: "string list \<Rightarrow> exif option"

fun exif_loop :: "exif_loader \<Rightarrow> string list \<Rightarrow> string result list \<Rightarrow> string list result" where
  "exif_loop X fed [] = Inr fed"
| "exif_loop X fed (Inl e # ds) = Inl e"
| "exif_loop X fed (Inr d # ds) =
     (if xl_more X (fed @ [d]) then exif_loop X (fed @ [d]) ds else Inr (fed @ [d]))"

definition load_pixbuf :: "('p, 'l) gdk \<Rightarrow> qscale \<Rightarrow> reader \<Rightarrow> exif option \<Rightarrow> qsize \<Rightarrow> 'p result" where
  "load_pixbuf G qscale rd ex req =
     (let unrotated = (if rotated_90 (exif_orientation ex) then transpose_size req else req);
          embedded =
            (case ex of
               None \<Rightarrow> None
             | Some x \<Rightarrow>
                 (case ex_thumbnail x of
                    None \<Rightarrow> None
                  | Some data \<Rightarrow>
                      if isValid req
                      then (case load_image G (BufferReader data) (maybe_scale_thumbnail qscale unrotated) of
                              Inl e \<Rightarrow> None
                            | Inr p \<Rightarrow> Some p)
                      else None))
      in case embedded of
           Some p \<Rightarrow> Inr p
         | None \<Rightarrow> load_image G rd (maybe_scale_image qscale unrotated))"

definition Image_load :: "('p, 'l) gdk \<Rightarrow> qscale \<Rightarrow> exif_loader \<Rightarrow> reader \<Rightarrow> qsize \<Rightarrow> 'p image result" where
  "Image_load G qscale X rd req =
     (if \<not> xl_new X then Inl (Runtime_error ''Image(): could not create ExifLoader'')
      else
        rbind (exif_loop X [] (r_segments rd)) (\<lambda>fed.
        rbind (r_rewind rd) (\<lambda>_.
        let ex = xl_data X fed
        in rbind (load_pixbuf G qscale rd ex req) (\<lambda>p.
           Inr \<lparr>pixbuf = apply_orientation G (exif_orientation ex) p, alpha_flag = g_has_alpha G p\<rparr>))))"

section \<open>Accessors, scaling, encoding\<close>

definition Image_width :: "('p, 'l) gdk \<Rightarrow> 'p image \<Rightarrow> int result" where
  "Image_width G img =
     (case pixbuf img of
        None \<Rightarrow> Inl (Assertion ''pixbuf_'')
      | Some p \<Rightarrow> if g_width G p < 1
                  then Inl (Runtime_error (''Image::width(): invalid image width: '' @ int_to_string (g_width G p)))
                  else Inr (g_width G p))"

definition Image_height :: "('p, 'l) gdk \<Rightarrow> 'p image \<Rightarrow> int result" where
  "Image_height G img =
     (case pixbuf img of
        None \<Rightarrow> Inl (Assertion ''pixbuf_'')
      | Some p \<Rightarrow> if g_height G p < 1
                  then Inl (Runtime_error (''Image::height(): invalid image height: '' @ int_to_string (g_height G p)))
                  else Inr (g_height G p))"

definition Image_scale :: "('p, 'l) gdk \<Rightarrow> qscale \<Rightarrow> qsize \<Rightarrow> 'p image \<Rightarrow> 'p image result" where
  "Image_scale G qscale req img =
     (case pixbuf img of
        None \<Rightarrow> Inl (Assertion ''pixbuf_'')
      | Some p \<Rightarrow>
          if \<not> isValid req then Inr img
          else
            rbind (Image_width G img) (\<lambda>w.
            rbind (Image_height G img) (\<lambda>h.
            let r = fill_missing req w h
            in if w \<le> width r \<and> h \<le> height r then Inr img
               else let s = qscale (QSize w h) r;
                        sw = (if width s = 0 then 1 else width s);
                        sh = (if height s = 0 then 1 else height s)
                    in case g_scale G sw sh p of
                         None \<Rightarrow> Inl (Runtime_error ''Image::scale(): could not create scaled image'')
                       | Some p' \<Rightarrow> Inr (empty_image\<lparr>pixbuf := Some p'\<rparr>))))"

definition Image_has_alpha :: "'p image \<Rightarrow> bool result" where
  "Image_has_alpha img =
     (case pixbuf img of None \<Rightarrow> Inl (Assertion ''pixbuf_'') | Some p \<Rightarrow> Inr (alpha_flag img))"

definition jpeg_data :: "('p, 'l) gdk \<Rightarrow> int \<Rightarrow> 'p image \<Rightarrow> string result" where
  "jpeg_data G quality img =
     (case pixbuf img of
        None \<Rightarrow> Inl (Assertion ''pixbuf_'')
      | Some p \<Rightarrow>
          if quality < 0 \<or> quality > 100
          then Inl (Invalid_argument (''Image::jpeg_data(): quality out of range [0..100]: '' @ int_to_string quality))
          else case g_save G ''jpeg'' [(''quality'', int_to_string quality)] p of
                 Inl msg \<Rightarrow> Inl (Runtime_error (''Image::jpeg_data(): cannot convert to jpeg: '' @ msg))
               | Inr data \<Rightarrow> Inr data)"

definition png_data :: "('p, 'l) gdk \<Rightarrow> 'p image \<Rightarrow> string result" where
  "png_data G img =
     (case pixbuf img of
        None \<Rightarrow> Inl (Assertion ''pixbuf_'')
      | Some p \<Rightarrow>
          (case g_save G ''png'' [(''compression'', ''6'')] p of
             Inl msg \<Rightarrow> Inl (Runtime_error (''Image::png_data(): cannot convert to png: '' @ msg))
           | Inr data \<Rightarrow> Inr data))"

definition jpeg_or_png_data :: "('p, 'l) gdk \<Rightarrow> int \<Rightarrow> 'p image \<Rightarrow> string result" where
  "jpeg_or_png_data G quality img =
     (case pixbuf img of
        None \<Rightarrow> Inl (Assertion ''pixbuf_'')
      | Some p \<Rightarrow> if \<not> alpha_flag img then jpeg_data G quality img else png_data G img)"

text \<open>
  \<open>Image::pixel\<close>: the four bytes of a pixel packed into an \<open>int\<close>. The shifts act on 32-bit values;
  reading past the pixel data is the error \<open>Out_of_range\<close> of the model.
\<close>

definition pack_rgba :: "8 word \<Rightarrow> 8 word \<Rightarrow> 8 word \<Rightarrow> 8 word \<Rightarrow> 32 word" where
  "pack_rgba r g b a =
     or (or (or (push_bit 24 (ucast r)) (push_bit 16 (ucast g))) (push_bit 8 (ucast b))) (ucast a)"

definition Image_pixel :: "('p, 'l) gdk \<Rightarrow> int \<Rightarrow> int \<Rightarrow> 'p image \<Rightarrow> 32 word result" where
  "Image_pixel G x y img =
     (case pixbuf img of
        None \<Rightarrow> Inl (Assertion ''gdk_pixbuf_get_bits_per_sample(pixbuf_.get()) == 8'')
      | Some p \<Rightarrow>
          rbind (assert_r (g_rgb G p) ''gdk_pixbuf_get_colorspace(pixbuf_.get()) == GDK_COLORSPACE_RGB'') (\<lambda>_.
          rbind (assert_r (g_bits_per_sample G p = 8) ''gdk_pixbuf_get_bits_per_sample(pixbuf_.get()) == 8'') (\<lambda>_.
          rbind (if x < 0 then Inr True else rbind (Image_width G img) (\<lambda>w. Inr (x \<ge> w))) (\<lambda>bad_x.
          if bad_x then Inl (Runtime_error (''Image::pixel(): invalid x coordinate: '' @ int_to_string x)) else
          rbind (if y < 0 then Inr True else rbind (Image_height G img) (\<lambda>h. Inr (y \<ge> h))) (\<lambda>bad_y.
          if bad_y then Inl (Runtime_error (''Image::pixel(): invalid y coordinate: '' @ int_to_string y)) else
          (let n = g_n_channels G p;
               off = nat (y * g_rowstride G p + x * n);
               d = g_pixels G p
           in if off + (if n = 4 then 4 else 3) \<le> length d
              then Inr (pack_rgba (d ! off) (d ! (off + 1)) (d ! (off + 2)) (if n = 4 then d ! (off + 3) else 255))
              else Inl (Out_of_range ''pixel data'')))))))"

section \<open>Contracts of the parameters\<close>

text \<open>Mirroring and half turns keep the dimensions, quarter turns swap them, scaling sets them.\<close>

definition gdk_contract :: "('p, 'l) gdk \<Rightarrow> bool" where
  "gdk_contract G \<longleftrightarrow>
     (\<forall>b p p'. g_flip G b p = Some p' \<longrightarrow> g_width G p' = g_width G p \<and> g_height G p' = g_height G p) \<and>
     (\<forall>p p'. g_rotate G Rotate_upsidedown p = Some p' \<longrightarrow>
        g_width G p' = g_width G p \<and> g_height G p' = g_height G p) \<and>
     (\<forall>p p'. g_rotate G Rotate_clockwise p = Some p' \<or> g_rotate G Rotate_counterclockwise p = Some p' \<longrightarrow>
        g_width G p' = g_height G p \<and> g_height G p' = g_width G p) \<and>
     (\<forall>w h p p'. g_scale G w h p = Some p' \<longrightarrow> g_width G p' = w \<and> g_height G p' = h)"

text \<open>
  A loader delivers an image of the size its callback set, or of the natural size when the
  callback set none, and delivers nothing when the callback set \<open>(0, 0)\<close>.
\<close>

definition delivers :: "('p, 'l) gdk \<Rightarrow> size_callback \<Rightarrow> 'p \<Rightarrow> bool" where
  "delivers G cb p \<longleftrightarrow>
     (\<exists>w h. 1 \<le> w \<and> 1 \<le> h \<and> cb w h \<noteq> Some (0, 0) \<and>
        (g_width G p, g_height G p) = (case cb w h of None \<Rightarrow> (w, h) | Some wh \<Rightarrow> wh))"

definition loader_states :: "('p, 'l) gdk \<Rightarrow> size_callback \<Rightarrow> ('l \<Rightarrow> bool) \<Rightarrow> bool" where
  "loader_states G cb ok \<longleftrightarrow>
     (\<forall>l. l_new G cb = Some l \<longrightarrow> ok l) \<and>
     (\<forall>d l l'. ok l \<and> l_write G d l = Inr l' \<longrightarrow> ok l') \<and>
     (\<forall>l l'. ok l \<and> l_close G l = Inr l' \<longrightarrow> ok l') \<and>
     (\<forall>l p. ok l \<and> l_pixbuf G l = Some p \<longrightarrow> delivers G cb p)"

definition honours_size :: "('p, 'l) gdk \<Rightarrow> bool" where
  "honours_size G \<longleftrightarrow> (\<forall>cb. \<exists>ok. loader_states G cb ok)"

lemma loader_statesD:
  assumes "loader_states G cb ok"
  shows "l_new G cb = Some l \<Longrightarrow> ok l"
    and "ok l \<Longrightarrow> l_write G d l = Inr l' \<Longrightarrow> ok l'"
    and "ok l \<Longrightarrow> l_close G l = Inr l' \<Longrightarrow> ok l'"
    and "ok l \<Longrightarrow> l_pixbuf G l = Some p \<Longrightarrow> delivers G cb p"
  using assms unfolding loader_states_def by blast+

lemma load_loop_keeps:
  assumes "\<And>d l l'. ok l \<Longrightarrow> l_write G d l = Inr l' \<Longrightarrow> ok l'"
    and "ok l" and "load_loop G ds l iter = Inr (l', fin)"
  shows "ok l'"
  using assms(2,3)
proof (induction ds arbitrary: l iter)
  case (Cons r ds)
  then obtain d where r: "r = Inr d" by (cases r) auto
  with Cons.prems(2) obtain l1 where w: "l_write G d l = Inr l1"
    by (auto split: sum.splits)
  from assms(1) [OF Cons.prems(1) w] have "ok l1" .
  with Cons w r show ?case
    by (auto simp: Let_def split: if_splits)
qed simp

lemma load_image_size:
  assumes "honours_size G" and "load_image G rd cb = Inr p"
  shows "delivers G cb p"
proof -
  obtain ok where ok: "loader_states G cb ok"
    using assms(1) unfolding honours_size_def by blast
  from assms(2) obtain l0 where l0: "l_new G cb = Some l0"
    by (cases "l_new G cb") (simp_all add: load_image_def)
  with assms(2) obtain l fin where l: "load_loop G (r_segments rd) l0 False = Inr (l, fin)"
    by (cases "load_loop G (r_segments rd) l0 False") (auto simp: load_image_def)
  obtain l' where l': "l' = l \<or> l_close G l = Inr l'" and p: "l_pixbuf G l' = Some p"
  proof (cases fin)
    case True
    with assms(2) l have "l_pixbuf G l = Some p"
      by (cases "l_pixbuf G l") (simp_all add: load_image_def l0)
    then show ?thesis using that by blast
  next
    case False
    with assms(2) l obtain l1 where "l_close G l = Inr l1"
      by (cases "l_close G l") (simp_all add: load_image_def l0)
    moreover from this False assms(2) l have "l_pixbuf G l1 = Some p"
      by (cases "l_pixbuf G l1") (simp_all add: load_image_def l0)
    ultimately show ?thesis using that by blast
  qed
  have "ok l"
    by (rule load_loop_keeps [where ok = ok, OF loader_statesD(2) [OF ok] loader_statesD(1) [OF ok l0] l])
  with l' have "ok l'" using loader_statesD(3) [OF ok] by blast
  then show ?thesis by (rule loader_statesD(4) [OF ok _ p])
qed

lemma maybe_scale_image_fits:
  assumes "keeps_aspect qscale" and "isValid req" and "1 \<le> w" and "1 \<le> h"
    and "(a, b) = (case maybe_scale_image qscale req w h of None \<Rightarrow> (w, h) | Some wh \<Rightarrow> wh)"
  shows "fits a b req"
proof -
  let ?r = "fill_missing req w h"
  have r: "isValid ?r" using assms(2-4) by (auto simp: isValid_def fill_missing_def)
  have "width (qscale (QSize w h) ?r) \<le> width ?r \<and> height (qscale (QSize w h) ?r) \<le> height ?r"
    using keeps_aspectD [OF assms(1) _ _ r, of "QSize w h"] assms(3,4) by simp
  with assms(2,5) show ?thesis
    by (auto simp: maybe_scale_image_def Let_def fits_def fill_missing_def split: if_splits)
qed

lemma maybe_scale_thumbnail_fits:
  assumes "keeps_aspect qscale" and "isValid req" and "1 \<le> w" and "1 \<le> h"
    and "maybe_scale_thumbnail qscale req w h \<noteq> Some (0, 0)"
    and "(a, b) = (case maybe_scale_thumbnail qscale req w h of None \<Rightarrow> (w, h) | Some wh \<Rightarrow> wh)"
  shows "fits a b req"
proof -
  let ?r = "fill_missing req w h"
  have r: "isValid ?r" using assms(2-4) by (auto simp: isValid_def fill_missing_def)
  have "width (qscale (QSize w h) ?r) \<le> width ?r \<and> height (qscale (QSize w h) ?r) \<le> height ?r"
    using keeps_aspectD [OF assms(1) _ _ r, of "QSize w h"] assms(3,4) by simp
  with assms(5,6) show ?thesis
    by (auto simp: maybe_scale_thumbnail_def Let_def fits_def fill_missing_def split: if_splits)
qed

lemma load_image_fits:
  assumes "honours_size G" and "keeps_aspect qscale" and "isValid req"
    and "load_image G rd cb = Inr p"
    and "cb = maybe_scale_image qscale req \<or> cb = maybe_scale_thumbnail qscale req"
  shows "fits (g_width G p) (g_height G p) req"
proof -
  obtain w h where wh: "1 \<le> w" "1 \<le> h" "cb w h \<noteq> Some (0, 0)"
      "(g_width G p, g_height G p) = (case cb w h of None \<Rightarrow> (w, h) | Some wh \<Rightarrow> wh)"
    using load_image_size [OF assms(1,4)] unfolding delivers_def by blast
  from assms(5) show ?thesis
  proof
    assume cb: "cb = maybe_scale_image qscale req"
    show ?thesis by (rule maybe_scale_image_fits [OF assms(2,3) wh(1,2,4) [unfolded cb]])
  next
    assume cb: "cb = maybe_scale_thumbnail qscale req"
    show ?thesis by (rule maybe_scale_thumbnail_fits [OF assms(2,3) wh [unfolded cb]])
  qed
qed

lemma apply_orientation_dims:
  assumes "gdk_contract G" and "apply_orientation G orientation p = Some p'"
  shows "if rotated_90 orientation
         then g_width G p' = g_height G p \<and> g_height G p' = g_width G p
         else g_width G p' = g_width G p \<and> g_height G p' = g_height G p"
  using assms
  by (auto simp: apply_orientation_def gdk_contract_def rotated_90_def bind_eq_Some_conv split: if_splits)

lemma load_pixbuf_cases:
  assumes "load_pixbuf G qscale rd ex req = Inr p"
    and "u = (if rotated_90 (exif_orientation ex) then transpose_size req else req)"
  shows "\<exists>rd' cb. load_image G rd' cb = Inr p \<and> (cb = maybe_scale_image qscale u \<or> cb = maybe_scale_thumbnail qscale u)"
  using assms(1) unfolding load_pixbuf_def Let_def assms(2) [symmetric]
  by (auto split: option.splits if_splits sum.splits)

lemma Image_load_cases:
  assumes "Image_load G qscale X rd req = Inr img"
  obtains ex p where "load_pixbuf G qscale rd ex req = Inr p"
    and "apply_orientation G (exif_orientation ex) p = pixbuf img" and "alpha_flag img = g_has_alpha G p"
  using assms by (auto simp: Image_load_def Let_def rbind_Inr_iff split: if_splits)

section \<open>A concrete image library\<close>

text \<open>
  A small instance of the parameters: a pixel buffer is its dimensions and alpha flag, an encoded
  image starts with two bytes that hold them, and \<open>qt_scale\<close> is the integer form of the
  aspect-ratio rule.
\<close>

definition qt_scale :: qscale where
  "qt_scale s t =
     (let rw = height t * width s div height s
      in if rw \<le> width t then QSize rw (height t)
         else QSize (width t) (width t * height s div width s))"

lemma div_le_of_le_mult: "0 < (b::int) \<Longrightarrow> a \<le> c * b \<Longrightarrow> a div b \<le> c"
  using zdiv_mono1 [of a "c * b" b] by simp

lemma qt_scale_narrow:
  fixes a b s t :: int
  assumes "1 \<le> a" and "1 \<le> b" and "0 \<le> s" and "0 \<le> t" and "\<not> t * a div b \<le> s"
  shows "s * b div a \<le> t" and "t < b \<or> s < a \<Longrightarrow> s < a" and "s < a \<Longrightarrow> s * b div a \<le> b"
proof -
  have *: "(s + 1) * b \<le> t * a"
  proof -
    have "s + 1 \<le> t * a div b" using assms(5) by simp
    then have "(s + 1) * b \<le> (t * a div b) * b" using assms(2) by (intro mult_right_mono) auto
    also have "\<dots> \<le> t * a" using assms(2) div_mult_mod_eq [of "t * a" b] pos_mod_sign [of b "t * a"] by linarith
    finally show ?thesis .
  qed
  then have "s * b \<le> t * a" using assms(2) by (simp add: algebra_simps)
  then show "s * b div a \<le> t" using assms(1) by (intro div_le_of_le_mult) auto
  show "s < a" if "t < b \<or> s < a"
  proof (rule ccontr)
    assume "\<not> s < a"
    with that have "t < b" "a \<le> s" by auto
    then have "t * a \<le> b * s" using assms by (intro mult_mono) auto
    with * assms(2) show False by (simp add: algebra_simps)
  qed
  show "s * b div a \<le> b" if "s < a"
    using that assms(1,2) by (intro div_le_of_le_mult) (auto simp: mult.commute)
qed

lemma keeps_aspect_qt_scale: "keeps_aspect qt_scale"
proof (unfold keeps_aspect_def, intro allI impI)
  fix s t :: qsize
  assume *: "1 \<le> width s \<and> 1 \<le> height s \<and> isValid t"
  let ?rw = "height t * width s div height s"
  show "0 \<le> width (qt_scale s t) \<and> width (qt_scale s t) \<le> width t \<and>
        0 \<le> height (qt_scale s t) \<and> height (qt_scale s t) \<le> height t \<and>
        (width t < width s \<or> height t < height s \<longrightarrow>
           width (qt_scale s t) \<le> width s \<and> height (qt_scale s t) \<le> height s)"
  proof (cases "?rw \<le> width t")
    case True
    have "height t < height s" if "width t < width s"
    proof (rule ccontr)
      assume "\<not> height t < height s"
      then have "height s * width s div height s \<le> ?rw"
        using * by (intro zdiv_mono1 mult_right_mono) auto
      with * True that show False by simp
    qed
    moreover have "?rw \<le> width s" if "height t < height s"
      using that * by (intro div_le_of_le_mult) (auto simp: mult.commute intro: mult_left_mono)
    moreover have "0 \<le> ?rw" using * by (simp add: isValid_def pos_imp_zdiv_nonneg_iff)
    ultimately show ?thesis using True * by (auto simp: qt_scale_def isValid_def)
  next
    case False
    with * qt_scale_narrow [of "width s" "height s" "width t" "height t"] show ?thesis
      by (auto simp: qt_scale_def isValid_def pos_imp_zdiv_nonneg_iff)
  qed
qed

type_synonym raw_pixbuf = "int \<times> int \<times> bool"

definition raw_decode :: "size_callback \<times> string \<Rightarrow> raw_pixbuf option" where
  "raw_decode l =
     (case snd l of
        a # b # rest \<Rightarrow>
          (let w = of_char a; h = of_char b
           in if w < 1 \<or> h < 1 then None
              else case fst l w h of
                     None \<Rightarrow> Some (w, h, rest \<noteq> [])
                   | Some (w', h') \<Rightarrow> if (w', h') = (0, 0) then None else Some (w', h', rest \<noteq> []))
      | _ \<Rightarrow> None)"

definition raw_gdk :: "(raw_pixbuf, size_callback \<times> string) gdk" where
  "raw_gdk =
     \<lparr>g_width = fst, g_height = (\<lambda>p. fst (snd p)), g_has_alpha = (\<lambda>p. snd (snd p)),
      g_rgb = (\<lambda>_. True), g_bits_per_sample = (\<lambda>_. 8), g_n_channels = (\<lambda>_. 3), g_rowstride = (\<lambda>p. 3 * fst p),
      g_pixels = (\<lambda>p. replicate (nat (3 * fst p * fst (snd p))) 7),
      g_flip = (\<lambda>_ p. Some p),
      g_rotate = (\<lambda>r (w, h, a). Some (if r = Rotate_clockwise \<or> r = Rotate_counterclockwise then (h, w, a) else (w, h, a))),
      g_scale = (\<lambda>w h p. Some (w, h, snd (snd p))),
      g_save = (\<lambda>type opts p. Inr type),
      l_new = (\<lambda>cb. Some (cb, [])), l_write = (\<lambda>d (cb, s). Inr (cb, s @ d)),
      l_has_animation = (\<lambda>_. False), l_on_loading_frame = (\<lambda>_. True),
      l_close = Inr, l_pixbuf = raw_decode\<rparr>"

definition raw_exif :: "exif option \<Rightarrow> exif_loader" where
  "raw_exif ex = \<lparr>xl_new = True, xl_more = (\<lambda>_. False), xl_data = (\<lambda>_. ex)\<rparr>"

lemma gdk_contract_raw: "gdk_contract raw_gdk"
  by (auto simp: gdk_contract_def raw_gdk_def)

lemma delivers_raw:
  assumes "raw_decode (cb, s) = Some p"
  shows "delivers raw_gdk cb p"
proof -
  from assms obtain a b rest where s: "s = a # b # rest"
    by (auto simp: raw_decode_def split: list.splits)
  define w :: int where "w = of_char a"
  define h :: int where "h = of_char b"
  note p = assms [unfolded raw_decode_def s, simplified, folded w_def h_def]
  from p have "1 \<le> w" "1 \<le> h" by (auto split: if_splits)
  moreover from p this have "cb w h \<noteq> Some (0, 0) \<and>
      (g_width raw_gdk p, g_height raw_gdk p) = (case cb w h of None \<Rightarrow> (w, h) | Some wh \<Rightarrow> wh)"
    by (auto simp: raw_gdk_def split: option.splits if_splits)
  ultimately show ?thesis unfolding delivers_def by blast
qed

lemma loader_states_raw: "loader_states raw_gdk cb (\<lambda>l. fst l = cb)"
  unfolding loader_states_def
proof (intro conjI)
  show "\<forall>l. l_new raw_gdk cb = Some l \<longrightarrow> fst l = cb" by (simp add: raw_gdk_def)
  show "\<forall>d l l'. fst l = cb \<and> l_write raw_gdk d l = Inr l' \<longrightarrow> fst l' = cb"
    by (auto simp: raw_gdk_def)
  show "\<forall>l l'. fst l = cb \<and> l_close raw_gdk l = Inr l' \<longrightarrow> fst l' = cb"
    by (simp add: raw_gdk_def)
  have "l_pixbuf raw_gdk = raw_decode" by (simp add: raw_gdk_def)
  then show "\<forall>l p. fst l = cb \<and> l_pixbuf raw_gdk l = Some p \<longrightarrow> delivers raw_gdk cb p"
    using delivers_raw by (metis prod.collapse)
qed

lemma honours_size_raw: "honours_size raw_gdk"
  unfolding honours_size_def by (intro allI exI) (rule loader_states_raw)

section \<open>Properties\<close>

lemma loaded_image_fits:
  assumes "gdk_contract G" and "honours_size G" and "keeps_aspect qscale" and "isValid req"
    and "Image_load G qscale X rd req = Inr img" and "pixbuf img = Some p"
  shows "fits (g_width G p) (g_height G p) req"
proof -
  from assms(5) obtain ex p0 where p0: "load_pixbuf G qscale rd ex req = Inr p0"
    and o: "apply_orientation G (exif_orientation ex) p0 = pixbuf img"
    by (rule Image_load_cases)
  let ?u = "if rotated_90 (exif_orientation ex) then transpose_size req else req"
  have "isValid ?u" using assms(4) by simp
  with load_pixbuf_cases [OF p0 refl] have "fits (g_width G p0) (g_height G p0) ?u"
    using load_image_fits [OF assms(2,3)] by blast
  with apply_orientation_dims [OF assms(1), of "exif_orientation ex" p0 p] o assms(6) show ?thesis
    by (auto simp: fits_transpose split: if_splits)
qed

text \<open>
  C29. Whatever the EXIF orientation of the file and whether or not its embedded thumbnail is
  used, a successfully loaded image fits inside the requested size (in its final orientation).
\<close>

theorem image_load_fits:
  assumes "gdk_contract G" and "honours_size G" and "keeps_aspect qscale" and "isValid req"
    and "Image_load G qscale X rd req = Inr img" and "pixbuf img = Some p"
  shows "fits (g_width G p) (g_height G p) req"
  using assms by (rule loaded_image_fits)

theorem image_load_fits_witness:
  "Image_load raw_gdk qt_scale (raw_exif (Some \<lparr>ex_orientation = Some 6, ex_thumbnail = None\<rparr>))
     (BufferReader [CHR ''d'', CHR ''2'']) (QSize 10 0) = Inr \<lparr>pixbuf = Some (10, 20, False), alpha_flag = False\<rparr> \<and>
   fits 10 20 (QSize 10 0)"
proof -
  have load: "Image_load raw_gdk qt_scale (raw_exif (Some \<lparr>ex_orientation = Some 6, ex_thumbnail = None\<rparr>))
     (BufferReader [CHR ''d'', CHR ''2'']) (QSize 10 0) = Inr \<lparr>pixbuf = Some (10, 20, False), alpha_flag = False\<rparr>"
    by (simp add: Image_load_def load_pixbuf_def BufferReader_def raw_exif_def exif_orientation_def rotated_90_def load_image_def raw_gdk_def raw_decode_def
        maybe_scale_image_def isValid_def transpose_size_def fill_missing_def qt_scale_def apply_orientation_def)
  from image_load_fits [OF gdk_contract_raw honours_size_raw keeps_aspect_qt_scale _ load, of "(10, 20, False)"]
  show ?thesis using load by (simp add: isValid_def raw_gdk_def)
qed

lemma scaled_image_bounds:
  assumes "gdk_contract G" and "keeps_aspect qscale" and "isValid req"
    and "pixbuf img = Some p" and "Image_scale G qscale req img = Inr img'"
  shows "\<exists>p'. pixbuf img' = Some p' \<and> 1 \<le> g_width G p' \<and> 1 \<le> g_height G p' \<and>
           g_width G p' \<le> g_width G p \<and> g_height G p' \<le> g_height G p \<and>
           fits (g_width G p') (g_height G p') req"
proof -
  let ?w = "g_width G p" and ?h = "g_height G p"
  let ?r = "fill_missing req ?w ?h"
  let ?s = "qscale (QSize ?w ?h) ?r"
  from assms(3-5) have wh: "1 \<le> ?w" "1 \<le> ?h"
    by (auto simp: Image_scale_def Image_width_def Image_height_def split: if_splits)
  have r: "isValid ?r" using assms(3) wh by (auto simp: isValid_def fill_missing_def)
  note q = keeps_aspectD [OF assms(2) _ _ r, of "QSize ?w ?h", simplified, OF wh]
  show ?thesis
  proof (cases "?w \<le> width ?r \<and> ?h \<le> height ?r")
    case True
    then have "img' = img"
      using assms(3-5) wh by (simp add: Image_scale_def Image_width_def Image_height_def)
    with True wh assms(4) show ?thesis by (auto simp: fits_def fill_missing_def split: if_splits)
  next
    case False
    let ?sw = "if width ?s = 0 then 1 else width ?s" and ?sh = "if height ?s = 0 then 1 else height ?s"
    obtain p' where p': "g_scale G ?sw ?sh p = Some p'" "pixbuf img' = Some p'"
      using assms(3-5) wh False
      by (auto simp: Image_scale_def Image_width_def Image_height_def Let_def split: option.splits if_splits)
    have d: "g_width G p' = ?sw" "g_height G p' = ?sh"
      using assms(1) p'(1) unfolding gdk_contract_def by blast+
    have "?sw \<le> ?w \<and> ?sh \<le> ?h" using q(5,6) wh False by auto
    moreover have "fits ?sw ?sh req"
      using q(2,4) assms(3) by (auto simp: fits_def fill_missing_def isValid_def split: if_splits)
    ultimately show ?thesis using p'(2) d q(1,3) by auto
  qed
qed

text \<open>
  \<open>Image::scale\<close> returns an image whose sides are at least one pixel, that fits inside the
  requested size, and that is never larger than the original in either direction.
\<close>

theorem image_scale_bounds:
  assumes "gdk_contract G" and "keeps_aspect qscale" and "isValid req"
    and "pixbuf img = Some p" and "Image_scale G qscale req img = Inr img'"
  shows "\<exists>p'. pixbuf img' = Some p' \<and> 1 \<le> g_width G p' \<and> 1 \<le> g_height G p' \<and>
           g_width G p' \<le> g_width G p \<and> g_height G p' \<le> g_height G p \<and>
           fits (g_width G p') (g_height G p') req"
  using assms by (rule scaled_image_bounds)

theorem image_scale_bounds_witness:
  "\<exists>p'. pixbuf \<lparr>pixbuf = Some (8::int, 1::int, True), alpha_flag = False\<rparr> = Some p' \<and>
     1 \<le> g_width raw_gdk p' \<and> 1 \<le> g_height raw_gdk p' \<and> fits (g_width raw_gdk p') (g_height raw_gdk p') (QSize 8 8)"
proof -
  have "Image_scale raw_gdk qt_scale (QSize 8 8) \<lparr>pixbuf = Some (100, 2, True), alpha_flag = True\<rparr> =
          Inr \<lparr>pixbuf = Some (8, 1, True), alpha_flag = False\<rparr>"
    by (simp add: Image_scale_def Image_width_def Image_height_def raw_gdk_def isValid_def fill_missing_def
        qt_scale_def empty_image_def)
  from image_scale_bounds [OF gdk_contract_raw keeps_aspect_qt_scale _ _ this, of "(100, 2, True)"]
  show ?thesis by (auto simp: isValid_def)
qed

text \<open>
  Scaling drops the transparency flag: an image that has to be shrunk is afterwards encoded as
  JPEG by \<open>jpeg_or_png_data\<close>, even when the loaded image (and its pixels) had an alpha channel and
  the unscaled image would have been encoded as PNG.
\<close>

theorem scaled_alpha_becomes_jpeg:
  assumes "pixbuf img = Some p" and "isValid req"
    and "\<not> (g_width G p \<le> width (fill_missing req (g_width G p) (g_height G p)) \<and>
            g_height G p \<le> height (fill_missing req (g_width G p) (g_height G p)))"
    and "Image_scale G qscale req img = Inr img'"
  shows "jpeg_or_png_data G quality img' = jpeg_data G quality img' \<and>
         (alpha_flag img \<longrightarrow> jpeg_or_png_data G quality img = png_data G img)"
proof -
  from assms have "pixbuf img' \<noteq> None \<and> \<not> alpha_flag img'"
    by (auto simp: Image_scale_def Image_width_def Image_height_def Let_def empty_image_def
        split: option.splits if_splits)
  then show ?thesis using assms(1) by (auto simp: jpeg_or_png_data_def)
qed

theorem scaled_alpha_becomes_jpeg_witness:
  "jpeg_or_png_data raw_gdk 90 \<lparr>pixbuf = Some (8, 1, True), alpha_flag = False\<rparr> = Inr ''jpeg'' \<and>
   jpeg_or_png_data raw_gdk 90 \<lparr>pixbuf = Some (100, 2, True), alpha_flag = True\<rparr> = Inr ''png''"
proof -
  have "Image_scale raw_gdk qt_scale (QSize 8 8) \<lparr>pixbuf = Some (100, 2, True), alpha_flag = True\<rparr> =
          Inr \<lparr>pixbuf = Some (8, 1, True), alpha_flag = False\<rparr>"
    by (simp add: Image_scale_def Image_width_def Image_height_def raw_gdk_def isValid_def fill_missing_def
        qt_scale_def empty_image_def)
  from scaled_alpha_becomes_jpeg [OF _ _ _ this, of "(100, 2, True)" 90]
  show ?thesis by (simp add: isValid_def raw_gdk_def fill_missing_def jpeg_data_def png_data_def)
qed

end
