(* ===== verification/Settings.thy ===== *)
theory Settings
  imports Thumb_Prelude
begin

text \<open>
  Class \<open>Settings\<close> (\<open>include/internal/settings.h\<close>, \<open>src/settings.cpp\<close>). The GSettings store is a
  parameter: \<open>settings\<close> holds, when the schema is installed, what it knows about each key. The file
  \<open>settings-defaults.h\<close> is generated by the build, so the default values are a parameter too.
\<close>

section \<open>State\<close>

record gsettings =
  gs_has_key :: "string \<Rightarrow> bool"
  gs_int :: "string \<Rightarrow> int"
  gs_string :: "string \<Rightarrow> string option"
  gs_bool :: "string \<Rightarrow> bool"

record defaults =
  DASH_UBUNTU_COM_KEY_DEFAULT :: string
  FULL_SIZE_CACHE_SIZE_DEFAULT :: int
  THUMBNAIL_CACHE_SIZE_DEFAULT :: int
  FAILURE_CACHE_SIZE_DEFAULT :: int
  MAX_THUMBNAIL_SIZE_DEFAULT :: int
  RETRY_NOT_FOUND_HOURS_DEFAULT :: int
  RETRY_ERROR_HOURS_DEFAULT :: int
  MAX_DOWNLOADS_DEFAULT :: int
  MAX_EXTRACTIONS_DEFAULT :: int
  EXTRACTION_TIMEOUT_DEFAULT :: int
  MAX_BACKLOG_DEFAULT :: int
  TRACE_CLIENT_DEFAULT :: bool
  LOG_LEVEL_DEFAULT :: int

record settings =
  schema_name :: string
  gsettings_ptr :: "gsettings option"
  dflt :: defaults

definition Settings :: "(string \<Rightarrow> gsettings option) \<Rightarrow> defaults \<Rightarrow> string \<Rightarrow> settings" where
  "Settings lookup D name = \<lparr>schema_name = name, gsettings_ptr = lookup name, dflt = D\<rparr>"

definition Settings_default :: "(string \<Rightarrow> gsettings option) \<Rightarrow> defaults \<Rightarrow> settings" where
  "Settings_default lookup D = Settings lookup D ''com.canonical.Unity.Thumbnailer''"

section \<open>Typed access\<close>

definition get_string :: "string \<Rightarrow> string \<Rightarrow> settings \<Rightarrow> string" where
  "get_string key default_value S =
     (case gsettings_ptr S of
        None \<Rightarrow> default_value
      | Some g \<Rightarrow> if \<not> gs_has_key g key then default_value
                  else case gs_string g key of Some v \<Rightarrow> v | None \<Rightarrow> default_value)"

definition get_int :: "string \<Rightarrow> int \<Rightarrow> settings \<Rightarrow> int" where
  "get_int key default_value S =
     (case gsettings_ptr S of
        None \<Rightarrow> default_value
      | Some g \<Rightarrow> if \<not> gs_has_key g key then default_value else gs_int g key)"

definition get_bool :: "string \<Rightarrow> bool \<Rightarrow> settings \<Rightarrow> bool" where
  "get_bool key default_value S =
     (case gsettings_ptr S of
        None \<Rightarrow> default_value
      | Some g \<Rightarrow> if \<not> gs_has_key g key then default_value else gs_bool g key)"

definition get_positive_int :: "string \<Rightarrow> int \<Rightarrow> settings \<Rightarrow> int result" where
  "get_positive_int key default_value S =
     (let i = get_int key default_value S
      in if i \<le> 0
         then Inl (Domain_error (''Settings::get_positive_int(): invalid zero or negative value for '' @ key @
                     '': '' @ int_to_string i @ '' in schema '' @ schema_name S))
         else Inr i)"

definition get_positive_or_zero_int :: "string \<Rightarrow> int \<Rightarrow> settings \<Rightarrow> int result" where
  "get_positive_or_zero_int key default_value S =
     (let i = get_int key default_value S
      in if i < 0
         then Inl (Domain_error (''Settings::get_positive_or_zero_int(): invalid negative value for '' @ key @
                     '': '' @ int_to_string i @ '' in schema '' @ schema_name S))
         else Inr i)"

section \<open>The settings\<close>

definition art_api_key :: "settings \<Rightarrow> string" where
  "art_api_key S = get_string ''dash-ubuntu-com-key'' (DASH_UBUNTU_COM_KEY_DEFAULT (dflt S)) S"

definition full_size_cache_size :: "settings \<Rightarrow> int result" where
  "full_size_cache_size S = get_positive_int ''full-size-cache-size'' (FULL_SIZE_CACHE_SIZE_DEFAULT (dflt S)) S"

definition thumbnail_cache_size :: "settings \<Rightarrow> int result" where
  "thumbnail_cache_size S = get_positive_int ''thumbnail-cache-size'' (THUMBNAIL_CACHE_SIZE_DEFAULT (dflt S)) S"

definition failure_cache_size :: "settings \<Rightarrow> int result" where
  "failure_cache_size S = get_positive_int ''failure-cache-size'' (FAILURE_CACHE_SIZE_DEFAULT (dflt S)) S"

definition max_thumbnail_size :: "settings \<Rightarrow> int result" where
  "max_thumbnail_size S = get_positive_int ''max-thumbnail-size'' (MAX_THUMBNAIL_SIZE_DEFAULT (dflt S)) S"

definition retry_not_found_hours :: "settings \<Rightarrow> int result" where
  "retry_not_found_hours S = get_positive_int ''retry-not-found-hours'' (RETRY_NOT_FOUND_HOURS_DEFAULT (dflt S)) S"

definition extraction_timeout :: "settings \<Rightarrow> int result" where
  "extraction_timeout S = get_positive_int ''extraction-timeout'' (EXTRACTION_TIMEOUT_DEFAULT (dflt S)) S"

text \<open>Hours become seconds in 64 bits; \<open>2 * extraction_timeout()\<close> and the returned value are \<open>int\<close>s.\<close>

definition retry_error_max_seconds :: "settings \<Rightarrow> int result" where
  "retry_error_max_seconds S =
     rbind (get_positive_int ''retry-error-hours'' (RETRY_ERROR_HOURS_DEFAULT (dflt S)) S) (\<lambda>retry_error_hours.
     rbind (extraction_timeout S) (\<lambda>t.
     let retry_max = retry_error_hours * 3600;
         retry_min = int32 (2 * t)
     in Inr (int32 (if retry_max < retry_min then retry_min else retry_max))))"

definition max_downloads :: "settings \<Rightarrow> int result" where
  "max_downloads S = get_positive_int ''max-downloads'' (MAX_DOWNLOADS_DEFAULT (dflt S)) S"

definition max_extractions :: "settings \<Rightarrow> int result" where
  "max_extractions S = get_positive_or_zero_int ''max-extractions'' (MAX_EXTRACTIONS_DEFAULT (dflt S)) S"

definition max_backlog :: "settings \<Rightarrow> int result" where
  "max_backlog S = get_positive_int ''max-backlog'' (MAX_BACKLOG_DEFAULT (dflt S)) S"

definition trace_client :: "settings \<Rightarrow> bool" where
  "trace_client S = get_bool ''trace-client'' (TRACE_CLIENT_DEFAULT (dflt S)) S"

text \<open>\<open>env\<close> is what \<open>getenv(LOG_LEVEL)\<close> returns.\<close>

definition log_level :: "string option \<Rightarrow> settings \<Rightarrow> int result" where
  "log_level env S =
     rbind (get_positive_or_zero_int ''log-level'' (LOG_LEVEL_DEFAULT (dflt S)) S) (\<lambda>lvl.
     case env of
       None \<Rightarrow> Inr lvl
     | Some level \<Rightarrow>
         if level = [] then Inr lvl
         else case stoi level of
                Inl e \<Rightarrow> Inr lvl
              | Inr l \<Rightarrow> if l < 0 \<or> l > 2 then Inr lvl else Inr l)"

section \<open>Shared facts\<close>

lemma get_positive_int_Inr: "get_positive_int k d S = Inr i \<longleftrightarrow> 0 < i \<and> i = get_int k d S"
  by (auto simp: get_positive_int_def Let_def)

lemma get_positive_int_Inl_catchable: "get_positive_int k d S = Inl e \<Longrightarrow> catchable e"
  by (auto simp: get_positive_int_def Let_def split: if_splits)

lemmas positive_setting_defs =
  full_size_cache_size_def thumbnail_cache_size_def failure_cache_size_def max_thumbnail_size_def
  retry_not_found_hours_def extraction_timeout_def max_downloads_def max_backlog_def

lemma positive_settings:
  "full_size_cache_size S = Inr i \<Longrightarrow> 0 < i" "thumbnail_cache_size S = Inr i \<Longrightarrow> 0 < i"
  "failure_cache_size S = Inr i \<Longrightarrow> 0 < i" "max_thumbnail_size S = Inr i \<Longrightarrow> 0 < i"
  "retry_not_found_hours S = Inr i \<Longrightarrow> 0 < i" "extraction_timeout S = Inr i \<Longrightarrow> 0 < i"
  "max_downloads S = Inr i \<Longrightarrow> 0 < i" "max_backlog S = Inr i \<Longrightarrow> 0 < i"
  by (simp_all add: positive_setting_defs get_positive_int_Inr)

text \<open>Settings of a system without the schema, for evaluation: only the defaults count.\<close>

definition sample_defaults :: defaults where
  "sample_defaults =
     \<lparr>DASH_UBUNTU_COM_KEY_DEFAULT = [], FULL_SIZE_CACHE_SIZE_DEFAULT = 50, THUMBNAIL_CACHE_SIZE_DEFAULT = 100,
      FAILURE_CACHE_SIZE_DEFAULT = 2, MAX_THUMBNAIL_SIZE_DEFAULT = 1920, RETRY_NOT_FOUND_HOURS_DEFAULT = 168,
      RETRY_ERROR_HOURS_DEFAULT = 2, MAX_DOWNLOADS_DEFAULT = 8, MAX_EXTRACTIONS_DEFAULT = 0,
      EXTRACTION_TIMEOUT_DEFAULT = 10, MAX_BACKLOG_DEFAULT = 10, TRACE_CLIENT_DEFAULT = False,
      LOG_LEVEL_DEFAULT = 1\<rparr>"

definition sample_settings :: settings where
  "sample_settings = Settings_default (\<lambda>_. None) sample_defaults"

lemmas sample_settings_simps =
  sample_settings_def Settings_default_def Settings_def sample_defaults_def get_int_def

section \<open>Properties\<close>

text \<open>
  The log level is decided by the environment variable exactly when it starts with a number in
  the range 0..2; a missing, empty, malformed or out-of-range variable leaves the configured level.
\<close>

theorem log_level_environment:
  assumes "log_level None S = Inr configured"
  shows "log_level env S =
     Inr (case env of
            None \<Rightarrow> configured
          | Some s \<Rightarrow> (case stoi s of Inr l \<Rightarrow> if 0 \<le> l \<and> l \<le> 2 then l else configured | Inl _ \<Rightarrow> configured))"
proof -
  have "stoi [] = Inl (Invalid_argument ''stoi'')" by (simp add: stoi_def)
  with assms show ?thesis
    by (auto simp: log_level_def rbind_Inr_iff split: option.splits sum.splits)
qed

theorem log_level_environment_witness:
  "log_level (Some '' 2nd'') sample_settings = Inr 2 \<and> log_level (Some ''3'') sample_settings = Inr 1"
proof -
  have *: "log_level None sample_settings = Inr 1"
    by (simp add: log_level_def get_positive_or_zero_int_def sample_settings_simps)
  have "stoi '' 2nd'' = Inr 2" "stoi ''3'' = Inr 3"
    by (simp_all add: stoi_def is_space_def is_digit_def digit_value_def in_int_def INT_MIN_def INT_MAX_def)
  then show ?thesis
    using log_level_environment [OF *, of "Some '' 2nd''"] log_level_environment [OF *, of "Some ''3''"] by simp
qed

text \<open>
  As long as the configured numbers do not overflow an \<open>int\<close>, the longest back-off period is
  the configured number of hours, but never shorter than twice the extraction timeout; it is positive.
\<close>

theorem retry_error_max_bounds:
  assumes "get_positive_int ''retry-error-hours'' (RETRY_ERROR_HOURS_DEFAULT (dflt S)) S = Inr hours"
    and "extraction_timeout S = Inr t" and "hours * 3600 \<le> INT_MAX" and "2 * t \<le> INT_MAX"
  shows "retry_error_max_seconds S = Inr (max (hours * 3600) (2 * t)) \<and> 0 < max (hours * 3600) (2 * t)"
proof -
  have "0 < hours" "0 < t" using assms(1,2) by (auto simp: get_positive_int_Inr dest: positive_settings)
  then have "in_int (hours * 3600)" "in_int (2 * t)"
    using assms(3,4) by (auto simp: in_int_def INT_MIN_def)
  then show ?thesis
    using assms(1,2) \<open>0 < hours\<close> by (auto simp: retry_error_max_seconds_def Let_def max_def)
qed

theorem retry_error_max_bounds_witness:
  "retry_error_max_seconds sample_settings = Inr 7200"
proof -
  have "get_positive_int ''retry-error-hours'' (RETRY_ERROR_HOURS_DEFAULT (dflt sample_settings)) sample_settings = Inr 2"
    "extraction_timeout sample_settings = Inr 10"
    by (simp_all add: get_positive_int_def extraction_timeout_def sample_settings_simps)
  from retry_error_max_bounds [OF this] show ?thesis by (simp add: INT_MAX_def max_def)
qed

end
