(* ===== verification/Version_Model.thy ===== *)
theory Version_Model
  imports Thumb_Prelude
begin

text \<open>
  Class \<open>Version\<close> (\<open>include/internal/version.h.in\<close>, \<open>src/version.cpp\<close>): the version numbers that the
  last run of the service left in the cache directory. The current numbers come from the build and
  are the parameter \<open>V\<close>. Files are a map from path names to contents; \<open>writable\<close> says which files can
  be opened for writing. The destructor's effect is \<open>Version_destroy\<close>.
\<close>

record release =
  major :: int
  minor :: int
  micro :: int
  cache_version :: int

record version =
  version_file :: string
  cache_version_file :: string
  update_version :: bool
  update_cache_version :: bool
  prev_major :: int
  prev_minor :: int
  prev_micro :: int
  prev_cache_version :: int

type_synonym files = "string \<rightharpoonup> string"

text \<open>The three numbers of the version file, starting from the assumed version 2.3.0.\<close>

definition read_version :: "string option \<Rightarrow> int \<times> int \<times> int" where
  "read_version content =
     (case content of
        None \<Rightarrow> (2, 3, 0)
      | Some text \<Rightarrow>
          (let (is1, a) = extract_int \<lparr>in_rest = text, in_failed = False\<rparr> 2;
               (is2, b) = extract_int is1 3;
               (is3, c) = extract_int is2 0
           in (a, b, c)))"

definition read_cache_version :: "string option \<Rightarrow> int" where
  "read_cache_version content =
     (case content of
        None \<Rightarrow> 0
      | Some text \<Rightarrow> snd (extract_int \<lparr>in_rest = text, in_failed = False\<rparr> 0))"

definition Version :: "release \<Rightarrow> files \<Rightarrow> string \<Rightarrow> version" where
  "Version V fs cache_dir =
     (let vf = cache_dir @ ''/'' @ ''thumbnailer-version'';
          cvf = cache_dir @ ''/'' @ ''thumbnailer-cache-version'';
          (a, b, c) = read_version (fs vf);
          cv = read_cache_version (fs cvf)
      in \<lparr>version_file = vf, cache_version_file = cvf,
          update_version = (a \<noteq> major V \<or> b \<noteq> minor V \<or> c \<noteq> micro V),
          update_cache_version = (cv \<noteq> cache_version V),
          prev_major = a, prev_minor = b, prev_micro = c, prev_cache_version = cv\<rparr>)"

definition Version_destroy :: "release \<Rightarrow> (string \<Rightarrow> bool) \<Rightarrow> version \<Rightarrow> files \<Rightarrow> files" where
  "Version_destroy V writable v fs =
     (if update_version v \<and> \<not> writable (version_file v) then fs
      else
        let fs1 = (if update_version v
                   then fs(version_file v \<mapsto> int_to_string (major V) @ '' '' @ int_to_string (minor V) @ '' '' @
                                              int_to_string (micro V) @ [CHR 0x0A])
                   else fs)
        in if update_cache_version v \<and> writable (cache_version_file v)
           then fs1(cache_version_file v \<mapsto> int_to_string (cache_version V) @ [CHR 0x0A])
           else fs1)"

section \<open>Shared facts\<close>

definition release_in_int :: "release \<Rightarrow> bool" where
  "release_in_int V \<longleftrightarrow> in_int (major V) \<and> in_int (minor V) \<and> in_int (micro V) \<and> in_int (cache_version V)"

lemma space_chars: "is_space (CHR '' '')" "is_space (CHR 0x0A)"
  by (simp_all add: is_space_def)

lemma read_version_printed:
  assumes "in_int a" "in_int b" "in_int c"
  shows "read_version (Some (int_to_string a @ '' '' @ int_to_string b @ '' '' @ int_to_string c @ [CHR 0x0A])) = (a, b, c)"
  using assms by (simp add: read_version_def extract_int_printed space_chars extract_int_skip_space)

lemma read_cache_version_printed:
  assumes "in_int a"
  shows "read_cache_version (Some (int_to_string a @ [CHR 0x0A])) = a"
  using assms by (simp add: read_cache_version_def extract_int_printed space_chars)

text \<open>A cache directory without version files counts as release 2.3.0 with cache version 0.\<close>

lemma version_files_differ: "d @ ''/'' @ ''thumbnailer-version'' \<noteq> d @ ''/'' @ ''thumbnailer-cache-version''"
  by simp

lemma Version_files [simp]:
  "version_file (Version V fs d) = d @ ''/'' @ ''thumbnailer-version''"
  "cache_version_file (Version V fs d) = d @ ''/'' @ ''thumbnailer-cache-version''"
  by (simp_all add: Version_def Let_def split: prod.splits)

lemma Version_numbers:
  "(prev_major (Version V fs d), prev_minor (Version V fs d), prev_micro (Version V fs d)) =
     read_version (fs (d @ ''/'' @ ''thumbnailer-version''))"
  "prev_cache_version (Version V fs d) = read_cache_version (fs (d @ ''/'' @ ''thumbnailer-cache-version''))"
  "update_version (Version V fs d) \<longleftrightarrow>
     read_version (fs (d @ ''/'' @ ''thumbnailer-version'')) \<noteq> (major V, minor V, micro V)"
  "update_cache_version (Version V fs d) \<longleftrightarrow>
     read_cache_version (fs (d @ ''/'' @ ''thumbnailer-cache-version'')) \<noteq> cache_version V"
  by (auto simp: Version_def Let_def split: prod.splits)

lemma Version_after_destroy:
  assumes "release_in_int V"
    and "writable (dir @ ''/'' @ ''thumbnailer-version'')" and "writable (dir @ ''/'' @ ''thumbnailer-cache-version'')"
    and "fs' = Version_destroy V writable (Version V fs dir) fs"
  shows "(prev_major (Version V fs' dir), prev_minor (Version V fs' dir), prev_micro (Version V fs' dir)) =
           (major V, minor V, micro V)"
    and "prev_cache_version (Version V fs' dir) = cache_version V"
    and "\<not> update_version (Version V fs' dir)" and "\<not> update_cache_version (Version V fs' dir)"
proof -
  have "read_version (fs' (dir @ ''/'' @ ''thumbnailer-version'')) = (major V, minor V, micro V)"
    using assms read_version_printed [of "major V" "minor V" "micro V"]
    by (cases "update_version (Version V fs dir)")
      (auto simp: release_in_int_def Version_destroy_def Version_numbers Let_def)
  moreover have "read_cache_version (fs' (dir @ ''/'' @ ''thumbnailer-cache-version'')) = cache_version V"
    using assms read_cache_version_printed [of "cache_version V"]
    by (cases "update_cache_version (Version V fs dir)")
      (auto simp: release_in_int_def Version_destroy_def Version_numbers Let_def)
  ultimately show "(prev_major (Version V fs' dir), prev_minor (Version V fs' dir), prev_micro (Version V fs' dir)) =
           (major V, minor V, micro V)"
    and "prev_cache_version (Version V fs' dir) = cache_version V"
    and "\<not> update_version (Version V fs' dir)" and "\<not> update_cache_version (Version V fs' dir)"
    by (simp_all add: Version_numbers)
qed

section \<open>Properties\<close>

text \<open>
  An upgrade is acted upon once: after the object that saw the old numbers is destroyed (and both
  files could be written), the next start reads exactly the current version and cache version, and
  has nothing to update.
\<close>

theorem version_round_trip:
  assumes "release_in_int V"
    and "writable (dir @ ''/'' @ ''thumbnailer-version'')" and "writable (dir @ ''/'' @ ''thumbnailer-cache-version'')"
    and "fs' = Version_destroy V writable (Version V fs dir) fs"
  shows "(prev_major (Version V fs' dir), prev_minor (Version V fs' dir), prev_micro (Version V fs' dir),
          prev_cache_version (Version V fs' dir)) = (major V, minor V, micro V, cache_version V) \<and>
         \<not> update_version (Version V fs' dir) \<and> \<not> update_cache_version (Version V fs' dir)"
  using Version_after_destroy [OF assms] by simp

theorem version_round_trip_witness:
  "\<not> update_cache_version
       (Version \<lparr>major = 2, minor = 4, micro = 0, cache_version = 3\<rparr>
          (Version_destroy \<lparr>major = 2, minor = 4, micro = 0, cache_version = 3\<rparr> (\<lambda>_. True)
             (Version \<lparr>major = 2, minor = 4, micro = 0, cache_version = 3\<rparr> (\<lambda>_. Some ''junk'') ''/c'')
             (\<lambda>_. Some ''junk'')) ''/c'')"
  using version_round_trip [of "\<lparr>major = 2, minor = 4, micro = 0, cache_version = 3\<rparr>" "\<lambda>_. True" "''/c''"
      _ "\<lambda>_. Some ''junk''"]
  by (simp add: release_in_int_def in_int_def INT_MIN_def INT_MAX_def)

end
