(* ===== verification/Local_Album_Art.thy ===== *)
theory Local_Album_Art
  imports Thumb_Prelude
begin

text \<open>
  Artwork embedded in local audio files (\<open>src/local_album_art.cpp\<close>). TagLib and Qt's base-64 decoder
  are not part of the repository and are the parameter \<open>T\<close>: what a file contains, how a base-64 text is
  decoded, how a FLAC picture block is parsed, and whether the build is against TagLib 1.9.
\<close>

section \<open>Containers and pictures\<close>

datatype picture_type = FrontCover | Other | Some_other_type nat

record picture =
  pic_type :: picture_type
  pic_data :: string

text \<open>The part of a Xiph comment the code reads: its field lists and its picture list.\<close>

record xiph_comment =
  field_list_map :: "string \<rightharpoonup> string list"
  picture_list :: "picture list"

text \<open>
  The file classes that \<open>make_extractor\<close> distinguishes: the \<open>APIC\<close> frames of an MPEG file with an
  ID3v2 tag, the Xiph comment of an Ogg file, the pictures of a FLAC file, the cover list of the
  \<open>covr\<close> item of an MP4 file with a tag, and any other container.
\<close>

datatype tag_file =
    MPEG_File "picture list option"
  | Ogg_File "xiph_comment option"
  | FLAC_File "picture list"
  | MP4_File "string list option option"
  | Unknown_File

record taglib =
  t_fileref :: "string \<Rightarrow> tag_file option"
  t_from_base64 :: "string \<Rightarrow> string"
  t_picture :: "string \<Rightarrow> picture"
  t_taglib_1_9 :: bool

section \<open>The extractors\<close>

text \<open>\<open>MpegExtractor::get_album_art\<close>: \<open>byte_vector\<close> and \<open>art\<close> are the two variables of the loop.\<close>

fun mpeg_loop :: "picture list \<Rightarrow> string \<Rightarrow> string \<Rightarrow> string" where
  "mpeg_loop [] byte_vector art = art"
| "mpeg_loop (frame # frames) byte_vector art =
     (case pic_type frame of
        FrontCover \<Rightarrow> pic_data frame
      | Other \<Rightarrow> if length byte_vector = 0 then mpeg_loop frames (pic_data frame) (pic_data frame)
                 else mpeg_loop frames byte_vector art
      | Some_other_type _ \<Rightarrow> mpeg_loop frames byte_vector art)"

definition mpeg_get_album_art :: "picture list option \<Rightarrow> string" where
  "mpeg_get_album_art tag = (case tag of None \<Rightarrow> [] | Some picture_frames \<Rightarrow> mpeg_loop picture_frames [] [])"

definition decode_b64 :: "taglib \<Rightarrow> string \<Rightarrow> string" where
  "decode_b64 T base_64 = t_from_base64 T base_64"

definition to_picture :: "taglib \<Rightarrow> string \<Rightarrow> picture" where
  "to_picture T base_64 = t_picture T (decode_b64 T base_64)"

definition extract_flac_art :: "picture \<Rightarrow> string \<Rightarrow> bool \<times> string" where
  "extract_flac_art pic art =
     (case pic_type pic of
        FrontCover \<Rightarrow> (True, pic_data pic)
      | Other \<Rightarrow> (False, if art = [] then pic_data pic else art)
      | Some_other_type _ \<Rightarrow> (False, art))"

text \<open>The loop \<open>for (pic : list) if (extract_flac_art(pic, art)) break;\<close> of the Ogg and FLAC extractors.\<close>

fun flac_loop :: "picture list \<Rightarrow> string \<Rightarrow> string" where
  "flac_loop [] art = art"
| "flac_loop (pic # pics) art =
     (case extract_flac_art pic art of (found, art') \<Rightarrow> if found then art' else flac_loop pics art')"

definition ogg_get_album_art :: "taglib \<Rightarrow> xiph_comment option \<Rightarrow> string" where
  "ogg_get_album_art T xc =
     (case xc of
        None \<Rightarrow> []
      | Some c \<Rightarrow>
          if t_taglib_1_9 T
          then let art = (case field_list_map c ''METADATA_BLOCK_PICTURE'' of
                            None \<Rightarrow> []
                          | Some l \<Rightarrow> flac_loop (map (to_picture T) l) [])
               in if art = []
                  then case field_list_map c ''COVERART'' of
                         None \<Rightarrow> art
                       | Some l \<Rightarrow> if length l > 0 then decode_b64 T (hd l) else art
                  else art
          else flac_loop (picture_list c) [])"

definition flac_get_album_art :: "picture list \<Rightarrow> string" where
  "flac_get_album_art pics = flac_loop pics []"

definition mp4_get_album_art :: "string list option option \<Rightarrow> string" where
  "mp4_get_album_art tag =
     (case tag of
        None \<Rightarrow> []
      | Some covr \<Rightarrow> (case covr of None \<Rightarrow> [] | Some art_list \<Rightarrow> (case art_list of [] \<Rightarrow> [] | img # _ \<Rightarrow> img)))"

definition make_extractor :: "taglib \<Rightarrow> string \<Rightarrow> tag_file \<Rightarrow> string result" where
  "make_extractor T filename f =
     (case f of
        MPEG_File tag \<Rightarrow> Inr (mpeg_get_album_art tag)
      | Ogg_File xc \<Rightarrow> Inr (ogg_get_album_art T xc)
      | FLAC_File pics \<Rightarrow> Inr (flac_get_album_art pics)
      | MP4_File tag \<Rightarrow> Inr (mp4_get_album_art tag)
      | Unknown_File \<Rightarrow> Inl (Runtime_error (filename @ '': unknown container format'')))"

definition extract_local_album_art :: "taglib \<Rightarrow> string \<Rightarrow> string result" where
  "extract_local_album_art T filename =
     (case t_fileref T filename of
        None \<Rightarrow> Inl (Runtime_error (filename @ '': cannot create TagLib::FileRef''))
      | Some f \<Rightarrow> make_extractor T filename f)"

section \<open>The contract of a cover scan\<close>

text \<open>
  The picture loops share one contract: a front cover ends the scan and wins, the first non-empty
  picture of type \<open>Other\<close> is the fallback, every other type is skipped.
\<close>

definition best_cover :: "picture list \<Rightarrow> string" where
  "best_cover pics =
     (case filter (\<lambda>p. pic_type p = FrontCover) pics of
        p # _ \<Rightarrow> pic_data p
      | [] \<Rightarrow> (case filter (\<lambda>p. pic_type p = Other \<and> pic_data p \<noteq> []) pics of
                p # _ \<Rightarrow> pic_data p
              | [] \<Rightarrow> []))"

locale cover_scan =
  fixes scan :: "picture list \<Rightarrow> string \<Rightarrow> string"
  assumes scan_end: "scan [] art = art"
    and scan_front: "pic_type p = FrontCover \<Longrightarrow> scan (p # ps) art = pic_data p"
    and scan_first_other: "pic_type p = Other \<Longrightarrow> scan (p # ps) [] = scan ps (pic_data p)"
    and scan_later_other: "pic_type p = Other \<Longrightarrow> art \<noteq> [] \<Longrightarrow> scan (p # ps) art = scan ps art"
    and scan_skip: "pic_type p = Some_other_type n \<Longrightarrow> scan (p # ps) art = scan ps art"
begin

lemma scan_with_fallback:
  assumes "art \<noteq> []"
  shows "scan ps art = (case filter (\<lambda>p. pic_type p = FrontCover) ps of p # _ \<Rightarrow> pic_data p | [] \<Rightarrow> art)"
proof (induction ps)
  case (Cons p ps)
  then show ?case
    using assms by (cases "pic_type p") (simp_all add: scan_front scan_later_other scan_skip)
qed (simp add: scan_end)

lemma scan_best: "scan ps [] = best_cover ps"
proof (induction ps)
  case Nil
  then show ?case by (simp add: scan_end best_cover_def)
next
  case (Cons p ps)
  show ?case
  proof (cases "pic_type p")
    case FrontCover
    then show ?thesis by (simp add: scan_front best_cover_def)
  next
    case Other
    show ?thesis
    proof (cases "pic_data p = []")
      case True
      then have "scan (p # ps) [] = scan ps []"
        using scan_first_other [OF Other, of ps] by simp
      with True Other Cons show ?thesis by (simp add: best_cover_def cong: list.case_cong)
    next
      case False
      with Other show ?thesis
        by (simp add: scan_first_other scan_with_fallback best_cover_def cong: list.case_cong)
    qed
  next
    case (Some_other_type n)
    with Cons show ?thesis by (simp add: scan_skip best_cover_def cong: list.case_cong)
  qed
qed

end

interpretation flac_scan: cover_scan flac_loop
  by unfold_locales (simp_all add: extract_flac_art_def)

interpretation mpeg_scan: cover_scan "\<lambda>ps art. mpeg_loop ps art art"
  by unfold_locales simp_all

section \<open>Properties\<close>

text \<open>The pictures that each container offers to the scan.\<close>

fun offered :: "taglib \<Rightarrow> tag_file \<Rightarrow> picture list" where
  "offered T (MPEG_File tag) = (case tag of None \<Rightarrow> [] | Some l \<Rightarrow> l)"
| "offered T (Ogg_File xc) =
     (case xc of
        None \<Rightarrow> []
      | Some c \<Rightarrow> if t_taglib_1_9 T
                  then (case field_list_map c ''METADATA_BLOCK_PICTURE'' of None \<Rightarrow> [] | Some l \<Rightarrow> map (to_picture T) l)
                  else picture_list c)"
| "offered T (FLAC_File pics) = pics"
| "offered T (MP4_File tag) = []"
| "offered T Unknown_File = []"

text \<open>
  MPEG, Ogg and FLAC files agree on which picture is used: the first front cover, otherwise the
  first non-empty picture of type \<open>Other\<close>. Only an Ogg file without such a picture falls back to the
  deprecated \<open>COVERART\<close> field (when built against TagLib 1.9).
\<close>

theorem album_art_selection:
  assumes "t_fileref T filename = Some f" and "f \<noteq> Unknown_File" and "\<nexists>tag. f = MP4_File tag"
    and "best_cover (offered T f) \<noteq> [] \<or> (\<nexists>c. f = Ogg_File (Some c) \<and> t_taglib_1_9 T \<and> field_list_map c ''COVERART'' \<noteq> None)"
  shows "extract_local_album_art T filename = Inr (best_cover (offered T f))"
proof -
  have nil: "best_cover [] = []" by (simp add: best_cover_def)
  show ?thesis
  proof (cases f)
    case (Ogg_File xc)
    show ?thesis
    proof (cases xc)
      case None
      with assms(1) Ogg_File nil show ?thesis
        by (simp add: extract_local_album_art_def make_extractor_def ogg_get_album_art_def)
    next
      case (Some c)
      with assms(1,4) Ogg_File nil show ?thesis
        by (cases "field_list_map c ''METADATA_BLOCK_PICTURE''"; cases "field_list_map c ''COVERART''")
          (auto simp: extract_local_album_art_def make_extractor_def ogg_get_album_art_def flac_scan.scan_best Let_def)
    qed
  qed (use assms nil in \<open>auto simp: extract_local_album_art_def make_extractor_def mpeg_get_album_art_def
        flac_get_album_art_def flac_scan.scan_best mpeg_scan.scan_best split: option.splits\<close>)
qed

theorem album_art_selection_witness:
  "extract_local_album_art
     \<lparr>t_fileref = (\<lambda>_. Some (MPEG_File (Some [\<lparr>pic_type = Other, pic_data = ''o''\<rparr>, \<lparr>pic_type = FrontCover, pic_data = ''f''\<rparr>]))),
      t_from_base64 = id, t_picture = (\<lambda>s. \<lparr>pic_type = Other, pic_data = s\<rparr>), t_taglib_1_9 = False\<rparr> ''a.mp3'' = Inr ''f''"
  using album_art_selection [of
     "\<lparr>t_fileref = (\<lambda>_. Some (MPEG_File (Some [\<lparr>pic_type = Other, pic_data = ''o''\<rparr>, \<lparr>pic_type = FrontCover, pic_data = ''f''\<rparr>]))),
       t_from_base64 = id, t_picture = (\<lambda>s. \<lparr>pic_type = Other, pic_data = s\<rparr>), t_taglib_1_9 = False\<rparr>" "''a.mp3''"]
  by (simp add: best_cover_def)

end
