(* ===== verification/Art_Download.thy ===== *)
theory Art_Download
  imports Settings
begin

text \<open>
  Downloading remote artwork: \<open>ArtReply\<close>, \<open>ArtDownloader\<close>, \<open>UbuntuServerArtReply\<close> and
  \<open>UbuntuServerDownloader\<close> (\<open>include/internal/artreply.h\<close>, \<open>src/artdownloader.cpp\<close>,
  \<open>src/ubuntuserverdownloader.cpp\<close>). Qt's network classes are outside the repository: what the code
  reads of a \<open>QNetworkReply\<close> is the record \<open>net_reply\<close>, supplied with each event, and \<open>QUrl\<close>'s
  functions are the parameter \<open>Q\<close>.
\<close>

section \<open>Data\<close>

datatype art_status =
  Art_not_finished | Art_success | Art_not_found | Art_temporary_error | Art_hard_error | Art_network_down | Art_timeout

datatype net_error = NoError | ContentNotFoundError | ContentGoneError | OperationCanceledError | Network_error int

text \<open>\<open>nr_http_status\<close> is the HTTP status attribute when it is an \<open>int\<close>.\<close>

record net_reply =
  nr_error :: net_error
  nr_error_string :: string
  nr_http_status :: "int option"
  nr_body :: string

text \<open>\<open>has_reply\<close> is \<open>reply_ != nullptr\<close>; \<open>signals\<close> counts the emissions of \<open>finished\<close>.\<close>

record art_reply =
  url_string :: string
  art_error_string :: string
  art_data :: string
  art_status_of :: art_status
  has_reply :: bool
  reply_aborted :: bool
  art_timer :: bool
  art_signals :: nat

record url =
  url_address :: string
  url_query :: "(string \<times> string) list"

record qurl =
  q_to_string :: "url \<Rightarrow> string"
  q_is_valid :: "url \<Rightarrow> bool"
  q_host :: "url \<Rightarrow> string"

section \<open>URLs\<close>

definition network_is_connected :: "string \<Rightarrow> bool" where
  "network_is_connected domain_name = False"

definition make_art_url :: "string \<Rightarrow> string \<Rightarrow> string \<Rightarrow> string \<Rightarrow> string \<Rightarrow> url" where
  "make_art_url server_url base_url artist album api_key =
     \<lparr>url_address = server_url @ ''/'' @ base_url,
      url_query = [(''artist'', artist), (''album'', album), (''key'', api_key)]\<rparr>"

definition server_url :: "string option \<Rightarrow> string" where
  "server_url override_url =
     (case override_url of
        Some u \<Rightarrow> if u \<noteq> [] then u else ''https://dash.ubuntu.com''
      | None \<Rightarrow> ''https://dash.ubuntu.com'')"

definition api_key :: "settings \<Rightarrow> string" where
  "api_key S = art_api_key S"

section \<open>Replies\<close>

definition ArtReply_down :: "string \<Rightarrow> art_reply result" where
  "ArtReply_down url =
     rbind (assert_r (url \<noteq> []) ''!url.isEmpty()'') (\<lambda>_.
     Inr \<lparr>url_string = url, art_error_string = ''network down'', art_data = [], art_status_of = Art_network_down,
          has_reply = False, reply_aborted = False, art_timer = False, art_signals = 0\<rparr>)"

definition ArtReply_net :: "string \<Rightarrow> art_reply result" where
  "ArtReply_net url =
     rbind (assert_r (url \<noteq> []) ''!url.isEmpty()'') (\<lambda>_.
     Inr \<lparr>url_string = url, art_error_string = [], art_data = [], art_status_of = Art_not_finished,
          has_reply = True, reply_aborted = False, art_timer = True, art_signals = 0\<rparr>)"

definition error_string :: "art_reply \<Rightarrow> string result" where
  "error_string a =
     rbind (assert_r (art_status_of a \<noteq> Art_not_finished) ''status_ != not_finished'') (\<lambda>_. Inr (art_error_string a))"

definition reply_data :: "art_reply \<Rightarrow> string result" where
  "reply_data a =
     rbind (assert_r (art_status_of a \<noteq> Art_not_finished) ''status_ != not_finished'') (\<lambda>_. Inr (art_data a))"

definition set_status :: "net_reply \<Rightarrow> art_reply \<Rightarrow> art_reply" where
  "set_status r a0 =
     (let a = a0\<lparr>art_status_of := Art_temporary_error, art_error_string := nr_error_string r\<rparr>
      in case nr_error r of
           NoError \<Rightarrow> a\<lparr>art_status_of := Art_success\<rparr>
         | ContentNotFoundError \<Rightarrow> a\<lparr>art_status_of := Art_not_found\<rparr>
         | ContentGoneError \<Rightarrow> a\<lparr>art_status_of := Art_not_found\<rparr>
         | OperationCanceledError \<Rightarrow> a\<lparr>art_status_of := Art_timeout, art_error_string := ''Request timed out''\<rparr>
         | Network_error _ \<Rightarrow>
             (case nr_http_status r of
                None \<Rightarrow> a
              | Some http_code \<Rightarrow> if http_code = 400 \<or> http_code = 403 then a\<lparr>art_status_of := Art_hard_error\<rparr> else a))"

definition download_finished :: "net_reply \<Rightarrow> art_reply \<Rightarrow> art_reply" where
  "download_finished r a =
     (if \<not> has_reply a then a\<lparr>art_signals := art_signals a + 1\<rparr>
      else let a1 = set_status r (a\<lparr>art_timer := False\<rparr>);
               a2 = (if art_status_of a1 = Art_success then a1\<lparr>art_data := nr_body r\<rparr> else a1)
           in a2\<lparr>art_signals := art_signals a2 + 1\<rparr>)"

definition reply_timeout :: "art_reply \<Rightarrow> art_reply" where
  "reply_timeout a = a\<lparr>art_status_of := Art_timeout, reply_aborted := True, art_timer := False\<rparr>"

section \<open>The downloader\<close>

text \<open>
  The downloader's state is its API key. \<open>queued\<close> in the result says whether \<open>download_finished\<close> was
  queued on the event loop at once (the reply for a network that is down).
\<close>

definition UbuntuServerDownloader :: "settings \<Rightarrow> string" where
  "UbuntuServerDownloader S = api_key S"

definition assert_valid_url :: "qurl \<Rightarrow> url \<Rightarrow> unit result" where
  "assert_valid_url Q u =
     (if \<not> q_is_valid Q u
      then Inl (Logic_error ''ArtDownloader::assert_valid_url(): The url provided is not valid'')
      else Inr ())"

definition download_url :: "qurl \<Rightarrow> url \<Rightarrow> (art_reply \<times> bool) result" where
  "download_url Q u =
     rbind (assert_valid_url Q u) (\<lambda>_.
     if network_is_connected (q_host Q u)
     then rbind (ArtReply_net (q_to_string Q u)) (\<lambda>a. Inr (a, False))
     else rbind (ArtReply_down (q_to_string Q u)) (\<lambda>a. Inr (a, True)))"

definition download_album :: "qurl \<Rightarrow> string option \<Rightarrow> string \<Rightarrow> string \<Rightarrow> string \<Rightarrow> (art_reply \<times> bool) result" where
  "download_album Q override_url key artist album =
     download_url Q (make_art_url (server_url override_url) ''musicproxy/v1/album-art'' artist album key)"

definition download_artist :: "qurl \<Rightarrow> string option \<Rightarrow> string \<Rightarrow> string \<Rightarrow> string \<Rightarrow> (art_reply \<times> bool) result" where
  "download_artist Q override_url key artist album =
     download_url Q (make_art_url (server_url override_url) ''musicproxy/v1/artist-art'' artist album key)"

text \<open>What the code relies on: a valid URL prints as a non-empty text.\<close>

definition qurl_contract :: "qurl \<Rightarrow> bool" where
  "qurl_contract Q \<longleftrightarrow> (\<forall>u. q_is_valid Q u \<longrightarrow> q_to_string Q u \<noteq> [])"

lemma download_album_result:
  assumes "qurl_contract Q" and "download_album Q o_url key artist album = Inr (a, q)"
  shows "art_status_of a = Art_network_down \<and> q \<and> \<not> has_reply a"
  using assms
  by (auto simp: download_album_def download_url_def network_is_connected_def ArtReply_down_def rbind_Inr_iff)

section \<open>Properties\<close>

text \<open>
  How a finished network reply is classified: success carries the body; 404 and 410 are an
  authoritative \<open>not found\<close>; a cancelled operation is a timeout; of the other errors only HTTP 400 and
  403 are permanent. The reply is never left unfinished, the timer is stopped and the \<open>finished\<close> signal
  is emitted exactly once.
\<close>

theorem reply_classification:
  assumes "has_reply a" and "a' = download_finished r a"
  shows "art_status_of a' =
           (case nr_error r of
              NoError \<Rightarrow> Art_success
            | ContentNotFoundError \<Rightarrow> Art_not_found
            | ContentGoneError \<Rightarrow> Art_not_found
            | OperationCanceledError \<Rightarrow> Art_timeout
            | Network_error _ \<Rightarrow> if nr_http_status r \<in> {Some 400, Some 403} then Art_hard_error else Art_temporary_error) \<and>
         (art_data a' = (if nr_error r = NoError then nr_body r else art_data a)) \<and>
         \<not> art_timer a' \<and> art_signals a' = art_signals a + 1 \<and> reply_data a' = Inr (art_data a')"
  using assms
  by (cases "nr_error r"; cases "nr_http_status r")
    (auto simp: download_finished_def set_status_def reply_data_def Let_def)

theorem reply_classification_witness:
  "art_status_of
     (download_finished \<lparr>nr_error = Network_error 201, nr_error_string = ''e'', nr_http_status = Some 403, nr_body = ''b''\<rparr>
        \<lparr>url_string = ''u'', art_error_string = [], art_data = [], art_status_of = Art_not_finished,
         has_reply = True, reply_aborted = False, art_timer = True, art_signals = 0\<rparr>) = Art_hard_error"
  by (subst reply_classification [THEN conjunct1, OF _ refl]) simp_all

end
