(* ===== verification/Image_Extractor.thy ===== *)
theory Image_Extractor
  imports System_Utils
begin

text \<open>
  Class \<open>ImageExtractor\<close> (\<open>include/internal/imageextractor.h\<close>, \<open>src/imageextractor.cpp\<close>): it runs the
  external program \<open>vs-thumb\<close> and collects the still frame from a pipe. The record holds the class's
  members; the state of \<open>QProcess\<close> and \<open>QTimer\<close> that the code reads is part of it. Each slot is a
  function on the record. Which slots Qt can call when is the step relation \<open>ex_step\<close>.
\<close>

section \<open>State\<close>

datatype process_state = NotRunning | Starting | Running

datatype exit_status = NormalExit | CrashExit

record extractor =
  ex_filename :: string
  timeout_ms :: int
  read_called :: bool
  exe_path :: string
  ex_error :: string
  write_fd_open :: bool
  image_bytes :: string
  pstate :: process_state
  pid :: int
  timer_on :: bool
  killed :: bool
  finished_signals :: nat

text \<open>The three system calls of the constructor, each failing with an error number or not.\<close>

definition ImageExtractor ::
  "(int \<Rightarrow> int \<times> string) \<Rightarrow> int option \<Rightarrow> int option \<Rightarrow> int option \<Rightarrow> string \<Rightarrow> int \<Rightarrow> extractor result" where
  "ImageExtractor se pipe2 set_nonblock clear_cloexec filename timeout =
     (case pipe2 of
        Some errno \<Rightarrow> Inl (Runtime_error (''ImageExtractor(): cannot create pipe: '' @ safe_strerror se errno))
      | None \<Rightarrow>
          (case set_nonblock of
             Some errno \<Rightarrow> Inl (Runtime_error (''ImageExtractor(): cannot set O_NONBLOCK: '' @ safe_strerror se errno))
           | None \<Rightarrow>
               (case clear_cloexec of
                  Some errno \<Rightarrow> Inl (Runtime_error (''ImageExtractor(): cannot clear FD_CLOEXEC: '' @ safe_strerror se errno))
                | None \<Rightarrow>
                    Inr \<lparr>ex_filename = filename, timeout_ms = timeout, read_called = False, exe_path = [], ex_error = [],
                         write_fd_open = True, image_bytes = [], pstate = NotRunning, pid = 0, timer_on = False,
                         killed = False, finished_signals = 0\<rparr>)))"

section \<open>Operations and slots\<close>

text \<open>\<open>util_dir\<close> is \<open>getenv(UTIL_DIR)\<close> and \<open>share_priv\<close> the build's \<open>SHARE_PRIV_ABS\<close>.\<close>

definition extractor_extract :: "string option \<Rightarrow> string \<Rightarrow> extractor \<Rightarrow> extractor" where
  "extractor_extract util_dir share_priv e =
     e\<lparr>exe_path := (case util_dir of Some d \<Rightarrow> d | None \<Rightarrow> share_priv) @ ''/vs-thumb'',
       pstate := Starting, timer_on := True\<rparr>"

definition extractor_destroy :: "extractor \<Rightarrow> extractor" where
  "extractor_destroy e = (if pstate e \<noteq> NotRunning then e\<lparr>killed := True\<rparr> else e)"

definition extractor_read :: "extractor \<Rightarrow> string result \<times> extractor" where
  "extractor_read e =
     (if ex_error e \<noteq> [] then (Inl (Runtime_error (''ImageExtractor::read(): '' @ ex_error e)), e)
      else if read_called e then (Inl (Assertion ''!read_called_''), e)
      else (Inr (image_bytes e), e\<lparr>read_called := True, image_bytes := []\<rparr>))"

text \<open>
  Results of successive \<open>::read\<close> calls on the pipe. The list ends where the pipe has nothing more to
  offer, which \<open>read\<close> reports as \<open>EAGAIN\<close>.
\<close>

datatype pipe_read = Bytes string | Eof | Eagain | Eintr | Read_error int

fun pipe_loop :: "(int \<Rightarrow> int \<times> string) \<Rightarrow> pipe_read list \<Rightarrow> extractor \<Rightarrow> extractor" where
  "pipe_loop se [] e = e"
| "pipe_loop se (r # rs) e =
     (case r of
        Bytes buf \<Rightarrow> pipe_loop se rs (e\<lparr>image_bytes := image_bytes e @ buf\<rparr>)
      | Eof \<Rightarrow> e
      | Eagain \<Rightarrow> e
      | Eintr \<Rightarrow> pipe_loop se rs e
      | Read_error errno \<Rightarrow> e\<lparr>ex_error := ''cannot read remaining bytes from pipe: '' @ safe_strerror se errno\<rparr>)"

definition readFromPipe :: "(int \<Rightarrow> int \<times> string) \<Rightarrow> pipe_read list \<Rightarrow> extractor \<Rightarrow> extractor" where
  "readFromPipe se rs e = (if ex_error e \<noteq> [] then e else pipe_loop se rs e)"

definition processFinished :: "(int \<Rightarrow> int \<times> string) \<Rightarrow> exit_status \<Rightarrow> int \<Rightarrow> pipe_read list \<Rightarrow> extractor \<Rightarrow> extractor" where
  "processFinished se status code rs e0 =
     (let e = e0\<lparr>timer_on := False\<rparr>;
          e' = (case status of
                  NormalExit \<Rightarrow>
                    if code = 0 then (readFromPipe se rs e)\<lparr>ex_error := []\<rparr>
                    else if code = 1 then e\<lparr>ex_error := ''no artwork for '' @ ex_filename e\<rparr>
                    else if code = 2 then e\<lparr>ex_error := ''extractor pipeline failed for '' @ ex_filename e\<rparr>
                    else e\<lparr>ex_error := ''unknown exit status '' @ int_to_string code @ '' from '' @ exe_path e @
                                       '' for '' @ ex_filename e\<rparr>
                | CrashExit \<Rightarrow>
                    if ex_error e = [] then e\<lparr>ex_error := exe_path e @ '' crashed''\<rparr> else e)
      in e'\<lparr>finished_signals := finished_signals e' + 1\<rparr>)"

definition extractor_timeout :: "extractor \<Rightarrow> extractor" where
  "extractor_timeout e =
     (let e1 = (if pstate e \<noteq> NotRunning then e\<lparr>killed := True\<rparr> else e)
      in e1\<lparr>ex_error := exe_path e1 @ '' (pid '' @ int_to_string (pid e1) @ '') did not return after '' @
                        int_to_string (timeout_ms e1) @ '' milliseconds''\<rparr>)"

definition extractor_error :: "bool \<Rightarrow> extractor \<Rightarrow> extractor" where
  "extractor_error failed_to_start e =
     (if failed_to_start
      then e\<lparr>timer_on := False, ex_error := ''failed to start '' @ exe_path e,
             finished_signals := finished_signals e + 1\<rparr>
      else e)"

definition extractor_started :: "extractor \<Rightarrow> extractor" where
  "extractor_started e = e\<lparr>write_fd_open := False\<rparr>"

definition pipeError :: "extractor \<Rightarrow> extractor" where
  "pipeError e = e\<lparr>ex_error := ''broken pipe''\<rparr>"

section \<open>Runs of an extraction\<close>

text \<open>
  What Qt documents about the order of signals: a starting process either fails to start or starts; a
  running one reports \<open>finished\<close> once, and its state is \<open>NotRunning\<close> from then on; a stopped timer does not fire and a single-shot timer fires once; the pipe
  notifiers may fire at any time. \<open>fresh\<close> is the state \<open>extract()\<close> starts from.
\<close>

inductive ex_step :: "(int \<Rightarrow> int \<times> string) \<Rightarrow> extractor \<Rightarrow> extractor \<Rightarrow> bool" for se where
  has_started: "pstate e = Starting \<Longrightarrow> ex_step se e ((extractor_started e)\<lparr>pstate := Running, pid := p\<rparr>)"
| start_failed: "pstate e = Starting \<Longrightarrow> ex_step se e (extractor_error True (e\<lparr>pstate := NotRunning\<rparr>))"
| other_error: "ex_step se e (extractor_error False e)"
| has_finished: "pstate e = Running \<Longrightarrow>
     ex_step se e (processFinished se status code rs (e\<lparr>pstate := NotRunning\<rparr>))"
| timer_fired: "timer_on e \<Longrightarrow> ex_step se e (extractor_timeout (e\<lparr>timer_on := False\<rparr>))"
| pipe_readable: "ex_step se e (readFromPipe se rs e)"
| pipe_broken: "ex_step se e (pipeError e)"

definition extraction_run :: "(int \<Rightarrow> int \<times> string) \<Rightarrow> extractor \<Rightarrow> extractor \<Rightarrow> bool" where
  "extraction_run se = (ex_step se)\<^sup>*\<^sup>*"

definition fresh :: "extractor \<Rightarrow> bool" where
  "fresh e \<longleftrightarrow> pstate e = Starting \<and> timer_on e \<and> finished_signals e = 0"

text \<open>The invariant: one \<open>finished\<close> signal exactly when the process is over, and then no timer is running.\<close>

definition ex_inv :: "extractor \<Rightarrow> bool" where
  "ex_inv e \<longleftrightarrow>
     finished_signals e = (if pstate e = NotRunning then 1 else 0) \<and> (pstate e = NotRunning \<longrightarrow> \<not> timer_on e)"

lemma pipe_loop_frame [simp]:
  "pstate (pipe_loop se rs e) = pstate e" "timer_on (pipe_loop se rs e) = timer_on e"
  "finished_signals (pipe_loop se rs e) = finished_signals e" "killed (pipe_loop se rs e) = killed e"
  "read_called (pipe_loop se rs e) = read_called e"
  by (induction rs arbitrary: e) (auto split: pipe_read.splits)

lemma readFromPipe_frame [simp]:
  "pstate (readFromPipe se rs e) = pstate e" "timer_on (readFromPipe se rs e) = timer_on e"
  "finished_signals (readFromPipe se rs e) = finished_signals e" "killed (readFromPipe se rs e) = killed e"
  "read_called (readFromPipe se rs e) = read_called e"
  by (simp_all add: readFromPipe_def)

lemma readFromPipe_keeps_error: "ex_error e \<noteq> [] \<Longrightarrow> readFromPipe se rs e = e"
  by (simp add: readFromPipe_def)

lemma ex_step_inv: "ex_step se e e' \<Longrightarrow> ex_inv e \<Longrightarrow> ex_inv e'"
proof (induction rule: ex_step.induct)
  case (pipe_readable e rs)
  then show ?case by (cases "ex_error e = []") (auto simp: ex_inv_def readFromPipe_keeps_error)
qed (auto simp: ex_inv_def extractor_started_def extractor_error_def processFinished_def extractor_timeout_def pipeError_def
      Let_def split: exit_status.splits if_splits)

lemma run_inv: "extraction_run se e e' \<Longrightarrow> ex_inv e \<Longrightarrow> ex_inv e'"
  unfolding extraction_run_def by (induction rule: rtranclp_induct) (auto intro: ex_step_inv)

lemma fresh_inv: "fresh e \<Longrightarrow> ex_inv e"
  by (simp add: fresh_def ex_inv_def)

lemma pipe_loop_bytes:
  "\<forall>r \<in> set rs. (\<exists>b. r = Bytes b) \<or> r = Eintr \<Longrightarrow>
     image_bytes (pipe_loop se (rs @ t) e) =
       image_bytes (pipe_loop se t (e\<lparr>image_bytes := image_bytes e @ concat [b. Bytes b \<leftarrow> rs]\<rparr>))"
proof (induction rs arbitrary: e)
  case Nil
  then show ?case by simp
next
  case (Cons r rs)
  then show ?case by (cases r) auto
qed

section \<open>Properties\<close>

text \<open>
  C37. In every order in which the process, the timer and the pipe can report, the client gets the
  \<open>finished\<close> signal at most once, gets it as soon as the process is over, and no watchdog timer is
  left running after it.
\<close>

theorem extraction_finishes_once:
  assumes "fresh e" and "extraction_run se e e'"
  shows "finished_signals e' \<le> 1 \<and> (finished_signals e' = 1 \<longleftrightarrow> pstate e' = NotRunning) \<and>
         (finished_signals e' = 1 \<longrightarrow> \<not> timer_on e')"
  using run_inv [OF assms(2) fresh_inv [OF assms(1)]]
  by (auto simp: ex_inv_def split: if_splits)

definition sample_extractor :: extractor where
  "sample_extractor =
     \<lparr>ex_filename = ''/v'', timeout_ms = 10, read_called = False, exe_path = ''/x/vs-thumb'', ex_error = [],
      write_fd_open = True, image_bytes = [], pstate = Starting, pid = 0, timer_on = True, killed = False,
      finished_signals = 0\<rparr>"

theorem extraction_finishes_once_witness:
  "finished_signals (extractor_error True (sample_extractor\<lparr>pstate := NotRunning\<rparr>)) \<le> 1"
proof -
  have "extraction_run (\<lambda>_. (0, [])) sample_extractor (extractor_error True (sample_extractor\<lparr>pstate := NotRunning\<rparr>))"
    unfolding extraction_run_def
    by (intro r_into_rtranclp ex_step.start_failed) (simp add: sample_extractor_def)
  from extraction_finishes_once [OF _ this] show ?thesis by (simp add: fresh_def sample_extractor_def)
qed

text \<open>
  After exit code 0 the next \<open>read()\<close> returns everything that came through the pipe, in order:
  the bytes collected before, followed by the bytes still in the pipe when the process ended; short
  reads and interrupted calls lose nothing. A non-zero exit code makes \<open>read()\<close> throw.
\<close>

theorem extraction_data_complete:
  assumes "ex_error e = []" and "\<not> read_called e"
    and "\<forall>r \<in> set rs. (\<exists>b. r = Bytes b) \<or> r = Eintr"
  shows "fst (extractor_read (processFinished se NormalExit code (rs @ [last_read]) e)) =
           (if code = 0
            then Inr (image_bytes e @ concat [b. Bytes b \<leftarrow> rs] @ (case last_read of Bytes b \<Rightarrow> b | _ \<Rightarrow> []))
            else Inl (Runtime_error (''ImageExtractor::read(): '' @ ex_error (processFinished se NormalExit code [] e))))"
proof (cases "code = 0")
  case True
  let ?e = "e\<lparr>timer_on := False\<rparr>"
  have "image_bytes (pipe_loop se (rs @ [last_read]) ?e) =
          image_bytes e @ concat [b. Bytes b \<leftarrow> rs] @ (case last_read of Bytes b \<Rightarrow> b | _ \<Rightarrow> [])"
    using pipe_loop_bytes [OF assms(3), of se "[last_read]" ?e] by (simp split: pipe_read.splits)
  with True assms(1,2) show ?thesis
    by (simp add: processFinished_def readFromPipe_def extractor_read_def)
next
  case False
  then show ?thesis by (auto simp: processFinished_def extractor_read_def Let_def)
qed

theorem extraction_data_complete_witness:
  "fst (extractor_read (processFinished (\<lambda>_. (0, [])) NormalExit 0 ([Bytes ''a'', Eintr, Bytes ''b''] @ [Eof]) sample_extractor))
     = Inr ''ab''"
  by (subst extraction_data_complete) (simp_all add: sample_extractor_def)

text \<open>
  An exit code of 0 erases every error recorded before, including a failure to read the rest of
  the pipe: \<open>read()\<close> then returns the truncated data as if it were complete.
\<close>

theorem extraction_read_error_lost:
  assumes "ex_error e = []" and "\<not> read_called e"
  shows "ex_error (readFromPipe se (map Bytes bs @ [Read_error n]) e) \<noteq> [] \<and>
         fst (extractor_read (processFinished se NormalExit 0 (map Bytes bs @ [Read_error n]) e)) =
           Inr (image_bytes e @ concat bs)"
proof -
  have "pipe_loop se (map Bytes bs @ [Read_error n]) x =
          x\<lparr>image_bytes := image_bytes x @ concat bs,
            ex_error := ''cannot read remaining bytes from pipe: '' @ safe_strerror se n\<rparr>" for x
    by (induction bs arbitrary: x) simp_all
  with assms show ?thesis by (simp add: processFinished_def readFromPipe_def extractor_read_def)
qed

theorem extraction_read_error_lost_witness:
  "fst (extractor_read (processFinished (\<lambda>_. (0, [])) NormalExit 0 (map Bytes [''part''] @ [Read_error 5]) sample_extractor))
     = Inr ''part''"
  by (subst extraction_read_error_lost [THEN conjunct2]) (simp_all add: sample_extractor_def)

end
