(* ===== verification/Thumbnailer.thy ===== *)
theory Thumbnailer
  imports Backoff Cache_Helper Image_Model Settings Version_Model Local_Album_Art Art_Download Image_Extractor
begin

text \<open>
  The core of the service (\<open>include/internal/thumbnailer.h\<close>, \<open>src/thumbnailer.cpp\<close>): requests, the
  look-up logic \<open>RequestBase::thumbnail\<close>, the three caches, start-up, shut-down and administration.
  Everything outside the repository that the code calls is collected in the record \<open>env\<close>. One clock
  reading \<open>now\<close> (nanoseconds) serves all \<open>system_clock::now()\<close> calls of one operation.
\<close>

section \<open>Environment\<close>

record file_stat =
  st_regular :: bool
  st_ino :: nat
  st_mtim :: "int \<times> int"
  st_ctim :: "int \<times> int"

record ('p, 'l, 'w) env =
  gdk_of :: "('p, 'l) gdk"
  qscale_of :: qscale
  exif_lib :: exif_loader
  backend_of :: "'w backend"
  taglib_of :: taglib
  apparmor_of :: apparmor
  gio_query :: "string \<Rightarrow> string + string"
  os_open :: "string \<Rightarrow> int + reads"
  os_lseek :: "string \<Rightarrow> int option"
  os_strerror :: "int \<Rightarrow> int \<times> string"
  os_euid :: int
  os_canonical :: "string \<Rightarrow> string result"
  os_stat :: "string \<Rightarrow> int + file_stat"
  os_pipe2 :: "int option"
  os_nonblock :: "int option"
  os_cloexec :: "int option"
  env_util_dir :: "string option"
  share_priv_abs :: string
  qurl_of :: qurl
  env_server_url :: "string option"

section \<open>Data\<close>

datatype fetch_status =
    Cache_hit | Scaled_from_fullsize | Cached_failure | Needs_download | Downloaded
  | Not_found | Network_down | Temporary_error | Hard_error | Timed_out

datatype location = Local | Remote

datatype cache_policy = Cache_fullsize | Dont_cache_fullsize

record 'p image_data =
  id_status :: fetch_status
  id_image :: "'p image"
  id_cache_policy :: cache_policy
  id_location :: location

definition ImageData_image :: "'p image \<Rightarrow> cache_policy \<Rightarrow> location \<Rightarrow> 'p image_data" where
  "ImageData_image img policy loc =
     \<lparr>id_status = Downloaded, id_image = img, id_cache_policy = policy, id_location = loc\<rparr>"

definition ImageData_status :: "fetch_status \<Rightarrow> cache_policy \<Rightarrow> location \<Rightarrow> 'p image_data" where
  "ImageData_status st policy loc =
     \<lparr>id_status = st, id_image = empty_image, id_cache_policy = policy, id_location = loc\<rparr>"

text \<open>The members of the three subclasses of \<open>RequestBase\<close>.\<close>

datatype request_kind =
    LocalThumbnailRequest string "extractor option"
  | AlbumRequest string string "art_reply option"
  | ArtistRequest string string "art_reply option"

record request =
  key :: string
  requested_size :: qsize
  error_message :: string
  timeout_of :: int
  status :: fetch_status
  kind :: request_kind

record 'w thumbnailer =
  full_size_cache :: "'w helper"
  thumbnail_cache :: "'w helper"
  failure_cache :: "'w helper"
  max_size :: int
  not_found_hours :: int
  extraction_timeout_msec :: int
  downloader_key :: string
  backoff_of :: backoff

text \<open>A request acts on itself and on the thumbnailer it points to.\<close>

record 'w session =
  rq :: request
  tn :: "'w thumbnailer"

definition on_thumbnail_cache :: "('w helper, 'a) act \<Rightarrow> ('w thumbnailer, 'a) act" where
  "on_thumbnail_cache = act_zoom thumbnail_cache (\<lambda>h t. t\<lparr>thumbnail_cache := h\<rparr>)"

definition on_full_size_cache :: "('w helper, 'a) act \<Rightarrow> ('w thumbnailer, 'a) act" where
  "on_full_size_cache = act_zoom full_size_cache (\<lambda>h t. t\<lparr>full_size_cache := h\<rparr>)"

definition on_failure_cache :: "('w helper, 'a) act \<Rightarrow> ('w thumbnailer, 'a) act" where
  "on_failure_cache = act_zoom failure_cache (\<lambda>h t. t\<lparr>failure_cache := h\<rparr>)"

definition on_tn :: "('w thumbnailer, 'a) act \<Rightarrow> ('w session, 'a) act" where
  "on_tn = act_zoom tn (\<lambda>t s. s\<lparr>tn := t\<rparr>)"

definition on_rq :: "(request, 'a) act \<Rightarrow> ('w session, 'a) act" where
  "on_rq = act_zoom rq (\<lambda>r s. s\<lparr>rq := r\<rparr>)"

lemmas on_defs = on_thumbnail_cache_def on_full_size_cache_def on_failure_cache_def on_tn_def on_rq_def act_zoom_def

definition set_request_status :: "fetch_status \<Rightarrow> ('w session, unit) act" where
  "set_request_status st = act_modify (\<lambda>s. s\<lparr>rq := (rq s)\<lparr>status := st\<rparr>\<rparr>)"

section \<open>\<open>RequestBase\<close>\<close>

definition RequestBase :: "string \<Rightarrow> qsize \<Rightarrow> int \<Rightarrow> request_kind \<Rightarrow> request" where
  "RequestBase k req_size timeout s =
     \<lparr>key = k, requested_size = req_size, error_message = [], timeout_of = timeout, status = Needs_download, kind = s\<rparr>"

function printable_key :: "string \<Rightarrow> string" where
  "printable_key k =
     (if NUL \<in> set k
      then takeWhile (\<lambda>c. c \<noteq> NUL) k @ [CHR 0x5C, CHR ''0''] @ printable_key (tl (dropWhile (\<lambda>c. c \<noteq> NUL) k))
      else k)"
  by auto
termination
proof (relation "measure length", simp)
  fix k :: string
  assume "NUL \<in> set k"
  then have "0 < length (dropWhile (\<lambda>c. c \<noteq> NUL) k)" by (auto simp: dropWhile_eq_Nil_conv)
  moreover have "length (dropWhile (\<lambda>c. c \<noteq> NUL) k) \<le> length k" by (rule length_dropWhile_le)
  ultimately have "length (tl (dropWhile (\<lambda>c. c \<noteq> NUL) k)) < length k"
    unfolding length_tl by linarith
  then show "(tl (dropWhile (\<lambda>c. c \<noteq> NUL) k), k) \<in> measure length" by simp
qed

declare printable_key.simps [simp del]

definition target_size :: "int \<Rightarrow> qsize \<Rightarrow> qsize" where
  "target_size max_px req =
     QSize (if width req \<noteq> 0 then min (width req) max_px else max_px)
           (if height req \<noteq> 0 then min (height req) max_px else max_px)"

definition sized_key :: "string \<Rightarrow> qsize \<Rightarrow> string" where
  "sized_key k sz = k @ [NUL] @ int_to_string (width sz) @ [NUL] @ int_to_string (height sz)"

section \<open>\<open>fetch\<close>\<close>

definition fetch_failed :: "exn \<Rightarrow> 'p image_data \<Rightarrow> request \<Rightarrow> 'p image_data result \<times> request" where
  "fetch_failed e default_data r =
     (if catchable e then (Inr default_data, r\<lparr>error_message := what e\<rparr>) else (Inl e, r))"

definition local_fetch_extracted ::
  "('p, 'l, 'w) env \<Rightarrow> string \<Rightarrow> extractor \<Rightarrow> request \<Rightarrow> 'p image_data result \<times> request" where
  "local_fetch_extracted E filename x r =
     (let failure = ImageData_status Hard_error Cache_fullsize Local
      in case extractor_read x of
           (Inl e, x') \<Rightarrow> fetch_failed e failure (r\<lparr>kind := LocalThumbnailRequest filename (Some x')\<rparr>)
         | (Inr bytes, x') \<Rightarrow>
             (let r' = r\<lparr>kind := LocalThumbnailRequest filename (Some x')\<rparr>
              in case Image_load (gdk_of E) (qscale_of E) (exif_lib E) (BufferReader bytes) QSize_default of
                   Inl e \<Rightarrow> fetch_failed e failure r'
                 | Inr img \<Rightarrow> (Inr (ImageData_image img Cache_fullsize Local), r')))"

definition local_fetch_file ::
  "('p, 'l, 'w) env \<Rightarrow> qsize \<Rightarrow> string \<Rightarrow> request \<Rightarrow> 'p image_data result \<times> request" where
  "local_fetch_file E size_hint filename r =
     (let failure = ImageData_status Hard_error Dont_cache_fullsize Local;
          nothing = ImageData_status Not_found Dont_cache_fullsize Local;
          load = Image_load (gdk_of E) (qscale_of E) (exif_lib E)
      in case get_mimetype (gio_query E) filename of
           Inl e \<Rightarrow> fetch_failed e failure r
         | Inr content_type \<Rightarrow>
             if starts_with ''image/'' content_type
             then case os_open E filename of
                    Inl errno \<Rightarrow>
                      fetch_failed (Runtime_error (''LocalThumbnailRequest::fetch(): Could not open '' @ filename @ '': '' @
                                                   safe_strerror (os_strerror E) errno)) failure r
                  | Inr segs \<Rightarrow>
                      (case load (FdReader (os_strerror E) segs (os_lseek E filename)) size_hint of
                         Inl e \<Rightarrow> fetch_failed e failure r
                       | Inr img \<Rightarrow> (Inr (ImageData_image img Dont_cache_fullsize Local), r))
             else if starts_with ''audio/'' content_type
             then case extract_local_album_art (taglib_of E) filename of
                    Inl e \<Rightarrow> fetch_failed e failure r
                  | Inr art \<Rightarrow>
                      if art \<noteq> []
                      then case load (BufferReader art) QSize_default of
                             Inl e \<Rightarrow> fetch_failed e failure r
                           | Inr img \<Rightarrow> (Inr (ImageData_image img Dont_cache_fullsize Local), r)
                      else (Inr nothing, r)
             else if starts_with ''video/'' content_type
             then (Inr (ImageData_status Needs_download Cache_fullsize Local), r)
             else (Inr nothing, r))"

definition common_fetch :: "('p, 'l, 'w) env \<Rightarrow> art_reply option \<Rightarrow> request \<Rightarrow> 'p image_data result \<times> request" where
  "common_fetch E artreply r =
     (case artreply of
        None \<Rightarrow> (Inr (ImageData_status Needs_download Cache_fullsize Remote), r)
      | Some a \<Rightarrow>
          (case error_string a of
             Inl e \<Rightarrow> (Inl e, r)
           | Inr msg \<Rightarrow>
               (let r' = r\<lparr>error_message := msg\<rparr>;
                    ret = (\<lambda>st. (Inr (ImageData_status st Cache_fullsize Remote), r'))
                in case art_status_of a of
                     Art_success \<Rightarrow>
                       (case rbind (reply_data a) (\<lambda>raw_data.
                               Image_load (gdk_of E) (qscale_of E) (exif_lib E) (BufferReader raw_data) QSize_default) of
                          Inl e \<Rightarrow> fetch_failed e (ImageData_status Hard_error Cache_fullsize Remote) r'
                        | Inr full_size \<Rightarrow> (Inr (ImageData_image full_size Cache_fullsize Remote), r'))
                   | Art_not_found \<Rightarrow> ret Not_found
                   | Art_temporary_error \<Rightarrow> ret Temporary_error
                   | Art_hard_error \<Rightarrow> ret Hard_error
                   | Art_timeout \<Rightarrow> ret Timed_out
                   | Art_network_down \<Rightarrow> ret Network_down
                   | Art_not_finished \<Rightarrow> (Inl Abort, r'))))"

definition fetch :: "('p, 'l, 'w) env \<Rightarrow> qsize \<Rightarrow> (request, 'p image_data) act" where
  "fetch E size_hint r =
     (case kind r of
        LocalThumbnailRequest filename ex \<Rightarrow>
          (case ex of
             Some x \<Rightarrow> local_fetch_extracted E filename x r
           | None \<Rightarrow> local_fetch_file E size_hint filename r)
      | AlbumRequest artist album artreply \<Rightarrow> common_fetch E artreply r
      | ArtistRequest artist album artreply \<Rightarrow> common_fetch E artreply r)"

section \<open>\<open>RequestBase::thumbnail\<close>\<close>

text \<open>
  The \<open>switch\<close> on the fetch status. The result says whether the look-up goes on (an image is there) or
  returns the empty string.
\<close>

definition reset_if_remote :: "int \<Rightarrow> location \<Rightarrow> ('w session, unit) act" where
  "reset_if_remote now loc =
     (if loc = Remote
      then on_tn (act_modify (\<lambda>t. t\<lparr>backoff_of := reset_backoff now (backoff_of t)\<rparr>))
      else act_ret ())"

definition put_failure :: "('p, 'l, 'w) env \<Rightarrow> int \<Rightarrow> int \<Rightarrow> ('w session, bool) act" where
  "put_failure E now expiry s =
     on_tn (on_failure_cache (cache_put (backend_of E) now (key (rq s)) [] expiry)) s"

definition handle_fetch_status :: "('p, 'l, 'w) env \<Rightarrow> int \<Rightarrow> 'p image_data \<Rightarrow> ('w session, bool) act" where
  "handle_fetch_status E now d =
     (let loc = id_location d
      in case id_status d of
           Downloaded \<Rightarrow> act_bind (reset_if_remote now loc) (\<lambda>_. act_ret True)
         | Needs_download \<Rightarrow>
             (\<lambda>s. (if loc = Remote \<and> \<not> retry_ok now (backoff_of (tn s))
                   then act_bind (set_request_status Temporary_error) (\<lambda>_. act_ret False)
                   else act_ret False) s)
         | Network_down \<Rightarrow> act_ret False
         | Not_found \<Rightarrow>
             (\<lambda>s. let later = (if loc = Remote then now + not_found_hours (tn s) * 3600 * NS_PER_S else 0)
                  in (act_bind (put_failure E now later) (\<lambda>_.
                      act_bind (reset_if_remote now loc) (\<lambda>_. act_ret False))) s)
         | Hard_error \<Rightarrow>
             act_bind (put_failure E now 0) (\<lambda>_.
             act_bind (reset_if_remote now loc) (\<lambda>_. act_ret False))
         | Temporary_error \<Rightarrow>
             (if loc \<noteq> Remote then act_throw (Assertion ''image_data.location == Location::remote'')
              else act_bind (on_tn (act_modify (\<lambda>t. t\<lparr>backoff_of := snd (adjust_retry_limit now (backoff_of t))\<rparr>)))
                     (\<lambda>_. act_ret False))
         | Timed_out \<Rightarrow>
             (if loc \<noteq> Remote then act_throw (Assertion ''image_data.location == Location::remote'')
              else act_ret False)
         | Cache_hit \<Rightarrow> act_throw Abort
         | Scaled_from_fullsize \<Rightarrow> act_throw Abort
         | Cached_failure \<Rightarrow> act_throw Abort)"

text \<open>Keeping the full-size version; the result is the image that is scaled next.\<close>

definition store_full_size :: "('p, 'l, 'w) env \<Rightarrow> int \<Rightarrow> 'p image_data \<Rightarrow> ('w session, 'p image) act" where
  "store_full_size E now d s =
     (let img = id_image d; m = max_size (tn s)
      in (if id_cache_policy d = Cache_fullsize
         then act_bind (act_of (Image_width (gdk_of E) img)) (\<lambda>w.
              act_bind (act_of (Image_height (gdk_of E) img)) (\<lambda>h.
              act_bind (act_of (if max w h > m then Image_scale (gdk_of E) (qscale_of E) (QSize m m) img else Inr img)) (\<lambda>img'.
              act_bind (act_of (jpeg_or_png_data (gdk_of E) 90 img')) (\<lambda>data.
              act_bind (on_tn (on_full_size_cache (cache_put (backend_of E) now (key (rq s)) data 0))) (\<lambda>_.
              act_ret img')))))
         else act_ret img) s)"

text \<open>The image to encode, from the full-size cache or from \<open>fetch\<close>; None when the look-up returns nothing.\<close>

definition fetch_image :: "('p, 'l, 'w) env \<Rightarrow> int \<Rightarrow> qsize \<Rightarrow> ('w session, 'p image option) act" where
  "fetch_image E now ts =
     act_bind (on_rq (fetch E ts)) (\<lambda>d.
     act_bind (set_request_status (id_status d)) (\<lambda>_.
     act_bind (handle_fetch_status E now d) (\<lambda>go_on.
     if \<not> go_on then act_ret None
     else act_bind (store_full_size E now d) (\<lambda>img.
          act_bind (act_of (Image_scale (gdk_of E) (qscale_of E) ts img)) (\<lambda>scaled.
          act_ret (Some scaled))))))"

definition obtain_image :: "('p, 'l, 'w) env \<Rightarrow> int \<Rightarrow> qsize \<Rightarrow> ('w session, 'p image option) act" where
  "obtain_image E now ts s =
     (let k = key (rq s)
      in act_bind (on_tn (on_full_size_cache (cache_get (backend_of E) now k))) (\<lambda>full_size.
         case full_size of
           Some data \<Rightarrow>
             act_bind (set_request_status Scaled_from_fullsize) (\<lambda>_.
             act_bind (act_of (Image_load (gdk_of E) (qscale_of E) (exif_lib E) (BufferReader data) ts)) (\<lambda>img.
             act_ret (Some img)))
         | None \<Rightarrow>
             act_bind (on_tn (on_failure_cache (cache_get (backend_of E) now k))) (\<lambda>failure.
             case failure of
               Some _ \<Rightarrow> act_bind (set_request_status Cached_failure) (\<lambda>_. act_ret None)
             | None \<Rightarrow> fetch_image E now ts)) s)"

definition look_up :: "('p, 'l, 'w) env \<Rightarrow> int \<Rightarrow> ('w session, string) act" where
  "look_up E now s =
     (let req = requested_size (rq s)
      in (if \<not> isValid req
         then act_throw (Invalid_argument (''invalid size: ('' @ int_to_string (width req) @ '','' @
                                           int_to_string (height req) @ '')''))
         else
           let ts = target_size (max_size (tn s)) req;
               sk = sized_key (key (rq s)) ts
           in act_bind (on_tn (on_thumbnail_cache (cache_get (backend_of E) now sk))) (\<lambda>thumb.
              case thumb of
                Some data \<Rightarrow> act_bind (set_request_status Cache_hit) (\<lambda>_. act_ret data)
              | None \<Rightarrow>
                  act_bind (obtain_image E now ts) (\<lambda>scaled_image.
                  case scaled_image of
                    None \<Rightarrow> act_ret []
                  | Some img \<Rightarrow>
                      act_bind (act_of (jpeg_or_png_data (gdk_of E) 75 img)) (\<lambda>data.
                      act_bind (on_tn (on_thumbnail_cache (cache_put (backend_of E) now sk data 0))) (\<lambda>_.
                      act_ret data))))) s)"

definition thumbnail :: "('p, 'l, 'w) env \<Rightarrow> int \<Rightarrow> ('w session, string) act" where
  "thumbnail E now =
     act_catch (look_up E now) (\<lambda>e s.
       act_throw (ResourceException (''RequestBase::thumbnail(): key = '' @ printable_key (key (rq s)) @ '': '' @ what e)) s)"

section \<open>Creating requests\<close>

definition nsec_time :: "int \<times> int \<Rightarrow> string" where
  "nsec_time t = int_to_string (fst t) @ ''.'' @ int_to_string (snd t)"

definition local_key :: "string \<Rightarrow> file_stat \<Rightarrow> string" where
  "local_key filename st =
     filename @ [NUL] @ nat_to_string (st_ino st) @ [NUL] @ nsec_time (st_mtim st) @ [NUL] @ nsec_time (st_ctim st)"

definition new_local_request :: "('p, 'l, 'w) env \<Rightarrow> string \<Rightarrow> qsize \<Rightarrow> int \<Rightarrow> request result" where
  "new_local_request E filename req_size timeout =
     (if \<not> starts_with ''/'' filename
      then Inl (Runtime_error (''LocalThumbnailRequest(): '' @ filename @ '': file name must be an absolute path''))
      else
        rbind (os_canonical E filename) (\<lambda>canonical.
        case os_stat E canonical of
          Inl errno \<Rightarrow>
            Inl (Runtime_error (''LocalThumbnailRequest(): Could not stat '' @ canonical @ '': '' @
                                safe_strerror (os_strerror E) errno))
        | Inr st \<Rightarrow>
            if \<not> st_regular st
            then Inl (Runtime_error (''LocalThumbnailRequest(): '' @ [CHR 0x27] @ canonical @ [CHR 0x27] @ '' is not a regular file''))
            else Inr (RequestBase (local_key canonical st) req_size timeout (LocalThumbnailRequest canonical None))))"

definition album_key :: "string \<Rightarrow> string \<Rightarrow> string" where
  "album_key artist album = artist @ [NUL] @ album @ [NUL] @ ''album''"

definition artist_key :: "string \<Rightarrow> string \<Rightarrow> string" where
  "artist_key artist album = artist @ [NUL] @ album @ [NUL] @ ''artist''"

definition new_album_request :: "string \<Rightarrow> string \<Rightarrow> qsize \<Rightarrow> int \<Rightarrow> request" where
  "new_album_request artist album req_size timeout =
     RequestBase (album_key artist album) req_size timeout (AlbumRequest artist album None)"

definition new_artist_request :: "string \<Rightarrow> string \<Rightarrow> qsize \<Rightarrow> int \<Rightarrow> request" where
  "new_artist_request artist album req_size timeout =
     RequestBase (artist_key artist album) req_size timeout (ArtistRequest artist album None)"

definition get_thumbnail :: "('p, 'l, 'w) env \<Rightarrow> 'w thumbnailer \<Rightarrow> string \<Rightarrow> qsize \<Rightarrow> request result" where
  "get_thumbnail E t filename req_size =
     (if filename = [] then Inl (InvalidArgumentException ''Thumbnailer::get_thumbnail(): filename is empty'')
      else case new_local_request E filename req_size (extraction_timeout_msec t) of
             Inr r \<Rightarrow> Inr r
           | Inl e \<Rightarrow> if catchable e then Inl (ResourceException ''Thumbnailer::get_thumbnail()'') else Inl e)"

definition get_album_art :: "'w thumbnailer \<Rightarrow> string \<Rightarrow> string \<Rightarrow> qsize \<Rightarrow> request result" where
  "get_album_art t artist album req_size =
     (if album = [] then Inl (InvalidArgumentException ''Thumbnailer::get_album_art(): album is empty'')
      else Inr (new_album_request artist album req_size (extraction_timeout_msec t)))"

definition get_artist_art :: "'w thumbnailer \<Rightarrow> string \<Rightarrow> string \<Rightarrow> qsize \<Rightarrow> request result" where
  "get_artist_art t artist album req_size =
     (if artist = [] then Inl (InvalidArgumentException ''Thumbnailer::get_artist_art(): artist is empty'')
      else Inr (new_artist_request artist album req_size (extraction_timeout_msec t)))"

section \<open>Credentials and downloads\<close>

definition check_client_credentials :: "('p, 'l, 'w) env \<Rightarrow> int \<Rightarrow> string \<Rightarrow> request \<Rightarrow> unit result" where
  "check_client_credentials E user label r =
     (case kind r of
        LocalThumbnailRequest filename ex \<Rightarrow>
          if user \<noteq> os_euid E
          then Inl (Runtime_error ''LocalThumbnailRequest::fetch(): Request comes from a different user ID'')
          else rbind (apparmor_can_read (apparmor_of E) label filename) (\<lambda>allowed.
               if \<not> allowed
               then Inl (Runtime_error (''LocalThumbnailRequest::fetch(): AppArmor policy forbids access to '' @ filename))
               else Inr ())
      | _ \<Rightarrow> Inr ())"

definition download :: "('p, 'l, 'w) env \<Rightarrow> int \<Rightarrow> ('w session, unit) act" where
  "download E msec s =
     (let r = rq s;
          timeout = (if msec = 0 then timeout_of r else msec);
          set_kind = (\<lambda>k. act_modify (\<lambda>s. s\<lparr>rq := (rq s)\<lparr>kind := k\<rparr>\<rparr>))
      in case kind r of
           LocalThumbnailRequest filename ex \<Rightarrow>
             act_bind (act_of (ImageExtractor (os_strerror E) (os_pipe2 E) (os_nonblock E) (os_cloexec E) filename timeout)) (\<lambda>x.
             set_kind (LocalThumbnailRequest filename (Some (extractor_extract (env_util_dir E) (share_priv_abs E) x)))) s
         | AlbumRequest artist album artreply \<Rightarrow>
             act_bind (act_of (download_album (qurl_of E) (env_server_url E) (downloader_key (tn s)) artist album)) (\<lambda>(a, queued).
             set_kind (AlbumRequest artist album (Some a))) s
         | ArtistRequest artist album artreply \<Rightarrow>
             act_bind (act_of (download_artist (qurl_of E) (env_server_url E) (downloader_key (tn s)) artist album)) (\<lambda>(a, queued).
             set_kind (ArtistRequest artist album (Some a))) s)"

end
