(* ===== verification/Thumbnailer_Lookup.thy ===== *)
theory Thumbnailer_Lookup
  imports Thumbnailer
begin

text \<open>
  What the look-up logic of \<open>RequestBase::thumbnail\<close> guarantees: keys identify requests, thumbnails stay
  inside the configured limits, a produced thumbnail is served from the cache afterwards, failures are
  remembered, and the back-off gate governs access to the remote server.
\<close>

section \<open>Frames\<close>

lemma leaves_on_rq: "(\<And>r s. f (s\<lparr>rq := r\<rparr>) = f s) \<Longrightarrow> leaves f (on_rq m)"
  unfolding on_rq_def by (rule leaves_zoom)

lemma leaves_on_tn: "(\<And>t s. f (s\<lparr>tn := t\<rparr>) = f s) \<Longrightarrow> leaves f (on_tn m)"
  unfolding on_tn_def by (rule leaves_zoom)

text \<open>What no step of a look-up changes.\<close>

definition fixed_part :: "'w session \<Rightarrow> string \<times> qsize \<times> int \<times> int" where
  "fixed_part s = (key (rq s), requested_size (rq s), max_size (tn s), not_found_hours (tn s))"

lemma fetch_failed_key: "fetch_failed e d r = (x, r') \<Longrightarrow> key r' = key r \<and> requested_size r' = requested_size r"
  by (auto simp: fetch_failed_def split: if_splits)

lemma fetch_key:
  "fetch E ts r = (x, r') \<Longrightarrow> key r' = key r \<and> requested_size r' = requested_size r"
  by (auto simp: fetch_def local_fetch_extracted_def local_fetch_file_def common_fetch_def Let_def
      split: request_kind.splits option.splits prod.splits sum.splits if_splits art_status.splits
      dest!: fetch_failed_key)

lemma leaves_fixed [leaves_intros]:
  "leaves fixed_part (on_rq (fetch E ts))"
  "leaves fixed_part (set_request_status st)"
  "leaves fixed_part (on_tn (on_thumbnail_cache m))"
  "leaves fixed_part (on_tn (on_full_size_cache m))"
  "leaves fixed_part (on_tn (on_failure_cache m))"
  "leaves fixed_part (on_tn (act_modify (\<lambda>t. t\<lparr>backoff_of := b t\<rparr>)))"
  by (auto simp: leaves_def on_defs set_request_status_def fixed_part_def act_modify_def split: prod.splits
      dest!: fetch_key)

lemma leaves_thumbnail_cache [leaves_intros]:
  "leaves (\<lambda>s. thumbnail_cache (tn s)) (on_rq m)"
  "leaves (\<lambda>s. thumbnail_cache (tn s)) (set_request_status st)"
  "leaves (\<lambda>s. thumbnail_cache (tn s)) (on_tn (on_full_size_cache m'))"
  "leaves (\<lambda>s. thumbnail_cache (tn s)) (on_tn (on_failure_cache m'))"
  "leaves (\<lambda>s. thumbnail_cache (tn s)) (on_tn (act_modify (\<lambda>t. t\<lparr>backoff_of := b t\<rparr>)))"
  by (auto simp: leaves_def on_defs set_request_status_def act_modify_def split: prod.splits)

lemma leaves_put_failure [leaves_intros]:
  "leaves fixed_part (put_failure E now x)"
  "leaves (\<lambda>s. thumbnail_cache (tn s)) (put_failure E now x)"
  unfolding put_failure_def [abs_def] by (rule leaves_dep, rule leaves_intros)+

lemma leaves_reset_if_remote [leaves_intros]:
  "leaves fixed_part (reset_if_remote now loc)"
  "leaves (\<lambda>s. thumbnail_cache (tn s)) (reset_if_remote now loc)"
  unfolding reset_if_remote_def by (intro leaves_intros)+

lemma leaves_handle_fetch_status_fixed [leaves_intros]: "leaves fixed_part (handle_fetch_status E now d)"
  by (cases "id_status d"; simp only: handle_fetch_status_def Let_def fetch_status.case;
      (intro leaves_intros | rule leaves_dep, intro leaves_intros))

lemma leaves_handle_fetch_status_cache [leaves_intros]:
  "leaves (\<lambda>s. thumbnail_cache (tn s)) (handle_fetch_status E now d)"
  by (cases "id_status d"; simp only: handle_fetch_status_def Let_def fetch_status.case;
      (intro leaves_intros | rule leaves_dep, intro leaves_intros))

lemma leaves_store_full_size_fixed [leaves_intros]: "leaves fixed_part (store_full_size E now d)"
  unfolding store_full_size_def [abs_def] Let_def by (rule leaves_dep, intro leaves_intros)

lemma leaves_store_full_size_cache [leaves_intros]:
  "leaves (\<lambda>s. thumbnail_cache (tn s)) (store_full_size E now d)"
  unfolding store_full_size_def [abs_def] Let_def by (rule leaves_dep, intro leaves_intros)

lemma leaves_fetch_image [leaves_intros]:
  "leaves fixed_part (fetch_image E now ts)"
  "leaves (\<lambda>s. thumbnail_cache (tn s)) (fetch_image E now ts)"
  unfolding fetch_image_def by (intro leaves_intros)+

lemma leaves_obtain_image [leaves_intros]:
  "leaves fixed_part (obtain_image E now ts)"
  "leaves (\<lambda>s. thumbnail_cache (tn s)) (obtain_image E now ts)"
  unfolding obtain_image_def [abs_def] Let_def by (rule leaves_dep, intro leaves_intros)+

section \<open>Keys\<close>

lemma sized_key_inject [simp]: "sized_key k a = sized_key k' b \<longleftrightarrow> k = k' \<and> a = b"
proof -
  have "sized_key k a = sized_key k' b \<longleftrightarrow>
      (k @ NUL # int_to_string (width a)) @ NUL # int_to_string (height a) =
      (k' @ NUL # int_to_string (width b)) @ NUL # int_to_string (height b)"
    by (simp add: sized_key_def)
  also have "\<dots> \<longleftrightarrow> k = k' \<and> width a = width b \<and> height a = height b"
    by (simp only: nul_split_inject_last int_to_string_no_nul not_False_eq_True int_to_string_inject conj_assoc)
  also have "\<dots> \<longleftrightarrow> k = k' \<and> a = b" by auto
  finally show ?thesis .
qed

lemma nsec_time_inject: "nsec_time t = nsec_time u \<longleftrightarrow> t = u"
  using sep_split_inject [of "CHR ''.''" "int_to_string (fst t)" "int_to_string (fst u)"]
  by (auto simp: nsec_time_def prod_eq_iff)

lemma nsec_time_no_nul: "NUL \<notin> set (nsec_time t)"
  by (simp add: nsec_time_def)

lemma nat_to_string_no_nul: "NUL \<notin> set (nat_to_string n)"
  using nat_to_string_digits [of n] by fastforce

lemma count_nul_local: "NUL \<notin> set f \<Longrightarrow> count_list (local_key f st) NUL = 3"
  using nsec_time_no_nul nat_to_string_no_nul
  by (simp add: local_key_def count_list_0_iff)

lemma count_nul_remote:
  assumes "NUL \<notin> set a" and "NUL \<notin> set b"
  shows "count_list (album_key a b) NUL = 2" and "count_list (artist_key a b) NUL = 2"
  using assms by (simp_all add: album_key_def artist_key_def count_list_0_iff)

lemma local_key_inject:
  assumes "NUL \<notin> set f" and "NUL \<notin> set g" and "local_key f st = local_key g su"
  shows "f = g \<and> st_ino st = st_ino su \<and> st_mtim st = st_mtim su \<and> st_ctim st = st_ctim su"
proof -
  have "f = g \<and> nat_to_string (st_ino st) @ NUL # nsec_time (st_mtim st) @ NUL # nsec_time (st_ctim st) =
        nat_to_string (st_ino su) @ NUL # nsec_time (st_mtim su) @ NUL # nsec_time (st_ctim su)"
    using assms by (simp add: local_key_def nul_split_inject)
  then show ?thesis
    by (simp add: nul_split_inject nat_to_string_no_nul nsec_time_no_nul nsec_time_inject)
qed

section \<open>Properties of keys\<close>

text \<open>
  C22. Cache keys identify what is cached. For names without a \<open>NUL\<close> byte: two local files have the same
  key only when path, inode, modification and change time agree; album and artist keys are injective in
  artist and album; keys of different kinds of requests never coincide. The key of a thumbnail
  determines the key of the request and the size.
\<close>

theorem cache_keys_identify:
  assumes "NUL \<notin> set f" "NUL \<notin> set g" "NUL \<notin> set a" "NUL \<notin> set b" "NUL \<notin> set a'" "NUL \<notin> set b'"
  shows "(local_key f st = local_key g su \<longrightarrow>
            f = g \<and> st_ino st = st_ino su \<and> st_mtim st = st_mtim su \<and> st_ctim st = st_ctim su) \<and>
         (album_key a b = album_key a' b' \<longrightarrow> a = a' \<and> b = b') \<and>
         (artist_key a b = artist_key a' b' \<longrightarrow> a = a' \<and> b = b') \<and>
         album_key a b \<noteq> artist_key a' b' \<and> local_key f st \<noteq> album_key a b \<and> local_key f st \<noteq> artist_key a b \<and>
         (sized_key k sz = sized_key k' sz' \<longleftrightarrow> k = k' \<and> sz = sz')"
proof (intro conjI)
  show "local_key f st = local_key g su \<longrightarrow>
      f = g \<and> st_ino st = st_ino su \<and> st_mtim st = st_mtim su \<and> st_ctim st = st_ctim su"
    using local_key_inject assms(1,2) by blast
  show "local_key f st \<noteq> album_key a b" "local_key f st \<noteq> artist_key a b"
    using count_nul_local [OF assms(1), of st] count_nul_remote [OF assms(3,4)]
    by (metis numeral_eq_iff semiring_norm(88))+
  show "album_key a b \<noteq> artist_key a' b'"
    using assms by (auto simp: album_key_def artist_key_def nul_split_inject)
qed (use assms in \<open>auto simp: album_key_def artist_key_def nul_split_inject\<close>)

theorem cache_keys_identify_witness:
  "album_key ''a'' ''b'' \<noteq> artist_key ''a'' ''b'' \<and>
   local_key ''/f'' \<lparr>st_regular = True, st_ino = 1, st_mtim = (1, 2), st_ctim = (3, 4)\<rparr> \<noteq> album_key ''a'' ''b''"
  using cache_keys_identify [of "''/f''" "''/f''" "''a''" "''b''" "''a''" "''b''"
      "\<lparr>st_regular = True, st_ino = 1, st_mtim = (1, 2), st_ctim = (3, 4)\<rparr>"]
  by simp

section \<open>How a look-up produces a thumbnail\<close>

abbreviation target_of :: "'w session \<Rightarrow> qsize" where
  "target_of s \<equiv> target_size (max_size (tn s)) (requested_size (rq s))"

abbreviation thumb_key :: "'w session \<Rightarrow> string" where
  "thumb_key s \<equiv> sized_key (key (rq s)) (target_of s)"

lemma handle_fetch_status_cases:
  assumes "handle_fetch_status E now d s = (Inr b, s')"
  shows "b \<longleftrightarrow> id_status d = Downloaded"
    and "\<not> b \<Longrightarrow> id_status d \<notin> {Downloaded, Cache_hit, Scaled_from_fullsize, Cached_failure}"
  using assms
  by (cases "id_status d";
      auto simp: handle_fetch_status_def Let_def act_bind_Inr_iff split: if_splits)+

lemma leaves_status_handle:
  assumes "handle_fetch_status E now d s = (r, s')"
  shows "status (rq s') = status (rq s) \<or> status (rq s') = Temporary_error"
  using assms
  by (cases "id_status d";
      auto simp: handle_fetch_status_def Let_def act_bind_def put_failure_def reset_if_remote_def on_defs
        set_request_status_def split: if_splits prod.splits sum.splits)

lemma fetch_image_NoneD:
  assumes "fetch_image E now ts s = (Inr None, s')"
  shows "status (rq s') \<notin> {Downloaded, Scaled_from_fullsize, Cache_hit}"
proof -
  from assms obtain d s1 s2 b s3 where
    "act_bind (set_request_status (id_status d)) act_ret s1 = (Inr (), s2)"
    and h: "handle_fetch_status E now d s2 = (Inr b, s3)"
    and rest: "(if \<not> b then act_ret None
        else act_bind (store_full_size E now d) (\<lambda>img.
             act_bind (act_of (Image_scale (gdk_of E) (qscale_of E) ts img)) (\<lambda>scaled.
             act_ret (Some scaled)))) s3 = (Inr None, s')"
    by (auto simp: fetch_image_def act_bind_Inr_iff set_request_status_def)
  then have s2: "status (rq s2) = id_status d" by (auto simp: set_request_status_def act_bind_def)
  from rest have "\<not> b" "s' = s3" by (auto simp: act_bind_Inr_iff split: if_splits)
  with handle_fetch_status_cases [OF h] leaves_status_handle [OF h] s2 show ?thesis by auto
qed

lemma obtain_image_NoneD:
  assumes "obtain_image E now ts s = (Inr None, s')"
  shows "status (rq s') \<notin> {Downloaded, Scaled_from_fullsize, Cache_hit}"
  using assms fetch_image_NoneD
  by (fastforce simp: obtain_image_def Let_def act_bind_Inr_iff set_request_status_def split: option.splits)

lemma fixed_partD:
  assumes "fixed_part s' = fixed_part s"
  shows "key (rq s') = key (rq s)" "requested_size (rq s') = requested_size (rq s)" "max_size (tn s') = max_size (tn s)"
    "not_found_hours (tn s') = not_found_hours (tn s)"
  using assms by (auto simp: fixed_part_def)

lemma look_up_missE:
  assumes "look_up E now s = (Inr data, s')" and "status (rq s') \<noteq> Cache_hit"
  obtains h y s1 where
    "isValid (requested_size (rq s))"
    "cache_get (backend_of E) now (thumb_key s) (thumbnail_cache (tn s)) = (Inr None, h)"
    "obtain_image E now (target_of s) (s\<lparr>tn := (tn s)\<lparr>thumbnail_cache := h\<rparr>\<rparr>) = (Inr y, s1)"
    "thumbnail_cache (tn s1) = h" "fixed_part s1 = fixed_part s"
    "y = None \<longrightarrow> s' = s1 \<and> data = []"
    "\<forall>img. y = Some img \<longrightarrow> jpeg_or_png_data (gdk_of E) 75 img = Inr data \<and> rq s' = rq s1 \<and>
       fixed_part s' = fixed_part s \<and>
       (\<exists>b. cache_put (backend_of E) now (thumb_key s) data 0 h = (Inr b, thumbnail_cache (tn s')))"
proof -
  have valid: "isValid (requested_size (rq s))"
    using assms(1) by (auto simp: look_up_def Let_def split: if_splits)
  from assms(1) valid obtain t s0 where
    g: "on_tn (on_thumbnail_cache (cache_get (backend_of E) now (thumb_key s))) s = (Inr t, s0)"
    and k: "(case t of
              Some data \<Rightarrow> act_bind (set_request_status Cache_hit) (\<lambda>_. act_ret data)
            | None \<Rightarrow> act_bind (obtain_image E now (target_of s)) (\<lambda>scaled_image.
                case scaled_image of
                  None \<Rightarrow> act_ret []
                | Some img \<Rightarrow>
                    act_bind (act_of (jpeg_or_png_data (gdk_of E) 75 img)) (\<lambda>data.
                    act_bind (on_tn (on_thumbnail_cache (cache_put (backend_of E) now (thumb_key s) data 0))) (\<lambda>_.
                    act_ret data)))) s0 = (Inr data, s')"
    by (auto simp: look_up_def Let_def act_bind_Inr_iff)
  have t: "t = None"
    using k assms(2) by (cases t) (auto simp: set_request_status_def act_bind_def)
  from g obtain h where h: "cache_get (backend_of E) now (thumb_key s) (thumbnail_cache (tn s)) = (Inr None, h)"
    and s0: "s0 = s\<lparr>tn := (tn s)\<lparr>thumbnail_cache := h\<rparr>\<rparr>"
    by (auto simp: on_defs t split: prod.splits)
  from k t obtain y s1 where o: "obtain_image E now (target_of s) s0 = (Inr y, s1)"
    and k1: "(case y of
                None \<Rightarrow> act_ret []
              | Some img \<Rightarrow>
                  act_bind (act_of (jpeg_or_png_data (gdk_of E) 75 img)) (\<lambda>data.
                  act_bind (on_tn (on_thumbnail_cache (cache_put (backend_of E) now (thumb_key s) data 0))) (\<lambda>_.
                  act_ret data))) s1 = (Inr data, s')"
    by (auto simp: act_bind_Inr_iff)
  have th: "thumbnail_cache (tn s1) = h" and f: "fixed_part s1 = fixed_part s"
    using leavesD [OF leaves_obtain_image(2) o] leavesD [OF leaves_obtain_image(1) o]
    by (simp_all add: s0 fixed_part_def)
  have "s' = s1 \<and> data = []" if "y = None" using k1 that by simp
  moreover have "jpeg_or_png_data (gdk_of E) 75 img = Inr data \<and> rq s' = rq s1 \<and> fixed_part s' = fixed_part s \<and>
      (\<exists>b. cache_put (backend_of E) now (thumb_key s) data 0 h = (Inr b, thumbnail_cache (tn s')))"
    if "y = Some img" for img
    using k1 that th f by (auto simp: act_bind_Inr_iff on_defs fixed_part_def split: prod.splits)
  ultimately show ?thesis using that [OF valid h o [unfolded s0] th f] by blast
qed

lemma look_up_produced:
  assumes "look_up E now s = (Inr data, s')" and "status (rq s') \<in> {Downloaded, Scaled_from_fullsize}"
  obtains h img s1 b where
    "isValid (requested_size (rq s))"
    "cache_get (backend_of E) now (thumb_key s) (thumbnail_cache (tn s)) = (Inr None, h)"
    "obtain_image E now (target_of s) (s\<lparr>tn := (tn s)\<lparr>thumbnail_cache := h\<rparr>\<rparr>) = (Inr (Some img), s1)"
    "jpeg_or_png_data (gdk_of E) 75 img = Inr data"
    "cache_put (backend_of E) now (thumb_key s) data 0 h = (Inr b, thumbnail_cache (tn s'))"
    "fixed_part s' = fixed_part s"
proof -
  have "status (rq s') \<noteq> Cache_hit" using assms(2) by auto
  from assms(1) this obtain h y s1 where *: "isValid (requested_size (rq s))"
    "cache_get (backend_of E) now (thumb_key s) (thumbnail_cache (tn s)) = (Inr None, h)"
    "obtain_image E now (target_of s) (s\<lparr>tn := (tn s)\<lparr>thumbnail_cache := h\<rparr>\<rparr>) = (Inr y, s1)"
    "thumbnail_cache (tn s1) = h" "fixed_part s1 = fixed_part s"
    "y = None \<longrightarrow> s' = s1 \<and> data = []"
    "\<forall>img. y = Some img \<longrightarrow> jpeg_or_png_data (gdk_of E) 75 img = Inr data \<and> rq s' = rq s1 \<and>
       fixed_part s' = fixed_part s \<and>
       (\<exists>b. cache_put (backend_of E) now (thumb_key s) data 0 h = (Inr b, thumbnail_cache (tn s')))"
    by (rule look_up_missE)
  obtain img where "y = Some img"
    using *(3,6) assms(2) obtain_image_NoneD [of E now "target_of s" _ s1] by (cases y) auto
  with *(1-3,7) that show ?thesis by blast
qed

lemma thumbnail_Inr: "thumbnail E now s = (Inr data, s') \<longleftrightarrow> look_up E now s = (Inr data, s')"
  by (auto simp: thumbnail_def act_catch_def split: prod.splits sum.splits if_splits)

lemma printable_key_no_nul: "NUL \<notin> set (printable_key k)"
proof (induction k rule: printable_key.induct)
  case (1 k)
  show ?case
  proof (cases "NUL \<in> set k")
    case True
    with 1 show ?thesis by (subst printable_key.simps) (auto dest: set_takeWhileD)
  next
    case False
    then show ?thesis by (subst printable_key.simps) simp
  qed
qed

lemma leaves_look_up: "leaves fixed_part (look_up E now)"
  unfolding look_up_def [abs_def] Let_def by (rule leaves_dep, intro leaves_intros)

lemma fetch_image_SomeD:
  assumes "fetch_image E now ts s = (Inr (Some img), s')"
  obtains img0 where "Image_scale (gdk_of E) (qscale_of E) ts img0 = Inr img"
  using assms by (auto simp: fetch_image_def act_bind_Inr_iff split: if_splits)

lemma obtain_image_fits:
  assumes "gdk_contract (gdk_of E)" and "honours_size (gdk_of E)" and "keeps_aspect (qscale_of E)" and "isValid ts"
    and "obtain_image E now ts s = (Inr (Some img), s')" and "pixbuf img = Some p"
  shows "fits (g_width (gdk_of E) p) (g_height (gdk_of E) p) ts"
proof -
  from assms(5) consider
      (loaded) data where "Image_load (gdk_of E) (qscale_of E) (exif_lib E) (BufferReader data) ts = Inr img"
    | (scaled) img0 where "Image_scale (gdk_of E) (qscale_of E) ts img0 = Inr img"
    by (auto simp: obtain_image_def Let_def act_bind_Inr_iff split: option.splits elim!: fetch_image_SomeD)
  then show ?thesis
  proof cases
    case loaded
    then show ?thesis by (rule loaded_image_fits [OF assms(1-4) _ assms(6)])
  next
    case scaled
    then obtain p0 where "pixbuf img0 = Some p0" by (cases "pixbuf img0") (auto simp: Image_scale_def)
    from scaled_image_bounds [OF assms(1,3,4) this scaled] assms(6) show ?thesis by auto
  qed
qed

section \<open>A concrete environment\<close>

text \<open>
  An instance of every parameter, for evaluation: the image library and the cache of the earlier
  theories, one image file \<open>/p\<close> of 100 by 50 pixels, and no other file.
\<close>

definition sample_stat :: file_stat where
  "sample_stat = \<lparr>st_regular = True, st_ino = 7, st_mtim = (1, 2), st_ctim = (3, 4)\<rparr>"

definition sample_env :: "(raw_pixbuf, size_callback \<times> string, mem) env" where
  "sample_env =
     \<lparr>gdk_of = raw_gdk, qscale_of = qt_scale, exif_lib = raw_exif None, backend_of = mem_backend,
      taglib_of = \<lparr>t_fileref = (\<lambda>_. None), t_from_base64 = id, t_picture = (\<lambda>s. \<lparr>pic_type = Other, pic_data = s\<rparr>),
                   t_taglib_1_9 = False\<rparr>,
      apparmor_of = \<lparr>aa_is_enabled = False, aa_query_cmd_label = [], aa_query_label = (\<lambda>_ _. Inr True),
                     aa_strerror = (\<lambda>_. (0, []))\<rparr>,
      gio_query = (\<lambda>f. if f = ''/p'' then Inr ''image/raw'' else Inl ''no file''),
      os_open = (\<lambda>f. if f = ''/p'' then Inr [Inr [CHR ''d'', CHR ''2''], Inr []] else Inl 2),
      os_lseek = (\<lambda>_. None),
      os_strerror = (\<lambda>_. (0, ''error'')), os_euid = 1000, os_canonical = Inr,
      os_stat = (\<lambda>f. if f = ''/p'' then Inr sample_stat else Inl 2),
      os_pipe2 = None, os_nonblock = None, os_cloexec = None, env_util_dir = None, share_priv_abs = ''/usr/lib'',
      qurl_of = \<lparr>q_to_string = (\<lambda>u. ''u'' @ url_address u), q_is_valid = (\<lambda>_. True), q_host = (\<lambda>_. [])\<rparr>,
      env_server_url = None\<rparr>"

definition sample_thumbnailer :: "mem thumbnailer" where
  "sample_thumbnailer =
     \<lparr>full_size_cache = mem_helper False [], thumbnail_cache = mem_helper False [], failure_cache = mem_helper False [],
      max_size = 1920, not_found_hours = 168, extraction_timeout_msec = 10000, downloader_key = [],
      backoff_of = BackoffAdjuster\<rparr>"

definition sample_request :: "string \<Rightarrow> request" where
  "sample_request f = RequestBase (local_key f sample_stat) (QSize 10 0) 10000 (LocalThumbnailRequest f None)"

definition sample_session :: "string \<Rightarrow> mem session" where
  "sample_session f = \<lparr>rq = sample_request f, tn = sample_thumbnailer\<rparr>"

lemmas cache_sample_simps =
  cache_get_def cache_put_def call_def deref_def mem_backend_def mem_helper_def

lemma sample_env_simps [simp]:
  "gdk_of sample_env = raw_gdk" "qscale_of sample_env = qt_scale" "exif_lib sample_env = raw_exif None"
  "backend_of sample_env = mem_backend"
  by (simp_all add: sample_env_def)

lemma sample_load:
  "Image_load raw_gdk qt_scale (raw_exif None) (FdReader se [Inr [CHR ''d'', CHR ''2''], Inr []] None) (QSize 10 1920) =
     Inr \<lparr>pixbuf = Some (10, 5, False), alpha_flag = False\<rparr>"
  by (simp add: Image_load_def load_pixbuf_def FdReader_def raw_exif_def exif_orientation_def rotated_90_def load_image_def raw_gdk_def raw_decode_def
        maybe_scale_image_def isValid_def fill_missing_def qt_scale_def apply_orientation_def)

lemma sample_scale:
  "Image_scale raw_gdk qt_scale (QSize 10 1920) \<lparr>pixbuf = Some (10, 5, False), alpha_flag = False\<rparr> =
     Inr \<lparr>pixbuf = Some (10, 5, False), alpha_flag = False\<rparr>"
  by (simp add: Image_scale_def Image_width_def Image_height_def raw_gdk_def isValid_def fill_missing_def)

lemma sample_encode:
  "jpeg_or_png_data raw_gdk 75 \<lparr>pixbuf = Some (10, 5, False), alpha_flag = False\<rparr> = Inr ''jpeg''"
  by (simp add: jpeg_or_png_data_def jpeg_data_def raw_gdk_def)

lemma sample_fetch:
  "fetch sample_env (QSize 10 1920) (sample_request ''/p'') =
     (Inr (ImageData_image \<lparr>pixbuf = Some (10, 5, False), alpha_flag = False\<rparr> Dont_cache_fullsize Local), sample_request ''/p'')"
  using sample_load
  by (simp add: fetch_def sample_request_def RequestBase_def local_fetch_file_def get_mimetype_def Let_def sample_env_def
      )

lemma sample_target: "target_size 1920 (QSize 10 0) = QSize 10 1920"
  by (simp add: target_size_def)

lemma sample_run:
  "\<exists>s'. thumbnail sample_env 5 (sample_session ''/p'') = (Inr ''jpeg'', s') \<and> status (rq s') = Downloaded"
  using sample_fetch
  by (simp add: thumbnail_Inr look_up_def obtain_image_def fetch_image_def handle_fetch_status_def reset_if_remote_def
      store_full_size_def sample_session_def sample_thumbnailer_def sample_request_def RequestBase_def sample_target
      sample_scale sample_encode ImageData_image_def Let_def act_bind_def on_defs set_request_status_def isValid_def
      cache_sample_simps)

lemma sample_run_missing:
  "\<exists>s'. thumbnail sample_env 5 (sample_session ''/q'') = (Inr [], s') \<and> status (rq s') = Hard_error"
  by (simp add: thumbnail_Inr look_up_def obtain_image_def fetch_image_def handle_fetch_status_def reset_if_remote_def
      put_failure_def fetch_def local_fetch_file_def get_mimetype_def fetch_failed_def sample_env_def
      sample_session_def sample_thumbnailer_def sample_request_def RequestBase_def sample_target
      ImageData_status_def Let_def act_bind_def on_defs set_request_status_def isValid_def cache_sample_simps)

section \<open>Properties of the look-up\<close>



text \<open>
  C8. Size limits: every thumbnail that is produced, whether from a fresh image or from the full-size
  cache, and whatever the EXIF orientation, encodes an image that lies inside the effective size, and
  therefore never exceeds the configured maximum in either direction.
\<close>

theorem thumbnail_within_limits:
  assumes "gdk_contract (gdk_of E)" and "honours_size (gdk_of E)" and "keeps_aspect (qscale_of E)"
    and "0 < max_size (tn s)"
    and "thumbnail E now s = (Inr data, s')" and "status (rq s') \<in> {Downloaded, Scaled_from_fullsize}"
  shows "\<exists>img p. jpeg_or_png_data (gdk_of E) 75 img = Inr data \<and> pixbuf img = Some p \<and>
           g_width (gdk_of E) p \<le> width (target_of s) \<and> g_height (gdk_of E) p \<le> height (target_of s) \<and>
           width (target_of s) \<le> max_size (tn s) \<and> height (target_of s) \<le> max_size (tn s)"
proof -
  from assms(5,6) obtain h img s1 where valid: "isValid (requested_size (rq s))"
    and o: "obtain_image E now (target_of s) (s\<lparr>tn := (tn s)\<lparr>thumbnail_cache := h\<rparr>\<rparr>) = (Inr (Some img), s1)"
    and enc: "jpeg_or_png_data (gdk_of E) 75 img = Inr data"
    by (auto simp: thumbnail_Inr elim!: look_up_produced)
  have ts: "isValid (target_of s)" "1 \<le> width (target_of s)" "1 \<le> height (target_of s)"
    "width (target_of s) \<le> max_size (tn s)" "height (target_of s) \<le> max_size (tn s)"
    using valid assms(4) by (auto simp: target_size_def isValid_def)
  obtain p where p: "pixbuf img = Some p"
    using enc by (cases "pixbuf img") (auto simp: jpeg_or_png_data_def)
  have "fits (g_width (gdk_of E) p) (g_height (gdk_of E) p) (target_of s)"
    using obtain_image_fits [OF assms(1-3) ts(1) o p] .
  with enc p ts show ?thesis by (auto simp: fits_def)
qed

theorem thumbnail_within_limits_witness:
  "\<exists>img p. jpeg_or_png_data raw_gdk 75 img = Inr ''jpeg'' \<and> pixbuf img = Some p \<and>
     g_width raw_gdk p \<le> 10 \<and> g_height raw_gdk p \<le> 1920"
proof -
  obtain s' where s': "thumbnail sample_env 5 (sample_session ''/p'') = (Inr ''jpeg'', s')" "status (rq s') = Downloaded"
    using sample_run by blast
  have "target_of (sample_session ''/p'') = QSize 10 1920"
    by (simp add: sample_session_def sample_thumbnailer_def sample_request_def RequestBase_def sample_target)
  moreover have "0 < max_size (tn (sample_session ''/p''))" by (simp add: sample_session_def sample_thumbnailer_def)
  ultimately show ?thesis
    using thumbnail_within_limits [OF _ _ _ _ s'(1)] s'(2) gdk_contract_raw honours_size_raw keeps_aspect_qt_scale
    by (auto simp: fits_def)
qed



section \<open>Remembered failures\<close>

lemma handle_failure:
  assumes "handle_fetch_status E now d s = (Inr go, s')" and "id_status d \<in> {Not_found, Hard_error}"
    and "x = (if id_status d = Hard_error \<or> id_location d = Local then 0
              else now + not_found_hours (tn s) * 3600 * NS_PER_S)"
  shows "\<exists>b. cache_put (backend_of E) now (key (rq s)) [] x (failure_cache (tn s)) = (Inr b, failure_cache (tn s'))"
    and "full_size_cache (tn s') = full_size_cache (tn s)" and "rq s' = rq s"
  using assms
  by (cases "id_status d"; cases "id_location d";
      auto simp: handle_fetch_status_def Let_def act_bind_Inr_iff put_failure_def reset_if_remote_def on_defs
        split: prod.splits if_splits)+

lemma leaves_rq_store: "leaves rq (store_full_size E now d)"
  unfolding store_full_size_def [abs_def] Let_def
  by (rule leaves_dep, intro leaves_intros leaves_on_tn) simp

lemma fetch_image_failure:
  assumes "fetch_image E now ts s = (Inr y, s')" and "status (rq s') \<in> {Not_found, Hard_error}"
  shows "y = None \<and> (\<exists>x b. cache_put (backend_of E) now (key (rq s)) [] x (failure_cache (tn s)) = (Inr b, failure_cache (tn s')) \<and>
           (x = 0 \<or> x = now + not_found_hours (tn s) * 3600 * NS_PER_S) \<and>
           (status (rq s') = Hard_error \<longrightarrow> x = 0) \<and> full_size_cache (tn s') = full_size_cache (tn s))"
proof -
  from assms(1) obtain d r1 s2 b s3 where
    f: "fetch E ts (rq s) = (Inr d, r1)" and s2: "s2 = s\<lparr>rq := r1\<lparr>status := id_status d\<rparr>\<rparr>"
    and h: "handle_fetch_status E now d s2 = (Inr b, s3)"
    and rest: "(if \<not> b then act_ret None
        else act_bind (store_full_size E now d) (\<lambda>img.
             act_bind (act_of (Image_scale (gdk_of E) (qscale_of E) ts img)) (\<lambda>scaled.
             act_ret (Some scaled)))) s3 = (Inr y, s')"
    by (auto simp: fetch_image_def act_bind_Inr_iff set_request_status_def on_defs split: prod.splits)
  have "\<not> b"
  proof
    assume b: "b"
    then have d: "id_status d = Downloaded" using handle_fetch_status_cases(1) [OF h] by simp
    with b rest have "rq s' = rq s3"
      using leavesD [OF leaves_rq_store] by (auto simp: act_bind_Inr_iff)
    with d leaves_status_handle [OF h] assms(2) show False by (auto simp: s2)
  qed
  with rest have y: "y = None" "s' = s3" by auto
  with leaves_status_handle [OF h] assms(2) have st: "id_status d = status (rq s')" by (auto simp: s2)
  have "key (rq s2) = key (rq s)" "tn s2 = tn s" using fetch_key [OF f] by (auto simp: s2)
  with handle_failure [OF h _ refl] st assms(2) y show ?thesis by (auto split: if_splits)
qed

lemma obtain_image_fetched:
  assumes "obtain_image E now ts s = (Inr y, s')"
    and "status (rq s') \<noteq> Scaled_from_fullsize" and "status (rq s') \<noteq> Cached_failure"
  obtains h2 h3 where
    "cache_get (backend_of E) now (key (rq s)) (full_size_cache (tn s)) = (Inr None, h2)"
    "cache_get (backend_of E) now (key (rq s)) (failure_cache (tn s)) = (Inr None, h3)"
    "fetch_image E now ts (s\<lparr>tn := (tn s)\<lparr>full_size_cache := h2, failure_cache := h3\<rparr>\<rparr>) = (Inr y, s')"
proof -
  let ?k = "key (rq s)"
  from assms(1) obtain a s1 where
    g: "on_tn (on_full_size_cache (cache_get (backend_of E) now ?k)) s = (Inr a, s1)"
    and k: "(case a of
           Some data \<Rightarrow>
             act_bind (set_request_status Scaled_from_fullsize) (\<lambda>_.
             act_bind (act_of (Image_load (gdk_of E) (qscale_of E) (exif_lib E) (BufferReader data) ts)) (\<lambda>img.
             act_ret (Some img)))
         | None \<Rightarrow>
             act_bind (on_tn (on_failure_cache (cache_get (backend_of E) now ?k))) (\<lambda>failure.
             case failure of
               Some _ \<Rightarrow> act_bind (set_request_status Cached_failure) (\<lambda>_. act_ret None)
             | None \<Rightarrow> fetch_image E now ts)) s1 = (Inr y, s')"
    by (auto simp: obtain_image_def Let_def act_bind_Inr_iff)
  have a: "a = None"
    using k assms(2) by (cases a) (auto simp: set_request_status_def act_bind_Inr_iff)
  from g obtain h2 where h2: "cache_get (backend_of E) now ?k (full_size_cache (tn s)) = (Inr None, h2)"
    and s1: "s1 = s\<lparr>tn := (tn s)\<lparr>full_size_cache := h2\<rparr>\<rparr>"
    by (auto simp: on_defs a split: prod.splits)
  from k a obtain f s2 where
    g2: "on_tn (on_failure_cache (cache_get (backend_of E) now ?k)) s1 = (Inr f, s2)"
    and k2: "(case f of
               Some _ \<Rightarrow> act_bind (set_request_status Cached_failure) (\<lambda>_. act_ret None)
             | None \<Rightarrow> fetch_image E now ts) s2 = (Inr y, s')"
    by (auto simp: act_bind_Inr_iff)
  have f: "f = None"
    using k2 assms(3) by (cases f) (auto simp: set_request_status_def act_bind_Inr_iff)
  from g2 obtain h3 where h3: "cache_get (backend_of E) now ?k (failure_cache (tn s)) = (Inr None, h3)"
    and s2: "s2 = s\<lparr>tn := (tn s)\<lparr>full_size_cache := h2, failure_cache := h3\<rparr>\<rparr>"
    by (auto simp: on_defs f s1 split: prod.splits)
  from h2 h3 k2 f s2 show ?thesis using that by simp
qed

lemma look_up_failure:
  assumes "look_up E now s = (Inr data, s')" and "status (rq s') \<in> {Not_found, Hard_error}"
  obtains hf x b hf' where
    "cache_get (backend_of E) now (thumb_key s) (thumbnail_cache (tn s)) = (Inr None, thumbnail_cache (tn s'))"
    "cache_get (backend_of E) now (key (rq s)) (full_size_cache (tn s)) = (Inr None, full_size_cache (tn s'))"
    "cache_get (backend_of E) now (key (rq s)) (failure_cache (tn s)) = (Inr None, hf)"
    "cache_put (backend_of E) now (key (rq s)) [] x hf = (Inr b, failure_cache (tn s'))"
    "x = 0 \<or> x = now + not_found_hours (tn s) * 3600 * NS_PER_S"
    "status (rq s') = Hard_error \<longrightarrow> x = 0" "data = []"
proof -
  have "status (rq s') \<noteq> Cache_hit" using assms(2) by auto
  from assms(1) this obtain h y s1 where
    h: "cache_get (backend_of E) now (thumb_key s) (thumbnail_cache (tn s)) = (Inr None, h)"
    and o: "obtain_image E now (target_of s) (s\<lparr>tn := (tn s)\<lparr>thumbnail_cache := h\<rparr>\<rparr>) = (Inr y, s1)"
    and th: "thumbnail_cache (tn s1) = h"
    and y: "y = None \<longrightarrow> s' = s1 \<and> data = []" and st: "rq s' = rq s1"
    by (rule look_up_missE) (metis option.exhaust)
  let ?s = "s\<lparr>tn := (tn s)\<lparr>thumbnail_cache := h\<rparr>\<rparr>"
  have "status (rq s1) \<noteq> Scaled_from_fullsize" "status (rq s1) \<noteq> Cached_failure" using assms(2) st by auto
  from obtain_image_fetched [OF o this] obtain h2 h3 where
    full: "cache_get (backend_of E) now (key (rq s)) (full_size_cache (tn s)) = (Inr None, h2)"
    and fail: "cache_get (backend_of E) now (key (rq s)) (failure_cache (tn s)) = (Inr None, h3)"
    and fi: "fetch_image E now (target_of s) (?s\<lparr>tn := (tn ?s)\<lparr>full_size_cache := h2, failure_cache := h3\<rparr>\<rparr>) = (Inr y, s1)"
    by auto
  from fetch_image_failure [OF fi] assms(2) st obtain x b where
    "y = None" "cache_put (backend_of E) now (key (rq s)) [] x h3 = (Inr b, failure_cache (tn s1))"
    "x = 0 \<or> x = now + not_found_hours (tn s) * 3600 * NS_PER_S"
    "status (rq s1) = Hard_error \<longrightarrow> x = 0" "full_size_cache (tn s1) = h2"
    by auto
  then show ?thesis using that h full fail y st th by auto
qed

lemma still_missing:
  assumes "unexpired now e = None" and "now \<le> now'"
  shows "unexpired now' e = None"
  using assms by (auto simp: unexpired_def split: option.splits if_splits)



section \<open>The back-off gate\<close>

abbreviation bo :: "'w session \<Rightarrow> backoff" where
  "bo s \<equiv> backoff_of (tn s)"

definition is_remote :: "request_kind \<Rightarrow> bool" where
  "is_remote k = (case k of LocalThumbnailRequest _ _ \<Rightarrow> False | _ \<Rightarrow> True)"

lemma fetch_failed_location: "fetch_failed e d0 r = (Inr d, r') \<Longrightarrow> d = d0"
  by (simp add: fetch_failed_def split: if_splits)

lemma fetch_location: "fetch E ts r = (Inr d, r') \<Longrightarrow> id_location d = (if is_remote (kind r) then Remote else Local)"
  by (auto simp: fetch_def local_fetch_extracted_def local_fetch_file_def common_fetch_def Let_def is_remote_def
      ImageData_status_def ImageData_image_def
      split: request_kind.splits option.splits prod.splits sum.splits if_splits art_status.splits
      dest!: fetch_failed_location)

lemma leaves_bo [leaves_intros]:
  "leaves bo (on_rq m)" "leaves bo (set_request_status st)" "leaves bo (on_tn (on_thumbnail_cache m'))"
  "leaves bo (on_tn (on_full_size_cache m'))" "leaves bo (on_tn (on_failure_cache m'))"
  by (auto simp: leaves_def on_defs set_request_status_def split: prod.splits)

lemma leaves_bo_store [leaves_intros]: "leaves bo (store_full_size E now d)"
  unfolding store_full_size_def [abs_def] Let_def by (rule leaves_dep, intro leaves_intros)

text \<open>What one look-up can do to the back-off state.\<close>

definition bo_moves :: "int \<Rightarrow> bool \<Rightarrow> 'w session \<Rightarrow> 'w session \<Rightarrow> bool" where
  "bo_moves now remote s s' \<longleftrightarrow>
     bo s' = bo s \<or>
     (remote \<and> (bo s' = reset_backoff now (bo s) \<or>
                (status (rq s') = Temporary_error \<and> bo s' = snd (adjust_retry_limit now (bo s)))))"

lemma handle_fetch_status_bo:
  assumes "handle_fetch_status E now d s = (r, s')" and "status (rq s) = id_status d"
  shows "bo_moves now (id_location d = Remote) s s'"
  using assms
  by (cases "id_status d"; cases "id_location d";
      auto simp: handle_fetch_status_def Let_def act_bind_def put_failure_def reset_if_remote_def on_defs
        set_request_status_def bo_moves_def split: if_splits prod.splits sum.splits)

lemma bo_moves_trans1: "bo_moves now rem s s1 \<Longrightarrow> bo s2 = bo s1 \<Longrightarrow> status (rq s2) = status (rq s1) \<Longrightarrow> bo_moves now rem s s2"
  by (simp add: bo_moves_def)

lemma bo_moves_eq: "bo s0 = bo s \<Longrightarrow> bo_moves now rem s0 s' \<Longrightarrow> bo_moves now rem s s'"
  by (simp add: bo_moves_def)

lemma fetch_image_bo:
  assumes "fetch_image E now ts s = (r, s')"
  shows "bo_moves now (is_remote (kind (rq s))) s s'"
proof -
  obtain rf r1 where f: "fetch E ts (rq s) = (rf, r1)" by fastforce
  show ?thesis
  proof (cases rf)
    case (Inl e)
    with f assms show ?thesis
      by (auto simp: fetch_image_def act_bind_def on_defs bo_moves_def)
  next
    case (Inr d)
    let ?s = "s\<lparr>rq := r1\<lparr>status := id_status d\<rparr>\<rparr>"
    obtain rh s3 where h: "handle_fetch_status E now d ?s = (rh, s3)" by fastforce
    from handle_fetch_status_bo [OF h] fetch_location [OF f [unfolded Inr]]
    have m: "bo_moves now (is_remote (kind (rq s))) s s3"
      by (auto simp: bo_moves_def split: if_splits)
    let ?tail = "act_bind (store_full_size E now d) (\<lambda>img.
        act_bind (act_of (Image_scale (gdk_of E) (qscale_of E) ts img)) (\<lambda>scaled. act_ret (Some scaled)))"
    have lb: "leaves bo ?tail" and lr: "leaves rq ?tail"
      by (intro leaves_intros leaves_rq_store)+
    from assms f h Inr have "s' = s3 \<or> ?tail s3 = (r, s')"
      by (auto simp: fetch_image_def act_bind_def on_defs set_request_status_def split: sum.splits if_splits)
    then show ?thesis
      using m leavesD [OF lb] leavesD [OF lr] bo_moves_trans1 by metis
  qed
qed

lemma obtain_image_bo:
  assumes "obtain_image E now ts s = (r, s')"
  shows "bo_moves now (is_remote (kind (rq s))) s s'"
proof -
  have same: "bo s' = bo s \<Longrightarrow> ?thesis" by (simp add: bo_moves_def)
  obtain r1 h1 where g: "cache_get (backend_of E) now (key (rq s)) (full_size_cache (tn s)) = (r1, h1)" by fastforce
  obtain r2 h2 where f: "cache_get (backend_of E) now (key (rq s)) (failure_cache (tn s)) = (r2, h2)" by fastforce
  let ?s = "s\<lparr>tn := (tn s)\<lparr>full_size_cache := h1, failure_cache := h2\<rparr>\<rparr>"
  have "bo s' = bo s \<or> fetch_image E now ts ?s = (r, s')"
    using assms g f
    by (cases r1; cases r2)
      (auto simp: obtain_image_def Let_def act_bind_def on_defs set_request_status_def
        split: option.splits sum.splits)
  then show ?thesis
  proof
    assume "fetch_image E now ts ?s = (r, s')"
    from fetch_image_bo [OF this] show ?thesis by (simp add: bo_moves_def)
  qed (rule same)
qed

lemma look_up_bo:
  assumes "look_up E now s = (r, s')"
  shows "bo_moves now (is_remote (kind (rq s))) s s'"
proof (cases "isValid (requested_size (rq s))")
  case False
  with assms show ?thesis by (auto simp: look_up_def Let_def bo_moves_def)
next
  case True
  obtain r1 h where g: "cache_get (backend_of E) now (thumb_key s) (thumbnail_cache (tn s)) = (r1, h)" by fastforce
  let ?s = "s\<lparr>tn := (tn s)\<lparr>thumbnail_cache := h\<rparr>\<rparr>"
  obtain r2 s2 where o: "obtain_image E now (target_of s) ?s = (r2, s2)" by fastforce
  have m: "bo_moves now (is_remote (kind (rq s))) s s2"
    using obtain_image_bo [OF o] by (simp add: bo_moves_def)
  have "bo s' = bo s \<or> (bo s' = bo s2 \<and> status (rq s') = status (rq s2))"
    using assms True g o
    by (cases r1; cases r2)
      (auto simp: look_up_def Let_def act_bind_def on_defs set_request_status_def act_of_def
        split: option.splits sum.splits prod.splits)
  with m show ?thesis using bo_moves_trans1 by (auto simp: bo_moves_def)
qed

text \<open>
  C21. The back-off state belongs to the remote server alone. A look-up for a local file never changes
  it, whatever its outcome; a look-up for remote art leaves it alone, resets it after an authoritative
  answer, or extends it after a temporary error, and in each case keeps it well-formed.
\<close>

theorem backoff_only_for_remote:
  assumes "thumbnail E now s = (r, s')" and "wf_backoff (bo s)"
  shows "(bo s' = bo s \<or>
            (is_remote (kind (rq s)) \<and>
               (bo s' = reset_backoff now (bo s) \<or>
                (status (rq s') = Temporary_error \<and> bo s' = snd (adjust_retry_limit now (bo s)))))) \<and>
         wf_backoff (bo s')"
proof -
  obtain r0 where "look_up E now s = (r0, s')"
    using assms(1) by (auto simp: thumbnail_def act_catch_def split: prod.splits sum.splits if_splits)
  from look_up_bo [OF this] wf_reset_backoff [OF assms(2), of now] wf_adjust_retry_limit [OF assms(2), of now] assms(2)
  show ?thesis by (auto simp: bo_moves_def)
qed

theorem backoff_only_for_remote_witness:
  "\<exists>s'. thumbnail sample_env 5 (sample_session ''/p'') = (Inr ''jpeg'', s') \<and> bo s' = BackoffAdjuster"
proof -
  obtain s' where s': "thumbnail sample_env 5 (sample_session ''/p'') = (Inr ''jpeg'', s')"
    using sample_run by blast
  have "bo (sample_session ''/p'') = BackoffAdjuster" "\<not> is_remote (kind (rq (sample_session ''/p'')))"
    by (simp_all add: sample_session_def sample_thumbnailer_def sample_request_def RequestBase_def is_remote_def)
  with backoff_only_for_remote [OF s'] wf_BackoffAdjuster s' show ?thesis by auto
qed

text \<open>
  C13. The gate in front of the server: a remote request that is in none of the caches is told to
  download only when the back-off period has run out; otherwise it ends with \<open>temporary_error\<close>. In both
  cases nothing is returned, cached or counted as a failure.
\<close>

theorem remote_request_gate:
  assumes "healthy_backend (backend_of E) ok content roomy"
    and "\<forall>h \<in> {thumbnail_cache (tn s), full_size_cache (tn s), failure_cache (tn s)}. is_open h \<and> ok (store h)"
    and "kind (rq s) \<in> {AlbumRequest artist album None, ArtistRequest artist album None}" and "isValid (requested_size (rq s))"
    and "unexpired now (content (store (thumbnail_cache (tn s))) (thumb_key s)) = None"
    and "unexpired now (content (store (full_size_cache (tn s))) (key (rq s))) = None"
    and "unexpired now (content (store (failure_cache (tn s))) (key (rq s))) = None"
  shows "\<exists>s'. thumbnail E now s = (Inr [], s') \<and>
           status (rq s') = (if retry_ok now (bo s) then Needs_download else Temporary_error) \<and> bo s' = bo s \<and>
           content (store (thumbnail_cache (tn s'))) = content (store (thumbnail_cache (tn s))) \<and>
           content (store (full_size_cache (tn s'))) = content (store (full_size_cache (tn s))) \<and>
           content (store (failure_cache (tn s'))) = content (store (failure_cache (tn s)))"
proof -
  note get = string_cache.get_law [OF helper_string_cache [OF assms(1)]]
  obtain c1 where c1: "cache_get (backend_of E) now (thumb_key s) (thumbnail_cache (tn s)) = (Inr None, c1)"
    "content (store c1) = content (store (thumbnail_cache (tn s)))"
    using get [of "thumbnail_cache (tn s)" now "thumb_key s"] assms(2,5) by auto
  obtain c2 where c2: "cache_get (backend_of E) now (key (rq s)) (full_size_cache (tn s)) = (Inr None, c2)"
    "content (store c2) = content (store (full_size_cache (tn s)))"
    using get [of "full_size_cache (tn s)" now "key (rq s)"] assms(2,6) by auto
  obtain c3 where c3: "cache_get (backend_of E) now (key (rq s)) (failure_cache (tn s)) = (Inr None, c3)"
    "content (store c3) = content (store (failure_cache (tn s)))"
    using get [of "failure_cache (tn s)" now "key (rq s)"] assms(2,7) by auto
  have "fetch E ts (rq s) = (Inr (ImageData_status Needs_download Cache_fullsize Remote), rq s)" for ts
    using assms(3) by (auto simp: fetch_def common_fetch_def)
  with c1 c2 c3 assms(4) show ?thesis
    by (simp add: thumbnail_Inr look_up_def obtain_image_def fetch_image_def handle_fetch_status_def ImageData_status_def
        Let_def act_bind_def on_defs set_request_status_def)
qed

theorem remote_request_gate_witness:
  "\<exists>s'. thumbnail sample_env 9
          \<lparr>rq = new_album_request ''a'' ''b'' (QSize 10 10) 10000,
           tn = sample_thumbnailer\<lparr>backoff_of := snd (adjust_retry_limit 5 BackoffAdjuster)\<rparr>\<rparr> = (Inr [], s') \<and>
        status (rq s') = Temporary_error"
proof -
  let ?s = "\<lparr>rq = new_album_request ''a'' ''b'' (QSize 10 10) 10000,
             tn = sample_thumbnailer\<lparr>backoff_of := snd (adjust_retry_limit 5 BackoffAdjuster)\<rparr>\<rparr>"
  have "healthy_backend (backend_of sample_env) (\<lambda>w. \<not> fst w) (\<lambda>w. map_of (snd w)) (\<lambda>k v. True)"
    by (simp add: mem_backend_healthy)
  from remote_request_gate [OF this, of ?s "''a''" "''b''" 9]
  show ?thesis
    by (auto simp: sample_thumbnailer_def mem_helper_def new_album_request_def RequestBase_def isValid_def
        retry_ok_def adjust_retry_limit_def BackoffAdjuster_def deadline_def NS_PER_S_def)
qed

end
