(* ===== verification/Thumbnailer_Lifecycle.thy ===== *)
theory Thumbnailer_Lifecycle
  imports Thumbnailer_Lookup
begin

text \<open>
  Start-up, shut-down and administration of class \<open>Thumbnailer\<close> (\<open>src/thumbnailer.cpp\<close>, from the
  constructor to the end of the file): opening and configuring the caches, restoring and saving the
  back-off state, acting on a new cache version, statistics, clearing and compacting.
\<close>

section \<open>Selecting caches\<close>

text \<open>\<open>CacheSelector\<close>, with the end marker \<open>LAST__\<close> as \<open>Sel_last\<close>.\<close>

datatype cache_selector = Sel_all | Sel_full_size_cache | Sel_thumbnail_cache | Sel_failure_cache | Sel_last

datatype cache_id = Full_size | Thumbs | Failures

definition select_caches :: "cache_selector \<Rightarrow> cache_id list" where
  "select_caches selector =
     (case selector of
        Sel_full_size_cache \<Rightarrow> [Full_size]
      | Sel_thumbnail_cache \<Rightarrow> [Thumbs]
      | Sel_failure_cache \<Rightarrow> [Failures]
      | _ \<Rightarrow> [Full_size, Thumbs, Failures])"

definition cache_name :: "cache_selector \<Rightarrow> string" where
  "cache_name selector =
     (case selector of
        Sel_full_size_cache \<Rightarrow> ''image cache''
      | Sel_thumbnail_cache \<Rightarrow> ''thumbnail cache''
      | Sel_failure_cache \<Rightarrow> ''failure cache''
      | _ \<Rightarrow> ''all caches'')"

fun on_cache :: "cache_id \<Rightarrow> ('w helper, 'a) act \<Rightarrow> ('w thumbnailer, 'a) act" where
  "on_cache Full_size m = on_full_size_cache m"
| "on_cache Thumbs m = on_thumbnail_cache m"
| "on_cache Failures m = on_failure_cache m"

fun get_cache :: "cache_id \<Rightarrow> 'w thumbnailer \<Rightarrow> 'w helper" where
  "get_cache Full_size t = full_size_cache t"
| "get_cache Thumbs t = thumbnail_cache t"
| "get_cache Failures t = failure_cache t"

fun for_caches :: "cache_id list \<Rightarrow> ('w helper, unit) act \<Rightarrow> ('w thumbnailer, unit) act" where
  "for_caches [] m = act_ret ()"
| "for_caches (c # cs) m = act_bind (on_cache c m) (\<lambda>_. for_caches cs m)"

section \<open>Administration\<close>

definition clear_stats :: "('p, 'l, 'w) env \<Rightarrow> cache_selector \<Rightarrow> ('w thumbnailer, unit) act" where
  "clear_stats E selector = for_caches (select_caches selector) (cache_clear_stats (backend_of E))"

definition clear :: "('p, 'l, 'w) env \<Rightarrow> cache_selector \<Rightarrow> ('w thumbnailer, unit) act" where
  "clear E selector =
     act_bind (for_caches (select_caches selector) (cache_invalidate (backend_of E))) (\<lambda>_ t.
     if selector = Sel_failure_cache \<or> selector = Sel_all
     then (case set_backoff_period 0 (set_last_fail_time 0 (backoff_of t)) of
             Inl e \<Rightarrow> (Inl e, t\<lparr>backoff_of := set_last_fail_time 0 (backoff_of t)\<rparr>)
           | Inr b \<Rightarrow> (Inr (), t\<lparr>backoff_of := b\<rparr>))
     else (Inr (), t))"

definition compact :: "('p, 'l, 'w) env \<Rightarrow> cache_selector \<Rightarrow> ('w thumbnailer, unit) act" where
  "compact E selector = for_caches (select_caches selector) (cache_compact (backend_of E))"

record all_stats =
  full_size_stats :: cache_stats
  thumbnail_stats :: cache_stats
  failure_stats :: cache_stats

definition stats :: "('p, 'l, 'w) env \<Rightarrow> ('w thumbnailer, all_stats) act" where
  "stats E =
     act_bind (on_full_size_cache (cache_stats_of (backend_of E))) (\<lambda>f.
     act_bind (on_thumbnail_cache (cache_stats_of (backend_of E))) (\<lambda>t.
     act_bind (on_failure_cache (cache_stats_of (backend_of E))) (\<lambda>x.
     act_ret \<lparr>full_size_stats = f, thumbnail_stats = t, failure_stats = x\<rparr>)))"

section \<open>Start-up\<close>

definition LAST_NETWORK_FAIL_TIME_KEY :: string where
  "LAST_NETWORK_FAIL_TIME_KEY = ''/*** LAST_NETWORK_FAIL_TIME ***/''"

definition BACKOFF_PERIOD_KEY :: string where
  "BACKOFF_PERIOD_KEY = ''/*** BACKOFF_PERIOD ***/''"

text \<open>A cache size in bytes, computed in \<open>int\<close>.\<close>

definition cache_bytes :: "int \<Rightarrow> int" where
  "cache_bytes megabytes = int32 (int32 (megabytes * 1024) * 1024)"

definition open_cache :: "('p, 'l, 'w) env \<Rightarrow> string \<Rightarrow> int result \<Rightarrow> discard_policy \<Rightarrow> ('w helper, unit) act" where
  "open_cache E cache_path megabytes pol h =
     act_bind (act_of megabytes) (\<lambda>mb h. CacheHelper (backend_of E) cache_path (cache_bytes mb) pol (store h)) h"

definition open_caches :: "('p, 'l, 'w) env \<Rightarrow> settings \<Rightarrow> string \<Rightarrow> ('w thumbnailer, unit) act" where
  "open_caches E S cache_dir =
     act_bind (on_full_size_cache (open_cache E (cache_dir @ ''/images'') (full_size_cache_size S) Lru_only)) (\<lambda>_.
     act_bind (on_thumbnail_cache (open_cache E (cache_dir @ ''/thumbnails'') (thumbnail_cache_size S) Lru_only)) (\<lambda>_.
     on_failure_cache (open_cache E (cache_dir @ ''/failures'') (failure_cache_size S) Lru_ttl)))"

definition on_backoff :: "(backoff \<Rightarrow> backoff result) \<Rightarrow> ('w thumbnailer, unit) act" where
  "on_backoff f t = (case f (backoff_of t) of Inl e \<Rightarrow> (Inl e, t) | Inr b \<Rightarrow> (Inr (), t\<lparr>backoff_of := b\<rparr>))"

definition configure :: "settings \<Rightarrow> ('w thumbnailer, unit) act" where
  "configure S =
     act_bind (act_of (max_thumbnail_size S)) (\<lambda>m.
     act_bind (act_modify (\<lambda>t. t\<lparr>max_size := m\<rparr>)) (\<lambda>_.
     act_bind (act_of (retry_not_found_hours S)) (\<lambda>h.
     act_bind (act_modify (\<lambda>t. t\<lparr>not_found_hours := h\<rparr>)) (\<lambda>_.
     act_bind (act_of (extraction_timeout S)) (\<lambda>secs.
     act_bind (act_modify (\<lambda>t. t\<lparr>extraction_timeout_msec := int32 (secs * 1000)\<rparr>)) (\<lambda>_.
     act_bind (on_backoff (set_min_backoff (int32 (secs * 2)))) (\<lambda>_.
     act_bind (act_of (retry_error_max_seconds S)) (\<lambda>max_secs.
     on_backoff (set_max_backoff max_secs)))))))))"

text \<open>The stored number under a key, if there is one. Dereferencing an empty \<open>Optional\<close> is an assertion failure.\<close>

definition stored_number :: "('p, 'l, 'w) env \<Rightarrow> int \<Rightarrow> string \<Rightarrow> ('w thumbnailer, int option) act" where
  "stored_number E now k =
     act_bind (on_failure_cache (cache_contains_key (backend_of E) now k)) (\<lambda>there.
     if \<not> there then act_ret None
     else act_bind (on_failure_cache (cache_get (backend_of E) now k)) (\<lambda>v.
          act_bind (act_of (case v of None \<Rightarrow> Inl (Assertion ''core::Optional'') | Some text \<Rightarrow> stoll text)) (\<lambda>n.
          act_ret (Some n))))"

definition restore_backoff :: "('p, 'l, 'w) env \<Rightarrow> int \<Rightarrow> ('w thumbnailer, unit) act" where
  "restore_backoff E now =
     act_bind (stored_number E now LAST_NETWORK_FAIL_TIME_KEY) (\<lambda>fail_secs.
     act_bind (case fail_secs of
                 None \<Rightarrow> act_ret ()
               | Some n \<Rightarrow> act_modify (\<lambda>t. t\<lparr>backoff_of := set_last_fail_time (n * NS_PER_S) (backoff_of t)\<rparr>)) (\<lambda>_.
     act_bind (stored_number E now BACKOFF_PERIOD_KEY) (\<lambda>period.
     case period of None \<Rightarrow> act_ret () | Some n \<Rightarrow> on_backoff (set_backoff_period n))))"

definition apply_upgrade_actions :: "('p, 'l, 'w) env \<Rightarrow> release \<Rightarrow> files \<Rightarrow> string \<Rightarrow> ('w thumbnailer, unit) act" where
  "apply_upgrade_actions E V fs cache_dir =
     (if prev_cache_version (Version V fs cache_dir) \<noteq> cache_version V then clear E Sel_all else act_ret ())"

definition closed_cache :: "'w \<Rightarrow> 'w helper" where
  "closed_cache w = \<lparr>h_path = [], h_max_bytes = 0, h_policy = Lru_only, is_open = False, store = w\<rparr>"

definition cannot_instantiate :: "exn \<Rightarrow> ('s, 'a) act" where
  "cannot_instantiate e = act_throw (Runtime_error (''Thumbnailer(): Cannot instantiate cache: '' @ what e))"

text \<open>
  The constructor. \<open>images\<close>, \<open>thumbs\<close> and \<open>fails\<close> are the data of the three cache directories; the result also
  has the files, because the \<open>Version\<close> object of \<open>apply_upgrade_actions\<close> writes its files when it goes out
  of scope.
\<close>

definition Thumbnailer ::
  "('p, 'l, 'w) env \<Rightarrow> settings \<Rightarrow> release \<Rightarrow> (string \<Rightarrow> bool) \<Rightarrow> string \<Rightarrow> int \<Rightarrow> 'w \<times> 'w \<times> 'w \<Rightarrow> files \<Rightarrow>
   unit result \<times> 'w thumbnailer \<times> files" where
  "Thumbnailer E S V writable xdg_base now stores fs =
     (let cache_dir = xdg_base @ ''/unity-thumbnailer'';
          (images, thumbs, fails) = stores;
          t0 = \<lparr>full_size_cache = closed_cache images, thumbnail_cache = closed_cache thumbs,
                failure_cache = closed_cache fails, max_size = 0, not_found_hours = 0, extraction_timeout_msec = 0,
                downloader_key = UbuntuServerDownloader S, backoff_of = BackoffAdjuster\<rparr>
      in case act_catch (act_bind (open_caches E S cache_dir) (\<lambda>_.
                         act_bind (configure S) (\<lambda>_.
                         restore_backoff E now))) cannot_instantiate t0 of
           (Inl e, t) \<Rightarrow> (Inl e, t, fs)
         | (Inr _, t) \<Rightarrow>
             (case act_catch (apply_upgrade_actions E V fs cache_dir) cannot_instantiate t of
                (r, t') \<Rightarrow> (r, t', Version_destroy V writable (Version V fs cache_dir) fs)))"

section \<open>Shut-down\<close>

text \<open>\<open>duration_cast\<close> to seconds rounds towards zero.\<close>

definition to_seconds :: "int \<Rightarrow> int" where
  "to_seconds ns = (if ns < 0 then - ((- ns) div NS_PER_S) else ns div NS_PER_S)"

definition Thumbnailer_destroy :: "('p, 'l, 'w) env \<Rightarrow> int \<Rightarrow> ('w thumbnailer, unit) act" where
  "Thumbnailer_destroy E now t0 =
     act_catch
       (act_bind (on_failure_cache (cache_put (backend_of E) now LAST_NETWORK_FAIL_TIME_KEY
                   (int_to_string (to_seconds (last_fail_time (backoff_of t0)))) 0)) (\<lambda>_.
        act_bind (on_failure_cache (cache_put (backend_of E) now BACKOFF_PERIOD_KEY
                   (int_to_string (backoff_period (backoff_of t0))) 0)) (\<lambda>_.
        act_ret ())))
       (\<lambda>e. act_ret ()) t0"

section \<open>Shared facts\<close>

definition caches_ok :: "('w \<Rightarrow> bool) \<Rightarrow> 'w thumbnailer \<Rightarrow> bool" where
  "caches_ok ok t \<longleftrightarrow> (\<forall>c. is_open (get_cache c t) \<and> ok (store (get_cache c t)))"

abbreviation contents :: "('w \<Rightarrow> string \<Rightarrow> (string \<times> int) option) \<Rightarrow> cache_id \<Rightarrow> 'w thumbnailer \<Rightarrow> string \<Rightarrow> (string \<times> int) option" where
  "contents content c t \<equiv> content (store (get_cache c t))"

lemma on_cache_step:
  assumes "m (get_cache c t) = (r, h)" and "on_cache c m t = (r', t')"
  shows "r' = r" and "get_cache c t' = h" and "\<And>c'. c' \<noteq> c \<Longrightarrow> get_cache c' t' = get_cache c' t"
    and "backoff_of t' = backoff_of t" and "max_size t' = max_size t"
proof -
  have *: "r' = r \<and> get_cache c t' = h \<and> (\<forall>c'. c' \<noteq> c \<longrightarrow> get_cache c' t' = get_cache c' t) \<and>
      backoff_of t' = backoff_of t \<and> max_size t' = max_size t"
  proof (intro conjI allI)
    fix c'
    show "c' \<noteq> c \<longrightarrow> get_cache c' t' = get_cache c' t"
      using assms by (cases c; cases c') (auto simp: on_defs)
  qed (use assms in \<open>cases c; auto simp: on_defs\<close>)+
  then show "r' = r" and "get_cache c t' = h" and "\<And>c'. c' \<noteq> c \<Longrightarrow> get_cache c' t' = get_cache c' t"
    and "backoff_of t' = backoff_of t" and "max_size t' = max_size t" by auto
qed

lemma for_caches_invalidate:
  assumes "healthy_backend B ok content roomy" and "caches_ok ok t" and "distinct cs"
  shows "\<exists>t'. for_caches cs (cache_invalidate B) t = (Inr (), t') \<and> caches_ok ok t' \<and> backoff_of t' = backoff_of t \<and>
           (\<forall>c. contents content c t' = (if c \<in> set cs then (\<lambda>_. None) else contents content c t))"
  using assms(2,3)
proof (induction cs arbitrary: t)
  case Nil
  then show ?case by simp
next
  case (Cons c cs)
  obtain h where h: "cache_invalidate B (get_cache c t) = (Inr (), h)" "is_open h \<and> ok (store h)" "content (store h) = (\<lambda>_. None)"
    using string_cache.invalidate_law [OF helper_string_cache [OF assms(1)], of "get_cache c t"] Cons.prems(1)
    by (auto simp: caches_ok_def)
  obtain r1 t1 where t1: "on_cache c (cache_invalidate B) t = (r1, t1)" by fastforce
  note step = on_cache_step [OF h(1) t1]
  have ok1: "caches_ok ok t1"
    using Cons.prems(1) h(2) step(2,3) unfolding caches_ok_def by metis
  from Cons.IH [OF ok1] Cons.prems(2) obtain t' where t': "for_caches cs (cache_invalidate B) t1 = (Inr (), t')"
    "caches_ok ok t'" "backoff_of t' = backoff_of t1"
    "\<forall>c. contents content c t' = (if c \<in> set cs then (\<lambda>_. None) else contents content c t1)"
    by auto
  have "for_caches (c # cs) (cache_invalidate B) t = (Inr (), t')"
    using t1 step(1) t'(1) by (simp add: act_bind_def)
  moreover have "contents content d t' = (if d \<in> set (c # cs) then (\<lambda>_. None) else contents content d t)" for d
    using t'(4) step(2,3) h(3) by (cases "d = c") auto
  ultimately show ?case using t'(2,3) step(4) by auto
qed

lemma clear_effect:
  assumes "healthy_backend (backend_of E) ok content roomy" and "caches_ok ok t" and "0 \<le> max_backoff (backoff_of t)"
  shows "\<exists>t'. clear E sel t = (Inr (), t') \<and> caches_ok ok t' \<and>
           (\<forall>c. contents content c t' = (if c \<in> set (select_caches sel) then (\<lambda>_. None) else contents content c t)) \<and>
           backoff_of t' = (if sel \<in> {Sel_all, Sel_failure_cache}
                            then (backoff_of t)\<lparr>last_fail_time := 0, backoff_period := 0\<rparr> else backoff_of t)"
proof -
  have "distinct (select_caches sel)" by (cases sel) (simp_all add: select_caches_def)
  from for_caches_invalidate [OF assms(1,2) this] obtain t1 where
    t1: "for_caches (select_caches sel) (cache_invalidate (backend_of E)) t = (Inr (), t1)" "caches_ok ok t1"
      "backoff_of t1 = backoff_of t"
      "\<forall>c. contents content c t1 = (if c \<in> set (select_caches sel) then (\<lambda>_. None) else contents content c t)"
    by auto
  have get: "get_cache c (t1\<lparr>backoff_of := b\<rparr>) = get_cache c t1" for c b by (cases c) simp_all
  have p: "set_backoff_period 0 (set_last_fail_time 0 (backoff_of t)) =
      Inr ((backoff_of t)\<lparr>last_fail_time := 0, backoff_period := 0\<rparr>)"
    using assms(3) by (simp add: set_backoff_period_def set_last_fail_time_def)
  show ?thesis
  proof (cases "sel \<in> {Sel_all, Sel_failure_cache}")
    case True
    with t1 p get show ?thesis
      by (intro exI [of _ "t1\<lparr>backoff_of := (backoff_of t)\<lparr>last_fail_time := 0, backoff_period := 0\<rparr>\<rparr>"])
        (auto simp: clear_def act_bind_def caches_ok_def)
  next
    case False
    with t1 show ?thesis by (auto simp: clear_def act_bind_def)
  qed
qed

lemma stored_number_result:
  assumes "healthy_backend (backend_of E) ok content roomy" and "is_open (failure_cache t) \<and> ok (store (failure_cache t))"
  shows "\<exists>t'. stored_number E now k t =
           (case unexpired now (contents content Failures t k) of
              None \<Rightarrow> Inr None
            | Some text \<Rightarrow> (case stoll text of Inl e \<Rightarrow> Inl e | Inr n \<Rightarrow> Inr (Some n)), t') \<and>
           (\<exists>h. t' = t\<lparr>failure_cache := h\<rparr> \<and> is_open h \<and> ok (store h) \<and> content (store h) = contents content Failures t)"
proof -
  note C = helper_string_cache [OF assms(1)]
  obtain h1 where h1: "cache_contains_key (backend_of E) now k (failure_cache t) =
      (Inr (unexpired now (contents content Failures t k) \<noteq> None), h1)" "is_open h1 \<and> ok (store h1)"
      "content (store h1) = contents content Failures t"
    using string_cache.contains_law [OF C assms(2)] by auto
  obtain h2 where h2: "cache_get (backend_of E) now k h1 = (Inr (unexpired now (contents content Failures t k)), h2)"
      "is_open h2 \<and> ok (store h2)" "content (store h2) = contents content Failures t"
    using string_cache.get_law [OF C h1(2), of now k] h1(3) by auto
  show ?thesis
  proof (cases "unexpired now (contents content Failures t k)")
    case None
    with h1 show ?thesis
      by (simp add: stored_number_def act_bind_def on_defs) blast
  next
    case (Some v)
    with h1 h2 show ?thesis
      by (cases "stoll v") (simp_all add: stored_number_def act_bind_def on_defs, blast+)
  qed
qed

section \<open>Properties\<close>

text \<open>
  Clearing caches: every selected cache is empty afterwards, every other cache is untouched, and
  the back-off state is reset exactly when the failure cache is selected (alone or with all caches), so
  that the next remote request is allowed at once.
\<close>

theorem clear_selected_caches:
  assumes "healthy_backend (backend_of E) ok content roomy" and "caches_ok ok t" and "wf_backoff (backoff_of t)"
  shows "\<exists>t'. clear E sel t = (Inr (), t') \<and>
           (\<forall>c. contents content c t' = (if c \<in> set (select_caches sel) then (\<lambda>_. None) else contents content c t)) \<and>
           (sel \<in> {Sel_all, Sel_failure_cache} \<longrightarrow> (\<forall>now. retry_ok now (backoff_of t'))) \<and>
           (sel \<notin> {Sel_all, Sel_failure_cache} \<longrightarrow> backoff_of t' = backoff_of t)"
proof -
  have "0 \<le> max_backoff (backoff_of t)" using assms(3) by (auto simp: wf_backoff_def)
  from clear_effect [OF assms(1,2) this, of sel] show ?thesis by (auto simp: retry_ok_def)
qed

lemma sample_caches_ok: "caches_ok (\<lambda>w. \<not> fst w) sample_thumbnailer"
  unfolding caches_ok_def
proof
  show "is_open (get_cache c sample_thumbnailer) \<and> \<not> fst (store (get_cache c sample_thumbnailer))" for c
    by (cases c) (simp_all add: sample_thumbnailer_def mem_helper_def)
qed

theorem clear_selected_caches_witness:
  "\<exists>t'. clear sample_env Sel_failure_cache (sample_thumbnailer\<lparr>backoff_of := snd (adjust_retry_limit 5 BackoffAdjuster)\<rparr>) =
          (Inr (), t') \<and> retry_ok 6 (backoff_of t')"
proof -
  let ?t = "sample_thumbnailer\<lparr>backoff_of := snd (adjust_retry_limit 5 BackoffAdjuster)\<rparr>"
  have "get_cache c ?t = get_cache c sample_thumbnailer" for c by (cases c) simp_all
  then have "caches_ok (\<lambda>w. \<not> fst w) ?t" using sample_caches_ok by (simp add: caches_ok_def)
  moreover have "healthy_backend (backend_of sample_env) (\<lambda>w. \<not> fst w) (\<lambda>w. map_of (snd w)) (\<lambda>k v. True)"
    by (simp add: mem_backend_healthy)
  moreover have "wf_backoff (backoff_of ?t)" by (simp add: wf_adjust_retry_limit wf_BackoffAdjuster)
  ultimately obtain t' where "clear sample_env Sel_failure_cache ?t = (Inr (), t')" "\<forall>now. retry_ok now (backoff_of t')"
    using clear_selected_caches [of sample_env "\<lambda>w. \<not> fst w" "\<lambda>w. map_of (snd w)" "\<lambda>k v. True" ?t Sel_failure_cache]
    by blast
  then show ?thesis by blast
qed



text \<open>
  Start-up and the retry settings (without overflow). With \<open>retry_error_max_seconds\<close> at its least
  permitted value of twice the extraction timeout, configuring the back-off adjuster fails an assertion:
  it asks for a maximum of at least twice the minimum, and the minimum itself is twice the timeout.
  Configuration succeeds, with a well-formed adjuster, exactly from four times the timeout on.
\<close>

theorem configure_backoff_limits:
  assumes "max_thumbnail_size S = Inr m" and "retry_not_found_hours S = Inr h" and "extraction_timeout S = Inr secs"
    and "retry_error_max_seconds S = Inr max_secs" and "2 * secs \<le> INT_MAX" and "0 < max_secs"
    and "backoff_of t = BackoffAdjuster"
  shows "fst (configure S t) =
           (if 4 * secs \<le> max_secs then Inr () else Inl (Assertion ''max_backoff.count() >= 2 * min_backoff_.count()'')) \<and>
         (4 * secs \<le> max_secs \<longrightarrow>
            wf_backoff (backoff_of (snd (configure S t))) \<and> min_backoff (backoff_of (snd (configure S t))) = 2 * secs \<and>
            max_backoff (backoff_of (snd (configure S t))) = max_secs)"
proof -
  have "0 < secs" using assms(3) by (rule positive_settings)
  then have "int32 (secs * 2) = 2 * secs" using assms(5) by (simp add: in_int_def INT_MIN_def mult.commute)
  with assms \<open>0 < secs\<close> show ?thesis
    by (auto simp: configure_def act_bind_def on_backoff_def set_min_backoff_def set_max_backoff_def wf_backoff_def
        BackoffAdjuster_def)
qed

theorem configure_backoff_limits_witness:
  "fst (configure (sample_settings\<lparr>dflt := sample_defaults\<lparr>RETRY_ERROR_HOURS_DEFAULT := 1, EXTRACTION_TIMEOUT_DEFAULT := 1000\<rparr>\<rparr>)
          sample_thumbnailer) = Inl (Assertion ''max_backoff.count() >= 2 * min_backoff_.count()'')"
proof -
  let ?S = "sample_settings\<lparr>dflt := sample_defaults\<lparr>RETRY_ERROR_HOURS_DEFAULT := 1, EXTRACTION_TIMEOUT_DEFAULT := 1000\<rparr>\<rparr>"
  have "max_thumbnail_size ?S = Inr 1920" "retry_not_found_hours ?S = Inr 168" "extraction_timeout ?S = Inr 1000"
    "retry_error_max_seconds ?S = Inr 3600"
    by (simp_all add: positive_setting_defs retry_error_max_seconds_def get_positive_int_def sample_settings_simps
        int32_def)
  moreover have "backoff_of sample_thumbnailer = BackoffAdjuster" by (simp add: sample_thumbnailer_def)
  ultimately show ?thesis
    using configure_backoff_limits [of ?S 1920 168 1000 3600 sample_thumbnailer] by (simp add: INT_MAX_def)
qed

text \<open>
  Cache sizes: the configured number of megabytes reaches the cache unchanged exactly up to 2047;
  from 2048 on the multiplication in \<open>int\<close> overflows.
\<close>

theorem cache_bytes_exact:
  assumes "0 < mb" and "mb \<le> INT_MAX"
  shows "cache_bytes mb = mb * 1024 * 1024 \<longleftrightarrow> mb \<le> 2047"
proof
  assume "cache_bytes mb = mb * 1024 * 1024"
  then have "in_int (mb * 1024 * 1024)" using in_int_int32 unfolding cache_bytes_def by metis
  then show "mb \<le> 2047" by (simp add: in_int_def INT_MAX_def)
next
  assume "mb \<le> 2047"
  with assms have "in_int (mb * 1024)" "in_int (mb * 1024 * 1024)"
    by (auto simp: in_int_def INT_MIN_def INT_MAX_def)
  then show "cache_bytes mb = mb * 1024 * 1024" by (simp add: cache_bytes_def)
qed

theorem cache_bytes_exact_witness: "cache_bytes 2047 = 2146435072 \<and> cache_bytes 2048 \<noteq> 2147483648"
  using cache_bytes_exact [of 2047] cache_bytes_exact [of 2048] by (simp add: INT_MAX_def)

text \<open>
  A changed cache version empties all three caches, and does so once: with the version files that
  this start leaves behind, the next start changes nothing.
\<close>

theorem upgrade_wipes_once:
  assumes "healthy_backend (backend_of E) ok content roomy" and "caches_ok ok t" and "wf_backoff (backoff_of t)"
    and "release_in_int V" and "\<forall>f. writable f"
    and "prev_cache_version (Version V fs dir) \<noteq> cache_version V"
    and "fs' = Version_destroy V writable (Version V fs dir) fs"
  shows "(\<exists>t'. apply_upgrade_actions E V fs dir t = (Inr (), t') \<and> (\<forall>c. contents content c t' = (\<lambda>_. None))) \<and>
         apply_upgrade_actions E V fs' dir u = (Inr (), u)"
proof -
  have "0 \<le> max_backoff (backoff_of t)" using assms(3) by (auto simp: wf_backoff_def)
  from clear_effect [OF assms(1,2) this, of Sel_all] obtain t' where
    "clear E Sel_all t = (Inr (), t')"
    "\<forall>c. contents content c t' = (if c \<in> set (select_caches Sel_all) then (\<lambda>_. None) else contents content c t)"
    by blast
  moreover have "c \<in> set (select_caches Sel_all)" for c by (cases c) (simp_all add: select_caches_def)
  moreover have "prev_cache_version (Version V fs' dir) = cache_version V"
    by (rule Version_after_destroy [OF assms(4) _ _ assms(7)]) (use assms(5) in auto)
  ultimately show ?thesis
    using assms(6) by (auto simp: apply_upgrade_actions_def)
qed

theorem upgrade_wipes_once_witness:
  "apply_upgrade_actions sample_env \<lparr>major = 2, minor = 4, micro = 0, cache_version = 3\<rparr>
     (Version_destroy \<lparr>major = 2, minor = 4, micro = 0, cache_version = 3\<rparr> (\<lambda>_. True)
        (Version \<lparr>major = 2, minor = 4, micro = 0, cache_version = 3\<rparr> (\<lambda>_. None) ''/c'') (\<lambda>_. None))
     ''/c'' sample_thumbnailer = (Inr (), sample_thumbnailer)"
proof -
  let ?V = "\<lparr>major = 2, minor = 4, micro = 0, cache_version = 3\<rparr> :: release"
  have "healthy_backend (backend_of sample_env) (\<lambda>w. \<not> fst w) (\<lambda>w. map_of (snd w)) (\<lambda>k v. True)"
    by (simp add: mem_backend_healthy)
  from upgrade_wipes_once [OF this sample_caches_ok, of ?V "\<lambda>_. True" "\<lambda>_. None" "''/c''" _ sample_thumbnailer]
  show ?thesis
    by (simp add: sample_thumbnailer_def wf_BackoffAdjuster release_in_int_def in_int_def INT_MIN_def INT_MAX_def
        Version_numbers read_cache_version_def)
qed



end
