(* ===== verification/Rate_Limiter.thy ===== *)
theory Rate_Limiter
  imports Thumb_Prelude "HOL-Library.Multiset"
begin

text \<open>
  \<open>RateLimiter\<close> (\<open>include/ratelimiter.h\<close>, \<open>src/ratelimiter.cpp\<close>): the bound on outstanding
  asynchronous jobs that both the service and the client library use. The record has the members
  \<open>concurrency_\<close>, \<open>running_\<close> and \<open>list_\<close>. A queued job is a \<open>shared_ptr\<close> to a function: it is a
  handle with the function, \<open>None\<close> once a cancel function has cleared it. A cancel function holds
  a \<open>weak_ptr\<close>, that is, a handle; \<open>weak_ptr::lock\<close> succeeds while the entry is in \<open>list_\<close>. Calling
  a job appends it to the log \<open>started\<close>; \<open>throws j\<close> is the exception that job \<open>j\<close> throws when it
  is called, if any. The jobs the program schedules do not call the limiter themselves while they
  run.
\<close>

section \<open>State and operations\<close>

record 'j limiter =
  concurrency :: int
  running :: int
  queue :: "(nat \<times> 'j option) list"
  next_handle :: nat
  started :: "'j list"

datatype cancel_func = Not_queued | Queued nat

definition RateLimiter :: "int \<Rightarrow> 'j limiter result" where
  "RateLimiter c =
     rbind (assert_r (c > 0) ''concurrency > 0'') (\<lambda>_.
     Inr \<lparr>concurrency = c, running = 0, queue = [], next_handle = 0, started = []\<rparr>)"

definition schedule_now :: "('j \<Rightarrow> exn option) \<Rightarrow> 'j \<Rightarrow> 'j limiter \<Rightarrow> cancel_func result \<times> 'j limiter" where
  "schedule_now throws job s =
     (let s' = s\<lparr>running := running s + 1, started := started s @ [job]\<rparr>
      in case throws job of
           Some e \<Rightarrow> (Inl e, s')
         | None \<Rightarrow> (Inr Not_queued, s'))"

definition schedule :: "('j \<Rightarrow> exn option) \<Rightarrow> 'j \<Rightarrow> 'j limiter \<Rightarrow> cancel_func result \<times> 'j limiter" where
  "schedule throws job s =
     (if \<not> running s \<ge> 0 then (Inl (Assertion ''running_ >= 0''), s)
      else if running s < concurrency s then schedule_now throws job s
      else (Inr (Queued (next_handle s)),
            s\<lparr>queue := queue s @ [(next_handle s, Some job)], next_handle := Suc (next_handle s)\<rparr>))"

fun clear_job :: "nat \<Rightarrow> (nat \<times> 'j option) list \<Rightarrow> (nat \<times> 'j option) list" where
  "clear_job h [] = []"
| "clear_job h ((h', j) # q) = (if h' = h then (h', None) # q else (h', j) # clear_job h q)"

fun cancel :: "cancel_func \<Rightarrow> 'j limiter \<Rightarrow> bool \<times> 'j limiter" where
  "cancel Not_queued s = (False, s)"
| "cancel (Queued h) s =
     (if h \<in> fst ` set (queue s)
      then (True, s\<lparr>queue := clear_job h (queue s)\<rparr>)
      else (False, s))"

text \<open>The loop of \<open>done()\<close>, on the queue read from its back.\<close>

fun next_job :: "(nat \<times> 'j option) list \<Rightarrow> 'j option \<times> (nat \<times> 'j option) list" where
  "next_job [] = (None, [])"
| "next_job ((h, None) # r) = next_job r"
| "next_job ((h, Some j) # r) = (Some j, r)"

definition limiter_done :: "('j \<Rightarrow> exn option) \<Rightarrow> 'j limiter \<Rightarrow> unit result \<times> 'j limiter" where
  "limiter_done throws s =
     (if \<not> running s > 0 then (Inl (Assertion ''running_ > 0''), s)
      else let s1 = s\<lparr>running := running s - 1\<rparr>;
               (job, r) = next_job (rev (queue s1));
               s2 = s1\<lparr>queue := rev r\<rparr>
           in case job of
                None \<Rightarrow> (Inr (), s2)
              | Some j \<Rightarrow> (let (res, s3) = schedule_now throws j s2
                          in (rbind res (\<lambda>_. Inr ()), s3)))"

section \<open>The waiting jobs\<close>

fun live :: "(nat \<times> 'j option) list \<Rightarrow> 'j list" where
  "live [] = []"
| "live ((h, None) # q) = live q"
| "live ((h, Some j) # q) = j # live q"

lemma live_append [simp]: "live (q @ r) = live q @ live r"
  by (induction q rule: live.induct) auto

lemma live_rev: "live (rev q) = rev (live q)"
  by (induction q rule: live.induct) auto

lemma next_job_None: "live q = [] \<Longrightarrow> next_job q = (None, [])"
  by (induction q rule: next_job.induct) auto

lemma next_job_Some: "live q = j # js \<Longrightarrow> \<exists>r. next_job q = (Some j, r) \<and> live r = js"
  by (induction q rule: next_job.induct) auto

lemma next_job_subset: "next_job q = (jo, r) \<Longrightarrow> set r \<subseteq> set q"
  by (induction q rule: next_job.induct) auto

lemma next_job_distinct: "next_job q = (jo, r) \<Longrightarrow> distinct (map fst q) \<Longrightarrow> distinct (map fst r)"
  by (induction q rule: next_job.induct) auto

lemma fst_clear_job [simp]: "map fst (clear_job h q) = map fst q"
  by (induction h q rule: clear_job.induct) auto

lemma mset_live_clear_job:
  "distinct (map fst q) \<Longrightarrow> (h, Some j) \<in> set q \<Longrightarrow> mset (live q) = add_mset j (mset (live (clear_job h q)))"
proof (induction h q rule: clear_job.induct)
  case (2 h h' j' q)
  then show ?case by (cases j') (auto simp: image_iff)
qed simp

lemma live_clear_job_subseteq: "mset (live (clear_job h q)) \<subseteq># mset (live q)"
proof (induction h q rule: clear_job.induct)
  case (2 h h' j q)
  then show ?case by (cases j) auto
qed simp

section \<open>Well-formed limiters\<close>

definition wf_limiter :: "'j limiter \<Rightarrow> bool" where
  "wf_limiter s \<longleftrightarrow>
     0 < concurrency s \<and> 0 \<le> running s \<and>
     distinct (map fst (queue s)) \<and> (\<forall>h \<in> fst ` set (queue s). h < next_handle s)"

lemma wf_RateLimiter: "RateLimiter c = Inr s \<Longrightarrow> wf_limiter s"
  by (auto simp: RateLimiter_def rbind_Inr_iff wf_limiter_def)

lemma wf_schedule_now: "wf_limiter s \<Longrightarrow> wf_limiter (snd (schedule_now throws j s))"
  by (auto simp: schedule_now_def wf_limiter_def Let_def split: option.splits)

lemma wf_schedule: "wf_limiter s \<Longrightarrow> wf_limiter (snd (schedule throws j s))"
  by (auto simp: schedule_def wf_schedule_now) (auto simp: wf_limiter_def)

lemma wf_cancel: "wf_limiter s \<Longrightarrow> wf_limiter (snd (cancel cf s))"
proof (cases cf)
  case (Queued h)
  assume "wf_limiter s"
  moreover have "fst ` set (clear_job h (queue s)) = fst ` set (queue s)"
    by (metis fst_clear_job list.set_map)
  ultimately show ?thesis
    using Queued by (simp add: wf_limiter_def del: ball_simps)
qed simp

lemma limiter_done_cases:
  assumes "running s > 0"
  obtains (idle) q where "live (queue s) = []" "live q = []"
      "limiter_done throws s = (Inr (), s\<lparr>running := running s - 1, queue := q\<rparr>)" "q = []"
    | (started_next) js j q where "live (queue s) = js @ [j]" "live q = js"
      "set q \<subseteq> set (queue s)" "distinct (map fst (queue s)) \<Longrightarrow> distinct (map fst q)"
      "limiter_done throws s =
         ((case throws j of Some e \<Rightarrow> Inl e | None \<Rightarrow> Inr ()),
          s\<lparr>queue := q, started := started s @ [j]\<rparr>)"
proof (cases "live (queue s)" rule: rev_exhaust)
  case Nil
  then have "next_job (rev (queue s)) = (None, [])"
    by (intro next_job_None) (simp add: live_rev)
  with assms Nil idle [of "[]"] show ?thesis
    by (simp add: limiter_done_def)
next
  case (snoc js j)
  then obtain r where r: "next_job (rev (queue s)) = (Some j, r)" "live r = rev js"
    using next_job_Some [of "rev (queue s)" j "rev js"] by (auto simp: live_rev)
  have "limiter_done throws s =
         ((case throws j of Some e \<Rightarrow> Inl e | None \<Rightarrow> Inr ()),
          s\<lparr>queue := rev r, started := started s @ [j]\<rparr>)"
    using assms r by (auto simp: limiter_done_def schedule_now_def split: option.splits)
  moreover have "set (rev r) \<subseteq> set (queue s)"
    using next_job_subset [OF r(1)] by simp
  moreover have "distinct (map fst (queue s)) \<Longrightarrow> distinct (map fst (rev r))"
    using next_job_distinct [OF r(1)] by (simp flip: rev_map)
  moreover have "live (rev r) = js"
    using r by (simp add: live_rev)
  ultimately show ?thesis
    by (intro started_next [OF snoc])
qed

lemma wf_limiter_done: "wf_limiter s \<Longrightarrow> wf_limiter (snd (limiter_done throws s))"
proof (cases "running s > 0")
  case True
  assume wf: "wf_limiter s"
  from True show ?thesis
    by (cases rule: limiter_done_cases [where throws = throws])
      (use wf True in \<open>auto simp: wf_limiter_def\<close>)
qed (simp add: limiter_done_def)

section \<open>The contract the clients rely on\<close>

text \<open>
  A bounded pool of jobs: a job runs at once while there is a free slot and waits otherwise, and a
  finished job hands its slot to the newest waiting one.
\<close>

datatype 'j pool_event = Submit 'j | Finish

locale job_pool =
  fixes inv :: "'s \<Rightarrow> bool"
    and cap :: "'s \<Rightarrow> int"
    and busy :: "'s \<Rightarrow> int"
    and waiting :: "'s \<Rightarrow> 'j list"
    and ran :: "'s \<Rightarrow> 'j list"
    and submit :: "'j \<Rightarrow> 's \<Rightarrow> 's"
    and finish :: "'s \<Rightarrow> 's"
  assumes inv_submit: "inv s \<Longrightarrow> inv (submit j s)"
    and inv_finish: "inv s \<Longrightarrow> inv (finish s)"
    and cap_submit: "cap (submit j s) = cap s"
    and cap_finish: "cap (finish s) = cap s"
    and submit_free: "inv s \<Longrightarrow> busy s < cap s \<Longrightarrow>
          busy (submit j s) = busy s + 1 \<and> ran (submit j s) = ran s @ [j] \<and> waiting (submit j s) = waiting s"
    and submit_full: "inv s \<Longrightarrow> cap s \<le> busy s \<Longrightarrow>
          busy (submit j s) = busy s \<and> ran (submit j s) = ran s \<and> waiting (submit j s) = waiting s @ [j]"
    and finish_idle: "inv s \<Longrightarrow> 0 < busy s \<Longrightarrow> waiting s = [] \<Longrightarrow>
          busy (finish s) = busy s - 1 \<and> ran (finish s) = ran s \<and> waiting (finish s) = []"
    and finish_next: "inv s \<Longrightarrow> 0 < busy s \<Longrightarrow> waiting s = js @ [j] \<Longrightarrow>
          busy (finish s) = busy s \<and> ran (finish s) = ran s @ [j] \<and> waiting (finish s) = js"
    and finish_none: "\<not> 0 < busy s \<Longrightarrow> finish s = s"
begin

fun pool_step :: "'j pool_event \<Rightarrow> 's \<Rightarrow> 's" where
  "pool_step (Submit j) s = submit j s"
| "pool_step Finish s = finish s"

fun submitted :: "'j pool_event list \<Rightarrow> 'j list" where
  "submitted [] = []"
| "submitted (Submit j # es) = j # submitted es"
| "submitted (Finish # es) = submitted es"

text \<open>Slots are never oversubscribed, and jobs wait only while every slot is taken.\<close>

definition saturated :: "'s \<Rightarrow> bool" where
  "saturated s \<longleftrightarrow> 0 \<le> busy s \<and> busy s \<le> cap s \<and> (waiting s \<noteq> [] \<longrightarrow> busy s = cap s)"

lemma saturated_submit: "inv s \<Longrightarrow> saturated s \<Longrightarrow> saturated (submit j s)"
  using submit_free [of s j] submit_full [of s j]
  by (cases "busy s < cap s") (auto simp: saturated_def cap_submit)

lemma saturated_finish: "inv s \<Longrightarrow> saturated s \<Longrightarrow> saturated (finish s)"
proof (cases "0 < busy s")
  case True
  assume "inv s" "saturated s"
  with True show ?thesis
    using finish_idle [of s] finish_next [of s]
    by (cases "waiting s" rule: rev_exhaust) (auto simp: saturated_def cap_finish)
qed (simp add: finish_none)

lemma pool_invariant:
  "inv s \<Longrightarrow> saturated s \<Longrightarrow> inv (fold pool_step es s) \<and> saturated (fold pool_step es s)"
proof (induction es arbitrary: s)
  case (Cons e es)
  then show ?case
    by (cases e) (auto simp: inv_submit inv_finish saturated_submit saturated_finish)
qed simp

lemma submit_ledger:
  "inv s \<Longrightarrow> mset (ran (submit j s)) + mset (waiting (submit j s)) = add_mset j (mset (ran s) + mset (waiting s))"
  using submit_free [of s j] submit_full [of s j] by (cases "busy s < cap s") auto

lemma finish_ledger:
  "inv s \<Longrightarrow> mset (ran (finish s)) + mset (waiting (finish s)) = mset (ran s) + mset (waiting s)"
proof (cases "0 < busy s")
  case True
  assume "inv s"
  with True show ?thesis
    using finish_idle [of s] finish_next [of s]
    by (cases "waiting s" rule: rev_exhaust) auto
qed (simp add: finish_none)

text \<open>No job is lost or run twice.\<close>

lemma ledger:
  "inv s \<Longrightarrow> mset (ran (fold pool_step es s)) + mset (waiting (fold pool_step es s)) =
     mset (ran s) + mset (waiting s) + mset (submitted es)"
proof (induction es arbitrary: s)
  case (Cons e es)
  then show ?case
    by (cases e) (auto simp: inv_submit inv_finish submit_ledger finish_ledger ac_simps)
qed simp

lemma inv_funpow_finish: "inv s \<Longrightarrow> inv ((finish ^^ n) s)"
  by (induction n) (auto simp: inv_finish)

text \<open>Finishing as many jobs as wait starts all of them, the newest first.\<close>

lemma drain:
  "inv s \<Longrightarrow> 0 < busy s \<Longrightarrow>
     ran ((finish ^^ length (waiting s)) s) = ran s @ rev (waiting s) \<and>
     waiting ((finish ^^ length (waiting s)) s) = [] \<and>
     busy ((finish ^^ length (waiting s)) s) = busy s"
proof (induction "length (waiting s)" arbitrary: s)
  case 0
  then show ?case by simp
next
  case (Suc n)
  then obtain js j where w: "waiting s = js @ [j]"
    by (metis length_0_conv nat.distinct(1) rev_exhaust)
  from finish_next [OF Suc.prems w]
  have f: "busy (finish s) = busy s" "ran (finish s) = ran s @ [j]" "waiting (finish s) = js"
    by auto
  have n: "n = length (waiting (finish s))"
    using Suc.hyps(2) w f by simp
  show ?case
    using Suc.hyps(1) [OF n inv_finish [OF Suc.prems(1)]] Suc.prems(2) f w
    by (simp add: funpow_swap1 flip: Suc.hyps(2) n)
qed

end

definition no_throw :: "'j \<Rightarrow> exn option" where
  "no_throw j = None"

lemma no_throw_simp [simp]: "no_throw j = None"
  by (simp add: no_throw_def)

interpretation limiter: job_pool wf_limiter concurrency running "\<lambda>s. live (queue s)" started
  "\<lambda>j s. snd (schedule no_throw j s)" "\<lambda>s. snd (limiter_done no_throw s)"
proof unfold_locales
  fix s :: "'a limiter" and j :: 'a and js
  show "wf_limiter s \<Longrightarrow> wf_limiter (snd (schedule no_throw j s))"
    by (rule wf_schedule)
  show "wf_limiter s \<Longrightarrow> wf_limiter (snd (limiter_done no_throw s))"
    by (rule wf_limiter_done)
  show "concurrency (snd (schedule no_throw j s)) = concurrency s"
    by (simp add: schedule_def schedule_now_def Let_def)
  show "concurrency (snd (limiter_done no_throw s)) = concurrency s"
  proof (cases "0 < running s")
    case True
    then show ?thesis by (cases rule: limiter_done_cases [of s no_throw]) auto
  qed (simp add: limiter_done_def)
  show "wf_limiter s \<Longrightarrow> running s < concurrency s \<Longrightarrow>
     running (snd (schedule no_throw j s)) = running s + 1 \<and>
     started (snd (schedule no_throw j s)) = started s @ [j] \<and>
     live (queue (snd (schedule no_throw j s))) = live (queue s)"
    by (auto simp: schedule_def schedule_now_def wf_limiter_def)
  show "wf_limiter s \<Longrightarrow> concurrency s \<le> running s \<Longrightarrow>
     running (snd (schedule no_throw j s)) = running s \<and>
     started (snd (schedule no_throw j s)) = started s \<and>
     live (queue (snd (schedule no_throw j s))) = live (queue s) @ [j]"
    by (auto simp: schedule_def wf_limiter_def)
  show "wf_limiter s \<Longrightarrow> 0 < running s \<Longrightarrow> live (queue s) = [] \<Longrightarrow>
     running (snd (limiter_done no_throw s)) = running s - 1 \<and>
     started (snd (limiter_done no_throw s)) = started s \<and>
     live (queue (snd (limiter_done no_throw s))) = []"
    by (cases rule: limiter_done_cases [of s no_throw]) auto
  show "wf_limiter s \<Longrightarrow> 0 < running s \<Longrightarrow> live (queue s) = js @ [j] \<Longrightarrow>
     running (snd (limiter_done no_throw s)) = running s \<and>
     started (snd (limiter_done no_throw s)) = started s @ [j] \<and>
     live (queue (snd (limiter_done no_throw s))) = js"
    by (cases rule: limiter_done_cases [of s no_throw]) auto
  show "\<not> 0 < running s \<Longrightarrow> snd (limiter_done no_throw s) = s"
    by (simp add: limiter_done_def)
qed


section \<open>Runs with cancellation\<close>

datatype 'j limiter_event = Ev_schedule 'j | Ev_cancel cancel_func | Ev_done

fun limiter_step :: "'j limiter_event \<Rightarrow> 'j limiter \<Rightarrow> 'j limiter" where
  "limiter_step (Ev_schedule j) s = snd (schedule no_throw j s)"
| "limiter_step (Ev_cancel cf) s = snd (cancel cf s)"
| "limiter_step Ev_done s = snd (limiter_done no_throw s)"

fun scheduled :: "'j limiter_event list \<Rightarrow> 'j multiset" where
  "scheduled [] = {#}"
| "scheduled (Ev_schedule j # es) = add_mset j (scheduled es)"
| "scheduled (Ev_cancel cf # es) = scheduled es"
| "scheduled (Ev_done # es) = scheduled es"

text \<open>The job that a call of a cancel function clears.\<close>

fun cleared :: "cancel_func \<Rightarrow> 'j limiter \<Rightarrow> 'j multiset" where
  "cleared Not_queued s = {#}"
| "cleared (Queued h) s =
     (case map_of (queue s) h of Some (Some j) \<Rightarrow> {#j#} | _ \<Rightarrow> {#})"

fun cancelled :: "'j limiter_event list \<Rightarrow> 'j limiter \<Rightarrow> 'j multiset" where
  "cancelled [] s = {#}"
| "cancelled (e # es) s =
     (case e of Ev_cancel cf \<Rightarrow> cleared cf s | _ \<Rightarrow> {#}) + cancelled es (limiter_step e s)"

lemma cancel_frame [simp]:
  "concurrency (snd (cancel cf s)) = concurrency s"
  "running (snd (cancel cf s)) = running s"
  "started (snd (cancel cf s)) = started s"
  by (cases cf; simp)+

lemma clear_job_absent: "map_of q h = Some None \<Longrightarrow> distinct (map fst q) \<Longrightarrow> clear_job h q = q"
proof (induction h q rule: clear_job.induct)
  case (2 h h' j q)
  then show ?case by (auto split: if_splits)
qed simp

lemma live_cancel:
  "wf_limiter s \<Longrightarrow> mset (live (queue (snd (cancel cf s)))) + cleared cf s = mset (live (queue s))"
proof (cases cf)
  case (Queued h)
  assume "wf_limiter s"
  then have d: "distinct (map fst (queue s))" by (simp add: wf_limiter_def)
  show ?thesis
  proof (cases "map_of (queue s) h")
    case None
    moreover from this have "h \<notin> fst ` set (queue s)" by (simp add: map_of_eq_None_iff)
    ultimately show ?thesis using Queued by simp
  next
    case (Some jo)
    then have m: "(h, jo) \<in> set (queue s)" by (rule map_of_SomeD)
    then have "h \<in> fst ` set (queue s)" by force
    with d m Some Queued show ?thesis
      by (cases jo) (auto simp: clear_job_absent mset_live_clear_job)
  qed
qed simp

lemma saturated_cancel:
  "wf_limiter s \<Longrightarrow> limiter.saturated s \<Longrightarrow> limiter.saturated (snd (cancel cf s))"
proof -
  assume "wf_limiter s" and "limiter.saturated s"
  moreover have "live (queue s) = [] \<Longrightarrow> live (queue (snd (cancel cf s))) = []"
    using live_cancel [OF \<open>wf_limiter s\<close>, of cf] by simp
  ultimately show ?thesis by (auto simp: limiter.saturated_def)
qed

lemma limiter_step_invariant:
  assumes "wf_limiter s" and "limiter.saturated s"
  shows "wf_limiter (limiter_step e s) \<and> limiter.saturated (limiter_step e s) \<and>
         concurrency (limiter_step e s) = concurrency s"
  using assms
  by (cases e)
    (simp_all add: limiter.inv_submit limiter.inv_finish limiter.cap_submit limiter.cap_finish
      limiter.saturated_submit limiter.saturated_finish wf_cancel saturated_cancel)

lemma limiter_run_invariant:
  assumes "wf_limiter s" and "limiter.saturated s"
  shows "wf_limiter (fold limiter_step es s) \<and> limiter.saturated (fold limiter_step es s) \<and>
         concurrency (fold limiter_step es s) = concurrency s"
  using assms
proof (induction es arbitrary: s)
  case (Cons e es)
  then show ?case using limiter_step_invariant [of s e] by simp
qed simp

lemma new_limiter:
  "RateLimiter c = Inr s \<Longrightarrow>
     wf_limiter s \<and> limiter.saturated s \<and> concurrency s = c \<and> started s = [] \<and> queue s = []"
  by (auto simp: RateLimiter_def rbind_Inr_iff limiter.saturated_def wf_limiter_def)

section \<open>Properties\<close>



text \<open>
  C25. Every job is accounted for exactly once: after any sequence of calls on a new limiter, the
  jobs that were started, the jobs that wait and the jobs that were cancelled while they waited
  are together, as a multiset, the jobs that were scheduled.
\<close>

theorem limiter_exactly_once:
  assumes "RateLimiter c = Inr s" and "t = fold limiter_step es s"
  shows "mset (started t) + mset (live (queue t)) + cancelled es s = scheduled es"
proof -
  have "mset (started (fold limiter_step es s)) + mset (live (queue (fold limiter_step es s))) +
          cancelled es s = mset (started s) + mset (live (queue s)) + scheduled es"
    if "wf_limiter s" for s
    using that
  proof (induction es arbitrary: s)
    case (Cons e es)
    show ?case
    proof (cases e)
      case (Ev_schedule j)
      then show ?thesis
        using Cons limiter.submit_ledger [of s j] by (simp add: limiter.inv_submit)
    next
      case (Ev_cancel cf)
      then show ?thesis
        using Cons.IH [OF wf_cancel [OF Cons.prems, of cf]]
        by (simp add: ac_simps flip: live_cancel [OF Cons.prems, of cf])
    next
      case Ev_done
      then show ?thesis
        using Cons limiter.finish_ledger [of s] by (simp add: limiter.inv_finish)
    qed
  qed simp
  from this [of s] show ?thesis
    using new_limiter [OF assms(1)] assms(2) by simp
qed

theorem limiter_exactly_once_witness:
  "let s = \<lparr>concurrency = 1, running = 0, queue = [], next_handle = 0, started = []\<rparr>;
       es = [Ev_schedule (1::nat), Ev_schedule 2, Ev_schedule 3, Ev_cancel (Queued 1), Ev_done];
       t = fold limiter_step es s
   in mset (started t) + mset (live (queue t)) + cancelled es s = scheduled es"
  unfolding Let_def
  by (rule limiter_exactly_once [OF _ refl, of 1]) (simp add: RateLimiter_def)

text \<open>
  C26. No waiting job starves: when as many outstanding jobs complete as there are jobs waiting,
  every waiting job has been started. They start in last-in first-out order, the most recently
  queued job first.
\<close>

theorem limiter_drains_lifo:
  assumes "wf_limiter s" and "0 < running s"
  shows "let t = ((\<lambda>s. snd (limiter_done no_throw s)) ^^ length (live (queue s))) s
         in started t = started s @ rev (live (queue s)) \<and> live (queue t) = [] \<and> running t = running s"
  using limiter.drain [OF assms] by (simp add: Let_def)

theorem limiter_drains_lifo_witness:
  "let s = \<lparr>concurrency = 1, running = 1, queue = [(0, Some (7::nat)), (1, Some 8), (2, None)],
            next_handle = 3, started = [6]\<rparr>;
       t = ((\<lambda>s. snd (limiter_done no_throw s)) ^^ length (live (queue s))) s
   in started t = started s @ rev (live (queue s)) \<and> live (queue t) = [] \<and> running t = running s"
  unfolding Let_def
  by (rule limiter_drains_lifo [unfolded Let_def]) (simp_all add: wf_limiter_def)

end
