(* ===== verification/Qt_Client.thy ===== *)
theory Qt_Client
  imports Rate_Limiter Image_Model
begin

text \<open>
  The client library (\<open>src/libthumbnailer-qt/libthumbnailer-qt.cpp\<close>): asynchronous requests to the service, of which a
  \<open>RateLimiter\<close> sends at most \<open>max_backlog\<close> at a time. A request object is a number; the record of a request has the
  members of \<open>RequestImpl\<close>, the record of the client the limiter of \<open>ThumbnailerImpl\<close>, the live request objects and what
  is queued on the Qt event loop: calls of \<open>pump_limiter\<close>, of \<open>dbusCallFinished\<close> for cancelled requests, and of
  \<open>finished\<close> for requests with an invalid size. \<open>QImage::fromData\<close> is an argument.
\<close>

section \<open>State\<close>

record 'i request_impl =
  ri_details :: string
  ri_size :: qsize
  ri_watcher :: bool
  ri_cancel_func :: "cancel_func option"
  ri_error_message :: string
  ri_finished :: bool
  ri_is_valid :: bool
  ri_cancelled :: bool
  ri_cancelled_while_waiting :: bool
  ri_image :: "'i option"
  ri_signals :: nat

record 'i client =
  cl_limiter :: "nat limiter"
  cl_reqs :: "(nat \<times> 'i request_impl) list"
  cl_pumps :: nat
  cl_fakes :: "nat list"
  cl_finished_calls :: "nat list"

definition get_req :: "nat \<Rightarrow> 'i client \<Rightarrow> 'i request_impl option" where
  "get_req i c = map_of (cl_reqs c) i"

definition upd_req :: "nat \<Rightarrow> ('i request_impl \<Rightarrow> 'i request_impl) \<Rightarrow> 'i client \<Rightarrow> 'i client" where
  "upd_req i f c = c\<lparr>cl_reqs := map (\<lambda>(j, r). (j, if j = i then f r else r)) (cl_reqs c)\<rparr>"

text \<open>\<open>job\<close> never throws: it only sends a D-Bus message.\<close>

abbreviation sends :: "nat \<Rightarrow> exn option" where
  "sends \<equiv> \<lambda>_. None"

definition send_request :: "nat \<Rightarrow> 'i client \<Rightarrow> 'i client" where
  "send_request i = upd_req i (\<lambda>r. r\<lparr>ri_watcher := True\<rparr>)"

text \<open>A call of the limiter: the jobs it starts send their requests.\<close>

definition on_limiter :: "(nat limiter \<Rightarrow> 'a result \<times> nat limiter) \<Rightarrow> ('i client, 'a) act" where
  "on_limiter f c =
     (case f (cl_limiter c) of
        (r, l) \<Rightarrow> (r, fold send_request (drop (length (started (cl_limiter c))) (started l)) (c\<lparr>cl_limiter := l\<rparr>)))"

section \<open>Operations\<close>

text \<open>\<open>config\<close> is the service's reply to \<open>ClientConfig\<close>, \<open>max_backlog_default\<close> a constant of the build.\<close>

definition ThumbnailerImpl :: "int \<Rightarrow> int option \<Rightarrow> 'i client result" where
  "ThumbnailerImpl max_backlog_default config =
     rbind (RateLimiter (case config of Some max_backlog \<Rightarrow> max_backlog | None \<Rightarrow> max_backlog_default)) (\<lambda>l.
     Inr \<lparr>cl_limiter = l, cl_reqs = [], cl_pumps = 0, cl_fakes = [], cl_finished_calls = []\<rparr>)"

definition new_request :: "string \<Rightarrow> qsize \<Rightarrow> 'i request_impl" where
  "new_request details requested_size =
     \<lparr>ri_details = details, ri_size = requested_size, ri_watcher = False, ri_cancel_func = None, ri_error_message = [],
      ri_finished = False, ri_is_valid = False, ri_cancelled = False, ri_cancelled_while_waiting = False, ri_image = None,
      ri_signals = 0\<rparr>"

definition RequestImpl :: "nat \<Rightarrow> string \<Rightarrow> qsize \<Rightarrow> ('i client, unit) act" where
  "RequestImpl i details requested_size c =
     (let r = new_request details requested_size
      in if \<not> isValid requested_size
         then (Inr (), c\<lparr>cl_reqs := (i, r\<lparr>ri_error_message := details @ '': invalid QSize'', ri_finished := True\<rparr>) # cl_reqs c\<rparr>)
         else act_bind (on_limiter (schedule sends i)) (\<lambda>cf.
              act_modify (upd_req i (\<lambda>r. r\<lparr>ri_cancel_func := Some cf\<rparr>))) (c\<lparr>cl_reqs := (i, r) # cl_reqs c\<rparr>))"

definition createRequest :: "nat \<Rightarrow> string \<Rightarrow> qsize \<Rightarrow> ('i client, unit) act" where
  "createRequest i details requested_size =
     act_bind (RequestImpl i details requested_size) (\<lambda>_ c.
     case get_req i c of
       Some r \<Rightarrow> (Inr (), if ri_finished r \<and> \<not> ri_is_valid r then c\<lparr>cl_finished_calls := cl_finished_calls c @ [i]\<rparr> else c)
     | None \<Rightarrow> (Inl (Null_deref ''request''), c))"

definition finishWithError :: "string \<Rightarrow> nat \<Rightarrow> ('i client, unit) act" where
  "finishWithError errorMessage i =
     act_modify (upd_req i (\<lambda>r. r\<lparr>ri_error_message := errorMessage, ri_finished := True, ri_is_valid := False,
       ri_image := None, ri_watcher := False, ri_signals := Suc (ri_signals r)\<rparr>))"

text \<open>A D-Bus reply is the bytes of the thumbnail or an error text.\<close>

definition dbusCallFinished :: "(string \<Rightarrow> 'i option) \<Rightarrow> string + string \<Rightarrow> nat \<Rightarrow> ('i client, unit) act" where
  "dbusCallFinished fromData reply i c =
     (case get_req i c of
        None \<Rightarrow> act_throw (Null_deref ''request'')
      | Some r \<Rightarrow>
          if ri_finished r then act_throw (Assertion ''!finished_'')
          else act_bind
                 (if \<not> ri_cancelled r \<or> \<not> ri_cancelled_while_waiting r then on_limiter (limiter_done sends) else act_ret ())
                 (\<lambda>_. if ri_cancelled r then finishWithError ''Request cancelled'' i
                      else if \<not> ri_watcher r then act_throw (Assertion ''watcher_'')
                      else case reply of
                             Inl err \<Rightarrow> finishWithError (''Thumbnailer: RequestImpl::dbusCallFinished(): D-Bus error: '' @ err) i
                           | Inr bytes \<Rightarrow>
                               act_modify (upd_req i (\<lambda>r. r\<lparr>ri_image := fromData bytes, ri_finished := True, ri_is_valid := True,
                                 ri_error_message := [], ri_signals := Suc (ri_signals r), ri_watcher := False\<rparr>)))) c"

definition call_cancel :: "'i request_impl \<Rightarrow> ('i client, bool) act" where
  "call_cancel r c =
     (case ri_cancel_func r of
        None \<Rightarrow> (Inl (Runtime_error ''bad_function_call''), c)
      | Some cf \<Rightarrow> (case cancel cf (cl_limiter c) of (b, l) \<Rightarrow> (Inr b, c\<lparr>cl_limiter := l\<rparr>)))"

definition cancel_request :: "nat \<Rightarrow> ('i client, unit) act" where
  "cancel_request i c =
     (case get_req i c of
        None \<Rightarrow> act_throw (Null_deref ''request'')
      | Some r \<Rightarrow>
          if ri_finished r \<or> ri_cancelled r then act_ret ()
          else act_bind (act_modify (upd_req i (\<lambda>r. r\<lparr>ri_cancelled := True\<rparr>))) (\<lambda>_.
               act_bind (call_cancel r) (\<lambda>b.
               act_modify (\<lambda>c. let c1 = upd_req i (\<lambda>r. r\<lparr>ri_cancelled_while_waiting := b\<rparr>) c
                               in if b then c1\<lparr>cl_fakes := cl_fakes c1 @ [i]\<rparr> else c1)))) c"

text \<open>\<open>watcher_->waitForFinished()\<close> returns after the reply was received and its \<open>finished\<close> signal delivered.\<close>

definition waitForFinished_request :: "(string \<Rightarrow> 'i option) \<Rightarrow> string + string \<Rightarrow> nat \<Rightarrow> ('i client, unit) act" where
  "waitForFinished_request fromData reply i c =
     (case get_req i c of
        None \<Rightarrow> act_throw (Null_deref ''request'')
      | Some r \<Rightarrow>
          if ri_finished r \<or> ri_cancelled r then act_ret ()
          else act_bind (call_cancel r) (\<lambda>b.
               act_bind (if b then (if ri_watcher r then act_throw (Assertion ''!watcher_'')
                                    else act_bind (on_limiter (schedule_now sends i)) (\<lambda>_. act_ret ()))
                         else if ri_watcher r then act_ret () else act_throw (Null_deref ''watcher_'')) (\<lambda>_.
               dbusCallFinished fromData reply i))) c"

text \<open>The destructor; Qt drops the calls queued for a destroyed object.\<close>

definition RequestImpl_destroy :: "nat \<Rightarrow> 'i client \<Rightarrow> 'i client" where
  "RequestImpl_destroy i c =
     (case get_req i c of
        None \<Rightarrow> c
      | Some r \<Rightarrow>
          (let (b, l) = (case ri_cancel_func r of None \<Rightarrow> (True, cl_limiter c) | Some cf \<Rightarrow> cancel cf (cl_limiter c));
               already_sent = (ri_cancel_func r \<noteq> None \<and> \<not> b)
           in c\<lparr>cl_limiter := l,
                cl_pumps := (if ri_watcher r \<and> already_sent then Suc (cl_pumps c) else cl_pumps c),
                cl_reqs := filter (\<lambda>p. fst p \<noteq> i) (cl_reqs c),
                cl_fakes := removeAll i (cl_fakes c),
                cl_finished_calls := removeAll i (cl_finished_calls c)\<rparr>))"

definition pump_limiter :: "('i client, unit) act" where
  "pump_limiter = on_limiter (limiter_done sends)"

section \<open>Texts\<close>

definition art_call_details :: "string \<Rightarrow> string \<Rightarrow> string \<Rightarrow> qsize \<Rightarrow> string" where
  "art_call_details call artist album sz =
     call @ '': ('' @ int_to_string (width sz) @ '','' @ int_to_string (height sz) @ '') \"'' @ artist @ ''\", \"'' @ album @ ''\"''"

definition thumbnail_call_details :: "string \<Rightarrow> qsize \<Rightarrow> string" where
  "thumbnail_call_details filename sz =
     ''getThumbnail: ('' @ int_to_string (width sz) @ '','' @ int_to_string (height sz) @ '') '' @ filename"

text \<open>\<open>canonical\<close> is \<open>boost::filesystem::canonical\<close>; a name it rejects is sent as it is.\<close>

definition canonical_name :: "(string \<Rightarrow> string result) \<Rightarrow> string \<Rightarrow> string" where
  "canonical_name canonical filename = (case canonical filename of Inr s \<Rightarrow> s | Inl e \<Rightarrow> filename)"

datatype dbus_call = GetAlbumArt_call string string qsize | GetArtistArt_call string string qsize | GetThumbnail_call string qsize

definition getAlbumArt :: "nat \<Rightarrow> string \<Rightarrow> string \<Rightarrow> qsize \<Rightarrow> ('i client, dbus_call) act" where
  "getAlbumArt i artist album requestedSize =
     act_bind (createRequest i (art_call_details ''getAlbumArt'' artist album requestedSize) requestedSize)
       (\<lambda>_. act_ret (GetAlbumArt_call artist album requestedSize))"

definition getArtistArt :: "nat \<Rightarrow> string \<Rightarrow> string \<Rightarrow> qsize \<Rightarrow> ('i client, dbus_call) act" where
  "getArtistArt i artist album requestedSize =
     act_bind (createRequest i (art_call_details ''getArtistArt'' artist album requestedSize) requestedSize)
       (\<lambda>_. act_ret (GetArtistArt_call artist album requestedSize))"

definition getThumbnail :: "(string \<Rightarrow> string result) \<Rightarrow> nat \<Rightarrow> string \<Rightarrow> qsize \<Rightarrow> ('i client, dbus_call) act" where
  "getThumbnail canonical i filename requestedSize =
     act_bind (createRequest i (thumbnail_call_details filename requestedSize) requestedSize)
       (\<lambda>_. act_ret (GetThumbnail_call (canonical_name canonical filename) requestedSize))"

end
