(* ===== verification/Client_Slots.thy ===== *)
theory Client_Slots
  imports Qt_Client
begin

text \<open>
  The client library pumps the limiter exactly once for each request it sent: over all sequences of new requests,
  replies, cancellations, blocking waits and destructions the limiter's count of running jobs is the number of sent and
  unanswered requests and of queued pumps, and every request finishes exactly once.
\<close>

section \<open>Updates\<close>

lemma get_upd_req: "get_req j (upd_req i f c) = (if j = i then map_option f (get_req j c) else get_req j c)"
proof -
  have "map_of (map (\<lambda>(j, r). (j, if j = i then f r else r)) rs) j =
      (if j = i then map_option f (map_of rs j) else map_of rs j)" for rs :: "(nat \<times> 'a request_impl) list"
    by (induction rs) auto
  then show ?thesis by (simp add: get_req_def upd_req_def)
qed

lemma upd_req_simps [simp]:
  "cl_limiter (upd_req i f c) = cl_limiter c" "cl_pumps (upd_req i f c) = cl_pumps c"
  "cl_fakes (upd_req i f c) = cl_fakes c" "cl_finished_calls (upd_req i f c) = cl_finished_calls c"
  by (simp_all add: upd_req_def)

lemma get_req_simps [simp]:
  "get_req i (c\<lparr>cl_limiter := l\<rparr>) = get_req i c" "get_req i (c\<lparr>cl_pumps := p\<rparr>) = get_req i c"
  "get_req i (c\<lparr>cl_fakes := fs\<rparr>) = get_req i c" "get_req i (c\<lparr>cl_finished_calls := fc\<rparr>) = get_req i c"
  by (simp_all add: get_req_def)

definition outstanding :: "'i client \<Rightarrow> nat" where
  "outstanding c = length (filter (\<lambda>p. ri_watcher (snd p)) (cl_reqs c))"

definition distinct_reqs :: "'i client \<Rightarrow> bool" where
  "distinct_reqs c \<longleftrightarrow> distinct (map fst (cl_reqs c))"

lemma outstanding_simps [simp]:
  "outstanding (c\<lparr>cl_limiter := l\<rparr>) = outstanding c" "outstanding (c\<lparr>cl_pumps := p\<rparr>) = outstanding c"
  "outstanding (c\<lparr>cl_fakes := fs\<rparr>) = outstanding c" "outstanding (c\<lparr>cl_finished_calls := fc\<rparr>) = outstanding c"
  by (simp_all add: outstanding_def)

lemma distinct_reqs_simps [simp]:
  "distinct_reqs (c\<lparr>cl_limiter := l\<rparr>) = distinct_reqs c" "distinct_reqs (c\<lparr>cl_pumps := p\<rparr>) = distinct_reqs c"
  "distinct_reqs (c\<lparr>cl_fakes := fs\<rparr>) = distinct_reqs c" "distinct_reqs (c\<lparr>cl_finished_calls := fc\<rparr>) = distinct_reqs c"
  "distinct_reqs (upd_req i f c) = distinct_reqs c"
  by (simp_all add: distinct_reqs_def upd_req_def comp_def case_prod_unfold)

lemma outstanding_upd:
  assumes "distinct_reqs c" and "get_req i c = Some r"
  shows "int (outstanding (upd_req i f c)) = int (outstanding c) - of_bool (ri_watcher r) + of_bool (ri_watcher (f r))"
proof -
  have "int (length (filter (\<lambda>p. ri_watcher (snd p)) (map (\<lambda>(j, r). (j, if j = i then f r else r)) rs))) =
      int (length (filter (\<lambda>p. ri_watcher (snd p)) rs)) - of_bool (ri_watcher r) + of_bool (ri_watcher (f r))"
    if "distinct (map fst rs)" "map_of rs i = Some r" for rs
    using that
  proof (induction rs)
    case (Cons p rs)
    obtain j r' where p: "p = (j, r')" by (cases p)
    show ?case
    proof (cases "j = i")
      case True
      with Cons.prems p have "i \<notin> fst ` set rs" by simp
      then have "map (\<lambda>(j, r). (j, if j = i then f r else r)) rs = rs"
        by (induction rs) auto
      with True Cons.prems p show ?thesis by simp
    next
      case False
      with Cons p show ?thesis by simp
    qed
  qed simp
  with assms show ?thesis by (simp add: outstanding_def distinct_reqs_def get_req_def upd_req_def)
qed

lemma outstanding_remove:
  assumes "distinct_reqs c" and "get_req i c = Some r"
  shows "int (length (filter (\<lambda>p. ri_watcher (snd p)) (filter (\<lambda>p. fst p \<noteq> i) (cl_reqs c)))) =
         int (outstanding c) - of_bool (ri_watcher r)"
proof -
  have "int (length (filter (\<lambda>p. ri_watcher (snd p)) (filter (\<lambda>p. fst p \<noteq> i) rs))) =
      int (length (filter (\<lambda>p. ri_watcher (snd p)) rs)) - of_bool (ri_watcher r)"
    if "distinct (map fst rs)" "map_of rs i = Some r" for rs
    using that
  proof (induction rs)
    case (Cons p rs)
    obtain j r' where p: "p = (j, r')" by (cases p)
    show ?case
    proof (cases "j = i")
      case True
      with Cons.prems p have "filter (\<lambda>p. fst p \<noteq> i) rs = rs" by (auto simp: filter_id_conv)
      with True Cons.prems p show ?thesis by simp
    next
      case False
      with Cons p show ?thesis by simp
    qed
  qed simp
  with assms show ?thesis by (simp add: outstanding_def distinct_reqs_def get_req_def)
qed

section \<open>Invariant\<close>

text \<open>A request that is neither sent nor over waits in the limiter's queue.\<close>

definition req_waiting :: "'i request_impl \<Rightarrow> bool" where
  "req_waiting r \<longleftrightarrow> \<not> ri_watcher r \<and> \<not> ri_finished r \<and> \<not> ri_cancelled r"

definition req_ok :: "nat set \<Rightarrow> (nat \<times> nat option) list \<Rightarrow> nat list \<Rightarrow> nat \<Rightarrow> 'i request_impl \<Rightarrow> bool" where
  "req_ok ex q fakes i r \<longleftrightarrow>
     (ri_watcher r \<longrightarrow> \<not> ri_finished r \<and> (ri_cancelled r \<longrightarrow> \<not> ri_cancelled_while_waiting r) \<and>
        ri_cancel_func r \<noteq> None \<and> (i \<notin> ex \<longrightarrow> (\<forall>h. ri_cancel_func r = Some (Queued h) \<longrightarrow> h \<notin> fst ` set q))) \<and>
     (req_waiting r \<longrightarrow> (\<exists>h. ri_cancel_func r = Some (Queued h) \<and> (h, Some i) \<in> set q)) \<and>
     (ri_cancelled r \<and> \<not> ri_finished r \<and> \<not> ri_watcher r \<longrightarrow> i \<in> set fakes) \<and>
     (i \<in> set fakes \<longrightarrow> ri_cancelled r \<and> ri_cancelled_while_waiting r \<and> \<not> ri_finished r \<and> \<not> ri_watcher r) \<and>
     (isValid (ri_size r) \<longrightarrow> ri_signals r = of_bool (ri_finished r)) \<and>
     (\<not> isValid (ri_size r) \<longrightarrow> ri_finished r)"

text \<open>\<open>queue_ok\<close>: queued jobs belong to waiting requests, and no two requests share a handle.\<close>

definition queue_ok :: "'i client \<Rightarrow> bool" where
  "queue_ok c \<longleftrightarrow>
     (\<forall>h j. (h, Some j) \<in> set (queue (cl_limiter c)) \<longrightarrow>
        (\<exists>r. get_req j c = Some r \<and> ri_cancel_func r = Some (Queued h) \<and> req_waiting r)) \<and>
     (\<forall>i r h. get_req i c = Some r \<and> ri_cancel_func r = Some (Queued h) \<longrightarrow> h < next_handle (cl_limiter c)) \<and>
     (\<forall>i j r r' h. get_req i c = Some r \<and> get_req j c = Some r' \<and>
        ri_cancel_func r = Some (Queued h) \<and> ri_cancel_func r' = Some (Queued h) \<longrightarrow> i = j)"

text \<open>
  \<open>client_inv ex k\<close>: the invariant with \<open>k\<close> slots too many in use, as in the middle of an operation. The requests \<open>ex\<close>
  were sent past the queue by \<open>waitForFinished\<close> and may still have a cleared entry there.
\<close>

definition client_inv :: "nat set \<Rightarrow> int \<Rightarrow> 'i client \<Rightarrow> bool" where
  "client_inv ex k c \<longleftrightarrow>
     wf_limiter (cl_limiter c) \<and> distinct_reqs c \<and> queue_ok c \<and>
     (\<forall>i r. get_req i c = Some r \<longrightarrow> req_ok ex (queue (cl_limiter c)) (cl_fakes c) i r) \<and>
     (\<forall>i \<in> set (cl_fakes c). get_req i c \<noteq> None) \<and> distinct (cl_fakes c) \<and>
     running (cl_limiter c) = int (outstanding c) + int (cl_pumps c) + k"

lemma client_invD:
  assumes "client_inv ex k c"
  shows "wf_limiter (cl_limiter c)" "distinct_reqs c" "queue_ok c"
    "get_req i c = Some r \<Longrightarrow> req_ok ex (queue (cl_limiter c)) (cl_fakes c) i r"
    "i \<in> set (cl_fakes c) \<Longrightarrow> get_req i c \<noteq> None" "distinct (cl_fakes c)"
    "running (cl_limiter c) = int (outstanding c) + int (cl_pumps c) + k"
  using assms by (simp_all add: client_inv_def)

section \<open>Handing a slot on\<close>

lemma next_job_split: "next_job q = (Some j, r) \<Longrightarrow> \<exists>pre h. q = pre @ (h, Some j) # r \<and> live pre = []"
proof (induction q rule: next_job.induct)
  case (2 h q)
  then obtain pre h' where "q = pre @ (h', Some j) # r" "live pre = []" by auto
  then have "(h, None) # q = ((h, None) # pre) @ (h', Some j) # r" "live ((h, None) # pre) = []" by simp_all
  then show ?case by blast
next
  case (3 h j' q)
  then have "(h, Some j') # q = [] @ (h, Some j) # r" "live [] = []" by simp_all
  then show ?case by blast
qed simp

lemma limiter_done_split:
  assumes "0 < running s"
  obtains (idle) "live (queue s) = []" "limiter_done sends s = (Inr (), s\<lparr>running := running s - 1, queue := []\<rparr>)"
    | (next_job) q h j t where "queue s = q @ (h, Some j) # t" "live t = []"
        "limiter_done sends s = (Inr (), s\<lparr>queue := q, started := started s @ [j]\<rparr>)"
proof -
  obtain jo r where nj: "next_job (rev (queue s)) = (jo, r)" by (cases "next_job (rev (queue s))")
  show thesis
  proof (cases jo)
    case None
    have e: "live (queue s) = []"
    proof (rule ccontr)
      assume "live (queue s) \<noteq> []"
      then obtain j js where "live (rev (queue s)) = j # js" by (cases "live (rev (queue s))") (auto simp: live_rev)
      from next_job_Some [OF this] nj None show False by simp
    qed
    with nj None next_job_None [of "rev (queue s)"] have "r = []" by (simp add: live_rev)
    with assms nj None idle e show thesis by (simp add: limiter_done_def)
  next
    case (Some j)
    from next_job_split [of "rev (queue s)" j r] nj Some obtain pre h where pre: "rev (queue s) = pre @ (h, Some j) # r" "live pre = []" by auto
    have "queue s = rev (rev (queue s))" by simp
    also have "\<dots> = rev r @ (h, Some j) # rev pre" by (simp only: pre(1) rev_append rev.simps append_assoc append.simps)
    finally have "queue s = rev r @ (h, Some j) # rev pre" .
    moreover have "live (rev pre) = []" using pre by (simp add: live_rev)
    moreover have "limiter_done sends s = (Inr (), s\<lparr>queue := rev r, started := started s @ [j]\<rparr>)"
      using assms nj Some by (simp add: limiter_done_def schedule_now_def)
    ultimately show thesis by (rule next_job)
  qed
qed

lemma live_Nil_iff: "live q = [] \<longleftrightarrow> (\<forall>h j. (h, Some j) \<notin> set q)"
  by (induction q rule: live.induct) auto

lemma req_ok_queue:
  assumes "req_ok ex q fakes i r"
    and "\<forall>h. ri_cancel_func r = Some (Queued h) \<and> h \<notin> fst ` set q \<longrightarrow> h \<notin> fst ` set q'"
    and "\<forall>h. (h, Some i) \<in> set q \<longrightarrow> (h, Some i) \<in> set q'"
  shows "req_ok ex q' fakes i r"
  using assms unfolding req_ok_def by blast

lemma req_ok_sets:
  assumes "req_ok ex q fakes i r" and "i \<in> set fakes' \<longleftrightarrow> i \<in> set fakes" and "i \<in> ex' \<longleftrightarrow> i \<in> ex"
  shows "req_ok ex' q fakes' i r"
  using assms unfolding req_ok_def by blast

lemma client_inv_idle:
  assumes inv: "client_inv ex k c" and e: "live (queue (cl_limiter c)) = []"
    and pos: "0 < running (cl_limiter c)"
  shows "client_inv ex (k - 1) (c\<lparr>cl_limiter := (cl_limiter c)\<lparr>running := running (cl_limiter c) - 1, queue := []\<rparr>\<rparr>)"
proof -
  note D = client_invD [OF inv]
  have "req_ok ex [] (cl_fakes c) i r" if "get_req i c = Some r" for i r
  proof -
    have ok: "req_ok ex (queue (cl_limiter c)) (cl_fakes c) i r" by (rule D(4) [OF that])
    have "(h, Some i) \<notin> set (queue (cl_limiter c))" for h using e by (simp add: live_Nil_iff)
    then show ?thesis by (intro req_ok_queue [OF ok]) simp_all
  qed
  moreover have "wf_limiter ((cl_limiter c)\<lparr>running := running (cl_limiter c) - 1, queue := []\<rparr>)"
    using D(1) pos by (simp add: wf_limiter_def)
  ultimately show ?thesis using D(2,3,5,6,7) by (simp add: client_inv_def queue_ok_def)
qed

lemma queue_okD:
  assumes "queue_ok c"
  shows "(h, Some j) \<in> set (queue (cl_limiter c)) \<Longrightarrow>
      \<exists>r. get_req j c = Some r \<and> ri_cancel_func r = Some (Queued h) \<and> req_waiting r"
    "get_req i c = Some r \<Longrightarrow> ri_cancel_func r = Some (Queued h) \<Longrightarrow> h < next_handle (cl_limiter c)"
    "get_req i c = Some r \<Longrightarrow> get_req j c = Some r' \<Longrightarrow> ri_cancel_func r = Some (Queued h) \<Longrightarrow>
      ri_cancel_func r' = Some (Queued h) \<Longrightarrow> i = j"
  using assms unfolding queue_ok_def by blast+

lemma client_inv_next:
  assumes inv: "client_inv ex k c" and q: "queue (cl_limiter c) = q @ (h, Some j) # t" and t: "live t = []"
  shows "client_inv ex (k - 1) (send_request j (c\<lparr>cl_limiter := (cl_limiter c)\<lparr>queue := q, started := st\<rparr>\<rparr>))"
    and "\<exists>r. get_req j c = Some r \<and> req_waiting r"
proof -
  note D = client_invD [OF inv]
  let ?l = "(cl_limiter c)\<lparr>queue := q, started := st\<rparr>"
  let ?c = "send_request j (c\<lparr>cl_limiter := ?l\<rparr>)"
  have "(h, Some j) \<in> set (queue (cl_limiter c))" by (simp add: q)
  from queue_okD(1) [OF D(3) this] obtain rj
    where rj: "get_req j c = Some rj" "ri_cancel_func rj = Some (Queued h)" "req_waiting rj" by blast
  then show "\<exists>r. get_req j c = Some r \<and> req_waiting r" by blast
  have get: "get_req i ?c = (if i = j then Some (rj\<lparr>ri_watcher := True\<rparr>) else get_req i c)" for i
    by (simp add: send_request_def get_upd_req rj(1))
  have h: "h \<notin> fst ` set q" using D(1) q by (auto simp: wf_limiter_def)
  have other: "i = j" if "(h', Some i) \<in> set ((h, Some j) # t)" for h' i
    using that t by (auto simp: live_Nil_iff)
  have qj: "(h', Some j) \<notin> set q" for h'
  proof
    assume "(h', Some j) \<in> set q"
    then have "(h', Some j) \<in> set (queue (cl_limiter c))" by (simp add: q)
    from queue_okD(1) [OF D(3) this] rj(1,2) have "h' = h" by simp
    with \<open>(h', Some j) \<in> set q\<close> h show False by (force simp: image_iff)
  qed
  have "req_ok ex q (cl_fakes c) i r" if "get_req i ?c = Some r" for i r
  proof (cases "i = j")
    case True
    with get that have r: "r = rj\<lparr>ri_watcher := True\<rparr>" by simp
    have "req_ok ex (q @ (h, Some j) # t) (cl_fakes c) j rj" using D(4) [OF rj(1)] q by simp
    with r rj h True show ?thesis by (auto simp: req_ok_def req_waiting_def)
  next
    case False
    with get that have "get_req i c = Some r" by simp
    from D(4) [OF this] q have "req_ok ex (q @ (h, Some j) # t) (cl_fakes c) i r" by simp
    then show ?thesis by (rule req_ok_queue) (use other False in auto)
  qed
  moreover have "queue_ok ?c"
    unfolding queue_ok_def
  proof (intro conjI allI impI)
    fix h' i assume "(h', Some i) \<in> set (queue (cl_limiter ?c))"
    then have "(h', Some i) \<in> set q" by (simp add: send_request_def)
    with qj have "i \<noteq> j" by blast
    moreover have "\<exists>r. get_req i c = Some r \<and> ri_cancel_func r = Some (Queued h') \<and> req_waiting r"
      by (rule queue_okD(1) [OF D(3)]) (use \<open>(h', Some i) \<in> set q\<close> q in simp)
    ultimately show "\<exists>r. get_req i ?c = Some r \<and> ri_cancel_func r = Some (Queued h') \<and> req_waiting r" by (simp add: get)
  next
    fix i r h' assume "get_req i ?c = Some r \<and> ri_cancel_func r = Some (Queued h')"
    then obtain r' where "get_req i c = Some r'" "ri_cancel_func r' = Some (Queued h')"
      using rj(1) by (auto simp: get split: if_splits)
    from queue_okD(2) [OF D(3) this] show "h' < next_handle (cl_limiter ?c)" by (simp add: send_request_def)
  next
    fix a b r r' h'
    assume *: "get_req a ?c = Some r \<and> get_req b ?c = Some r' \<and>
        ri_cancel_func r = Some (Queued h') \<and> ri_cancel_func r' = Some (Queued h')"
    then obtain ra rb where "get_req a c = Some ra" "ri_cancel_func ra = Some (Queued h')"
        "get_req b c = Some rb" "ri_cancel_func rb = Some (Queued h')"
      using rj(1) by (auto simp: get split: if_splits)
    then show "a = b" by (intro queue_okD(3) [OF D(3)])
  qed
  moreover have "wf_limiter ?l" using D(1) q by (auto simp: wf_limiter_def)
  moreover have "int (outstanding ?c) = int (outstanding c) + 1"
    using outstanding_upd [of "c\<lparr>cl_limiter := ?l\<rparr>" j rj "\<lambda>r. r\<lparr>ri_watcher := True\<rparr>"] D(2) rj
    by (simp add: send_request_def req_waiting_def)
  moreover have "\<forall>i \<in> set (cl_fakes c). get_req i ?c \<noteq> None" using D(5) by (auto simp: get)
  ultimately show "client_inv ex (k - 1) ?c" using D(2,6,7) by (simp add: client_inv_def send_request_def)
qed

text \<open>\<open>done()\<close> never fails its assertion, passes exactly one slot on and changes no request that is not waiting.\<close>

lemma done_inv:
  assumes inv: "client_inv ex k c" and pos: "0 < running (cl_limiter c)"
  obtains c' where "on_limiter (limiter_done sends) c = (Inr (), c')" "client_inv ex (k - 1) c'"
    "\<And>i r. get_req i c = Some r \<Longrightarrow> \<not> req_waiting r \<Longrightarrow> get_req i c' = Some r"
    "cl_fakes c' = cl_fakes c" "cl_pumps c' = cl_pumps c"
  using pos
proof (cases rule: limiter_done_split)
  case idle
  show thesis
    by (rule that [OF _ client_inv_idle [OF inv idle(1) pos]]) (use idle(2) in \<open>simp_all add: on_limiter_def\<close>)
next
  case (next_job q h j t)
  note N = client_inv_next(1) [OF inv next_job(1,2), where st = "started (cl_limiter c) @ [j]"]
  from client_inv_next(2) [OF inv next_job(1,2)] obtain rj where rj: "get_req j c = Some rj" "req_waiting rj" by blast
  show thesis
    by (rule that [OF _ N]) (use next_job(3) rj in \<open>auto simp: on_limiter_def send_request_def get_upd_req\<close>)
qed

section \<open>Changing one request\<close>

lemma client_inv_change:
  assumes inv: "client_inv ex k c" and g: "get_req i c = Some r" and fc: "ri_cancel_func (f r) = ri_cancel_func r"
    and wf: "wf_limiter l" "next_handle l = next_handle (cl_limiter c)"
    and fst_q: "fst ` set (queue l) = fst ` set (queue (cl_limiter c))"
    and others: "\<And>h j. j \<noteq> i \<Longrightarrow> (h, Some j) \<in> set (queue l) \<longleftrightarrow> (h, Some j) \<in> set (queue (cl_limiter c))"
    and none: "\<And>h. (h, Some i) \<notin> set (queue l)"
    and ok: "req_ok ex' (queue l) fk i (f r)" and ex: "\<And>j. j \<noteq> i \<Longrightarrow> j \<in> ex' \<longleftrightarrow> j \<in> ex"
    and fk: "\<And>j. j \<noteq> i \<Longrightarrow> j \<in> set fk \<longleftrightarrow> j \<in> set (cl_fakes c)" "distinct fk"
    and k': "k' = k + (running l - running (cl_limiter c)) - of_bool (ri_watcher (f r)) + of_bool (ri_watcher r)"
  shows "client_inv ex' k' (upd_req i f (c\<lparr>cl_limiter := l, cl_fakes := fk\<rparr>))"
proof -
  note D = client_invD [OF inv]
  let ?c = "upd_req i f (c\<lparr>cl_limiter := l, cl_fakes := fk\<rparr>)"
  have get: "get_req j ?c = (if j = i then Some (f r) else get_req j c)" for j
    by (simp add: get_upd_req g)
  have prev: "\<exists>r0. get_req j c = Some r0 \<and> ri_cancel_func r0 = ri_cancel_func r1" if "get_req j ?c = Some r1" for j r1
    using that g fc by (auto simp: get split: if_splits)
  have "req_ok ex' (queue l) fk j r1" if "get_req j ?c = Some r1" for j r1
  proof (cases "j = i")
    case True
    with that ok show ?thesis by (simp add: get)
  next
    case False
    with that have "req_ok ex (queue (cl_limiter c)) (cl_fakes c) j r1" using D(4) by (simp add: get)
    then have "req_ok ex (queue l) (cl_fakes c) j r1" by (rule req_ok_queue) (use fst_q others False in auto)
    then show ?thesis using fk(1) [OF False] ex [OF False] by (rule req_ok_sets)
  qed
  moreover have "queue_ok ?c"
    unfolding queue_ok_def
  proof (intro conjI allI impI)
    fix h j assume "(h, Some j) \<in> set (queue (cl_limiter ?c))"
    then have q: "(h, Some j) \<in> set (queue l)" by simp
    then have "j \<noteq> i" using none by blast
    with q others have "(h, Some j) \<in> set (queue (cl_limiter c))" by simp
    from queue_okD(1) [OF D(3) this] \<open>j \<noteq> i\<close>
    show "\<exists>r. get_req j ?c = Some r \<and> ri_cancel_func r = Some (Queued h) \<and> req_waiting r" by (simp add: get)
  next
    fix j r1 h assume "get_req j ?c = Some r1 \<and> ri_cancel_func r1 = Some (Queued h)"
    with prev obtain r0 where "get_req j c = Some r0" "ri_cancel_func r0 = Some (Queued h)" by metis
    from queue_okD(2) [OF D(3) this] wf(2) show "h < next_handle (cl_limiter ?c)" by simp
  next
    fix a b ra rb h
    assume "get_req a ?c = Some ra \<and> get_req b ?c = Some rb \<and>
        ri_cancel_func ra = Some (Queued h) \<and> ri_cancel_func rb = Some (Queued h)"
    with prev [of a ra] prev [of b rb] obtain r0 r1 where "get_req a c = Some r0" "get_req b c = Some r1"
        "ri_cancel_func r0 = Some (Queued h)" "ri_cancel_func r1 = Some (Queued h)" by metis
    then show "a = b" by (rule queue_okD(3) [OF D(3)])
  qed
  moreover have "int (outstanding ?c) = int (outstanding c) - of_bool (ri_watcher r) + of_bool (ri_watcher (f r))"
    using outstanding_upd [of "c\<lparr>cl_limiter := l, cl_fakes := fk\<rparr>" i r f] D(2) g by simp
  moreover have "get_req j ?c \<noteq> None" if "j \<in> set fk" for j
    using that D(5) [of j] fk(1) [of j] by (cases "j = i") (auto simp: get)
  ultimately show ?thesis using D(2,7) wf(1) fk(2) k' by (simp add: client_inv_def)
qed

text \<open>Cancelling clears at most the job of the request itself; it succeeds exactly for requests that wait.\<close>

lemma set_clear_job:
  "distinct (map fst q) \<Longrightarrow>
   (h', x) \<in> set (clear_job h q) \<longleftrightarrow> (if h' = h then x = None \<and> h \<in> fst ` set q else (h', x) \<in> set q)"
proof (induction h q rule: clear_job.induct)
  case (2 h h'' j q)
  show ?case
  proof (cases "h'' = h")
    case True
    with 2(2) show ?thesis by (auto simp: image_iff)
  next
    case False
    with 2 have "(h', x) \<in> set (clear_job h q) \<longleftrightarrow> (if h' = h then x = None \<and> h \<in> fst ` set q else (h', x) \<in> set q)" by simp
    with False show ?thesis by (cases "h' = h") auto
  qed
qed simp

lemma cancel_facts:
  assumes inv: "client_inv ex k c" and g: "get_req i c = Some r" and cf: "ri_cancel_func r = Some cf"
    and ca: "cancel cf (cl_limiter c) = (b, l)"
  shows "wf_limiter l" "next_handle l = next_handle (cl_limiter c)" "running l = running (cl_limiter c)"
    and "fst ` set (queue l) = fst ` set (queue (cl_limiter c))"
    and "\<And>h j. j \<noteq> i \<Longrightarrow> (h, Some j) \<in> set (queue l) \<longleftrightarrow> (h, Some j) \<in> set (queue (cl_limiter c))"
    and "\<And>h. (h, Some i) \<notin> set (queue l)"
    and "ri_watcher r \<Longrightarrow> i \<notin> ex \<Longrightarrow> \<not> b" and "req_waiting r \<Longrightarrow> b"
    and "started l = started (cl_limiter c)" "concurrency l = concurrency (cl_limiter c)"
proof -
  note D = client_invD [OF inv]
  have dist: "distinct (map fst (queue (cl_limiter c)))" using D(1) by (simp add: wf_limiter_def)
  show "wf_limiter l" using wf_cancel [OF D(1), of cf] ca by simp
  show "next_handle l = next_handle (cl_limiter c)" "running l = running (cl_limiter c)"
      "started l = started (cl_limiter c)" "concurrency l = concurrency (cl_limiter c)"
    using ca by (cases cf; auto split: if_splits)+
  have "map fst (queue l) = map fst (queue (cl_limiter c))" using ca by (cases cf) (auto split: if_splits)
  then show "fst ` set (queue l) = fst ` set (queue (cl_limiter c))" by (metis list.set_map)
  have own: "cf = Queued h" if "(h, Some i) \<in> set (queue (cl_limiter c))" for h
    using queue_okD(1) [OF D(3) that] g cf by auto
  have q: "(h', Some j) \<in> set (queue l) \<longleftrightarrow> (h', Some j) \<in> set (queue (cl_limiter c)) \<and> cf \<noteq> Queued h'" for h' j
  proof (cases cf)
    case Not_queued
    with ca show ?thesis by simp
  next
    case (Queued h)
    show ?thesis
    proof (cases "h \<in> fst ` set (queue (cl_limiter c))")
      case True
      with ca Queued have "queue l = clear_job h (queue (cl_limiter c))" by auto
      with set_clear_job [OF dist] Queued show ?thesis by auto
    next
      case False
      with ca Queued have "l = cl_limiter c" by simp
      with False Queued show ?thesis by (force simp: image_iff)
    qed
  qed
  show "(h, Some j) \<in> set (queue l) \<longleftrightarrow> (h, Some j) \<in> set (queue (cl_limiter c))" if "j \<noteq> i" for h j
  proof -
    have "cf \<noteq> Queued h" if h: "(h, Some j) \<in> set (queue (cl_limiter c))"
    proof
      assume "cf = Queued h"
      from queue_okD(1) [OF D(3) h] obtain rj where "get_req j c = Some rj" "ri_cancel_func rj = Some (Queued h)" by blast
      with g cf \<open>cf = Queued h\<close> have "j = i" by (auto intro: queue_okD(3) [OF D(3)])
      with \<open>j \<noteq> i\<close> show False by simp
    qed
    with q show ?thesis by blast
  qed
  show "(h, Some i) \<notin> set (queue l)" for h using q own by blast
  show "\<not> b" if "ri_watcher r" "i \<notin> ex"
    using D(4) [OF g] that ca cf by (cases cf) (auto simp: req_ok_def split: if_splits)
  show b if "req_waiting r"
  proof -
    from D(4) [OF g] that cf obtain h where "cf = Queued h" "(h, Some i) \<in> set (queue (cl_limiter c))"
      by (auto simp: req_ok_def)
    with ca show b by (force split: if_splits)
  qed
qed

section \<open>Finishing a request\<close>

lemma limiter_id [simp]: "c\<lparr>cl_limiter := cl_limiter c\<rparr> = c"
  and fakes_id [simp]: "c\<lparr>cl_fakes := cl_fakes c\<rparr> = c"
  by simp_all

lemma not_queued:
  assumes "client_inv ex k c" and "get_req i c = Some r" and "\<not> req_waiting r"
  shows "(h, Some i) \<notin> set (queue (cl_limiter c))"
  using queue_okD(1) [OF client_invD(3) [OF assms(1)], of h i] assms(2,3) by auto

text \<open>What both ways to finish do to the request.\<close>

definition finishes :: "('i request_impl \<Rightarrow> 'i request_impl) \<Rightarrow> bool" where
  "finishes f \<longleftrightarrow> (\<forall>r. ri_finished (f r) \<and> \<not> ri_watcher (f r) \<and> ri_cancel_func (f r) = ri_cancel_func r \<and>
     ri_cancelled (f r) = ri_cancelled r \<and> ri_size (f r) = ri_size r \<and> ri_signals (f r) = Suc (ri_signals r))"

lemma finish_inv:
  assumes inv: "client_inv ex k c" and g: "get_req i c = Some r" and r: "\<not> req_waiting r" "\<not> ri_finished r" and f: "finishes f"
  shows "client_inv (ex - {i}) (k + of_bool (ri_watcher r)) (upd_req i f (c\<lparr>cl_fakes := removeAll i (cl_fakes c)\<rparr>))"
proof -
  note D = client_invD [OF inv]
  have "req_ok ex (queue (cl_limiter c)) (cl_fakes c) i r" by (rule D(4) [OF g])
  then have "isValid (ri_size r)" "ri_signals r = 0" using r(2) by (auto simp: req_ok_def)
  then have "req_ok (ex - {i}) (queue (cl_limiter c)) (removeAll i (cl_fakes c)) i (f r)"
    using f by (simp add: finishes_def req_ok_def req_waiting_def)
  moreover have "ri_cancel_func (f r) = ri_cancel_func r" "\<not> ri_watcher (f r)" using f by (simp_all add: finishes_def)
  ultimately have "client_inv (ex - {i}) (k + of_bool (ri_watcher r))
      (upd_req i f (c\<lparr>cl_limiter := cl_limiter c, cl_fakes := removeAll i (cl_fakes c)\<rparr>))"
    using D(1,6) not_queued [OF inv g r(1)]
    by (intro client_inv_change [OF inv g]) (simp_all add: distinct_removeAll)
  then show ?thesis by simp
qed

lemma finishes_error:
  "finishes (\<lambda>r. r\<lparr>ri_error_message := m, ri_finished := True, ri_is_valid := False, ri_image := None, ri_watcher := False,
     ri_signals := Suc (ri_signals r)\<rparr>)"
  and finishes_image:
  "finishes (\<lambda>r. r\<lparr>ri_image := im, ri_finished := True, ri_is_valid := True, ri_error_message := [],
     ri_signals := Suc (ri_signals r), ri_watcher := False\<rparr>)"
  by (simp_all add: finishes_def)

lemma outstanding_pos: "get_req i c = Some r \<Longrightarrow> ri_watcher r \<Longrightarrow> 0 < outstanding c"
  unfolding outstanding_def get_req_def by (force dest!: map_of_SomeD simp: filter_empty_conv)

text \<open>A reply passes the slot on, finishes the request, and fails no assertion.\<close>

lemma dbusCallFinished_reply:
  assumes inv: "client_inv ex 0 c" and g: "get_req i c = Some r" and w: "ri_watcher r" and ex: "ex \<subseteq> {i}"
  obtains c' r' where "dbusCallFinished fromData reply i c = (Inr (), c')" "client_inv {} 0 c'" "get_req i c' = Some r'"
    "ri_finished r'" "ri_is_valid r' \<longleftrightarrow> \<not> ri_cancelled r \<and> isl reply = False"
proof -
  note D = client_invD [OF inv]
  have ok: "\<not> ri_finished r" "ri_cancelled r \<longrightarrow> \<not> ri_cancelled_while_waiting r" "i \<notin> set (cl_fakes c)"
    using D(4) [OF g] w by (auto simp: req_ok_def)
  have nw: "\<not> req_waiting r" using w by (simp add: req_waiting_def)
  have "0 < running (cl_limiter c)" using D(7) outstanding_pos [OF g w] by simp
  from done_inv [OF inv this] obtain c1 where c1: "on_limiter (limiter_done sends) c = (Inr (), c1)" "client_inv ex (- 1) c1"
      "get_req i c1 = Some r" "cl_fakes c1 = cl_fakes c"
    using g nw by (metis add_uminus_conv_diff add_0)
  define f :: "'a request_impl \<Rightarrow> 'a request_impl" where "f = (if ri_cancelled r
      then \<lambda>r. r\<lparr>ri_error_message := ''Request cancelled'', ri_finished := True, ri_is_valid := False, ri_image := None,
                ri_watcher := False, ri_signals := Suc (ri_signals r)\<rparr>
      else case reply of
             Inl err \<Rightarrow> \<lambda>r. r\<lparr>ri_error_message := ''Thumbnailer: RequestImpl::dbusCallFinished(): D-Bus error: '' @ err,
                ri_finished := True, ri_is_valid := False, ri_image := None, ri_watcher := False, ri_signals := Suc (ri_signals r)\<rparr>
           | Inr bytes \<Rightarrow> \<lambda>r. r\<lparr>ri_image := fromData bytes, ri_finished := True, ri_is_valid := True, ri_error_message := [],
                ri_signals := Suc (ri_signals r), ri_watcher := False\<rparr>)"
  have call: "dbusCallFinished fromData reply i c = (Inr (), upd_req i f c1)"
    using g w ok c1(1) by (cases reply) (auto simp: dbusCallFinished_def act_bind_def finishWithError_def f_def)
  have fin: "finishes f" by (auto simp: f_def finishes_error finishes_image split: sum.splits)
  have same: "c1\<lparr>cl_fakes := removeAll i (cl_fakes c1)\<rparr> = c1" using ok(3) c1(4) by (simp add: removeAll_id)
  have none: "ex - {i} = {}" using ex by auto
  have "client_inv {} 0 (upd_req i f c1)"
    using finish_inv [OF c1(2,3) nw ok(1) fin] w unfolding none same by simp
  moreover have "get_req i (upd_req i f c1) = Some (f r)" by (simp add: get_upd_req c1(3))
  moreover have "ri_finished (f r)" using fin by (simp add: finishes_def)
  moreover have "ri_is_valid (f r) \<longleftrightarrow> \<not> ri_cancelled r \<and> isl reply = False" by (cases reply) (auto simp: f_def)
  ultimately show thesis using that call by blast
qed

text \<open>The call queued by \<open>cancel\<close> finishes the request without touching the limiter.\<close>

lemma dbusCallFinished_fake:
  assumes inv: "client_inv {} 0 c" and i: "i \<in> set (cl_fakes c)"
  obtains c' where "dbusCallFinished fromData reply i (c\<lparr>cl_fakes := removeAll i (cl_fakes c)\<rparr>) = (Inr (), c')" "client_inv {} 0 c'"
proof -
  note D = client_invD [OF inv]
  obtain r where g: "get_req i c = Some r" using D(5) [OF i] by blast
  have r: "ri_cancelled r" "ri_cancelled_while_waiting r" "\<not> ri_finished r" "\<not> ri_watcher r"
    using D(4) [OF g] i by (auto simp: req_ok_def)
  have nw: "\<not> req_waiting r" using r by (simp add: req_waiting_def)
  note F = finish_inv [OF inv g nw r(3) finishes_error, of "''Request cancelled''"]
  have "dbusCallFinished fromData reply i (c\<lparr>cl_fakes := removeAll i (cl_fakes c)\<rparr>) =
      (Inr (), upd_req i (\<lambda>r. r\<lparr>ri_error_message := ''Request cancelled'', ri_finished := True, ri_is_valid := False,
        ri_image := None, ri_watcher := False, ri_signals := Suc (ri_signals r)\<rparr>) (c\<lparr>cl_fakes := removeAll i (cl_fakes c)\<rparr>))"
    using g r by (simp add: dbusCallFinished_def finishWithError_def)
  with F r(4) that show thesis by simp
qed

lemma pump_inv:
  assumes inv: "client_inv {} 0 c" and p: "0 < cl_pumps c"
  obtains c' where "pump_limiter (c\<lparr>cl_pumps := cl_pumps c - 1\<rparr>) = (Inr (), c')" "client_inv {} 0 c'"
proof -
  have inv1: "client_inv {} 1 (c\<lparr>cl_pumps := cl_pumps c - 1\<rparr>)"
    using inv p by (simp add: client_inv_def queue_ok_def)
  have "0 < running (cl_limiter c)" using client_invD(7) [OF inv] p by simp
  with done_inv [OF inv1] that show thesis by (auto simp: pump_limiter_def)
qed

section \<open>Cancelling, waiting, destroying\<close>

lemma upd_req_upd_req: "upd_req i g (upd_req i f c) = upd_req i (\<lambda>r. g (f r)) c"
  by (simp add: upd_req_def comp_def case_prod_unfold)

lemma upd_req_limiter: "(upd_req i f c)\<lparr>cl_limiter := l\<rparr> = upd_req i f (c\<lparr>cl_limiter := l\<rparr>)"
  and upd_req_fakes: "(upd_req i f c)\<lparr>cl_fakes := fk\<rparr> = upd_req i f (c\<lparr>cl_fakes := fk\<rparr>)"
  by (simp_all add: upd_req_def)

lemma cancel_func_set:
  assumes "client_inv {} 0 c" and "get_req i c = Some r" and "\<not> ri_finished r" and "\<not> ri_cancelled r"
  obtains cf where "ri_cancel_func r = Some cf"
  using client_invD(4) [OF assms(1,2)] assms(3,4) by (cases "ri_watcher r") (auto simp: req_ok_def req_waiting_def)

lemma req_ok_unfinished:
  assumes "req_ok ex q fakes i r" and "\<not> ri_finished r"
  shows "isValid (ri_size r)" "ri_signals r = 0" "i \<in> set fakes \<Longrightarrow> ri_cancelled r"
    "ri_watcher r \<Longrightarrow> i \<notin> ex \<Longrightarrow> ri_cancel_func r = Some (Queued h) \<Longrightarrow> h \<notin> fst ` set q"
  using assms by (simp_all add: req_ok_def)

lemma cancel_request_inv:
  assumes inv: "client_inv {} 0 c" and g: "get_req i c = Some r"
  obtains c' where "cancel_request i c = (Inr (), c')" "client_inv {} 0 c'"
proof (cases "ri_finished r \<or> ri_cancelled r")
  case True
  then have "cancel_request i c = (Inr (), c)" using g by (simp add: cancel_request_def)
  with inv that show thesis by blast
next
  case False
  note D = client_invD [OF inv]
  obtain cf where cf: "ri_cancel_func r = Some cf" using cancel_func_set [OF inv g] False by blast
  obtain b l where ca: "cancel cf (cl_limiter c) = (b, l)" by (cases "cancel cf (cl_limiter c)")
  note F = cancel_facts [OF inv g cf ca]
  let ?f = "\<lambda>r. r\<lparr>ri_cancelled := True, ri_cancelled_while_waiting := b\<rparr>"
  let ?fk = "if b then cl_fakes c @ [i] else cl_fakes c"
  have ok: "req_ok {} (queue (cl_limiter c)) (cl_fakes c) i r" by (rule D(4) [OF g])
  note R = req_ok_unfinished [OF ok]
  have i: "i \<notin> set (cl_fakes c)" using False R(3) by blast
  have b: "b \<longleftrightarrow> \<not> ri_watcher r" using F(7,8) False by (auto simp: req_waiting_def)
  have "ri_watcher r \<longrightarrow> (\<forall>h. cf = Queued h \<longrightarrow> h \<notin> fst ` set (queue l))"
    using R(4) False cf F(4) by auto
  then have "req_ok {} (queue l) ?fk i (?f r)"
    unfolding req_ok_def req_waiting_def using False i b cf R(1,2) by simp
  then have "client_inv {} 0 (upd_req i ?f (c\<lparr>cl_limiter := l, cl_fakes := ?fk\<rparr>))"
    using F(1-6) i D(6) by (intro client_inv_change [OF inv g]) auto
  moreover have "cancel_request i c = (Inr (), upd_req i ?f (c\<lparr>cl_limiter := l, cl_fakes := ?fk\<rparr>))"
    using g False cf ca
    by (simp add: cancel_request_def call_cancel_def act_bind_def Let_def upd_req_limiter upd_req_fakes upd_req_upd_req)
  ultimately show thesis using that by blast
qed

lemma wait_inv:
  assumes inv: "client_inv {} 0 c" and g: "get_req i c = Some r"
  obtains c' r' where "waitForFinished_request fromData reply i c = (Inr (), c')" "client_inv {} 0 c'" "get_req i c' = Some r'"
    "ri_finished r' \<or> ri_cancelled r'"
proof (cases "ri_finished r \<or> ri_cancelled r")
  case True
  then have "waitForFinished_request fromData reply i c = (Inr (), c)" using g by (simp add: waitForFinished_request_def)
  with inv that g True show thesis by blast
next
  case False
  note D = client_invD [OF inv]
  obtain cf where cf: "ri_cancel_func r = Some cf" using cancel_func_set [OF inv g] False by blast
  obtain b l where ca: "cancel cf (cl_limiter c) = (b, l)" by (cases "cancel cf (cl_limiter c)")
  note F = cancel_facts [OF inv g cf ca]
  have b: "b \<longleftrightarrow> \<not> ri_watcher r" using F(7,8) False by (auto simp: req_waiting_def)
  show thesis
  proof (cases "ri_watcher r")
    case True
    with b ca have l: "l = cl_limiter c" by (cases cf) (auto split: if_splits)
    obtain c' r' where "dbusCallFinished fromData reply i c = (Inr (), c')" "client_inv {} 0 c'" "get_req i c' = Some r'"
        "ri_finished r'"
      using dbusCallFinished_reply [OF inv g True, of fromData reply] by blast
    moreover have "waitForFinished_request fromData reply i c = dbusCallFinished fromData reply i c"
      using g False cf ca b True l by (simp add: waitForFinished_request_def call_cancel_def act_bind_def)
    ultimately show thesis using that by metis
  next
    case nw: False
    let ?l = "l\<lparr>running := running l + 1, started := started l @ [i]\<rparr>"
    let ?f = "\<lambda>r. r\<lparr>ri_watcher := True\<rparr>"
    let ?c = "upd_req i ?f (c\<lparr>cl_limiter := ?l\<rparr>)"
    have "req_ok {} (queue (cl_limiter c)) (cl_fakes c) i r" by (rule D(4) [OF g])
    note R = req_ok_unfinished [OF this]
    have "req_ok {i} (queue ?l) (cl_fakes c) i (?f r)"
      unfolding req_ok_def req_waiting_def using False cf R(1-3) by auto
    then have "client_inv {i} 0 (upd_req i ?f (c\<lparr>cl_limiter := ?l, cl_fakes := cl_fakes c\<rparr>))"
      using F(1-6) D(6) nw by (intro client_inv_change [OF inv g]) (auto simp: wf_limiter_def)
    then have inv': "client_inv {i} 0 ?c" by simp
    have g': "get_req i ?c = Some (?f r)" by (simp add: get_upd_req g)
    have w': "ri_watcher (?f r)" by simp
    obtain c' r' where "dbusCallFinished fromData reply i ?c = (Inr (), c')" "client_inv {} 0 c'" "get_req i c' = Some r'"
        "ri_finished r'"
      using dbusCallFinished_reply [OF inv' g' w' subset_refl, of fromData reply] by blast
    moreover have "waitForFinished_request fromData reply i c = dbusCallFinished fromData reply i ?c"
      using g False cf ca b nw F(9)
      by (simp add: waitForFinished_request_def call_cancel_def act_bind_def on_limiter_def schedule_now_def send_request_def)
    ultimately show thesis using that by metis
  qed
qed

lemma get_req_remove:
  "get_req j (c\<lparr>cl_reqs := filter (\<lambda>p. fst p \<noteq> i) (cl_reqs c)\<rparr>) = (if j = i then None else get_req j c)"
proof -
  have "map_of (filter (\<lambda>p. fst p \<noteq> i) rs) j = (if j = i then None else map_of rs j)" for rs :: "(nat \<times> 'a request_impl) list"
    by (induction rs) auto
  then show ?thesis by (simp add: get_req_def)
qed

text \<open>Destroying a request that was sent and not answered queues one pump for its slot.\<close>

lemma request_destroy_inv:
  assumes inv: "client_inv {} 0 c" and g: "get_req i c = Some r"
  shows "client_inv {} 0 (RequestImpl_destroy i c)"
proof -
  note D = client_invD [OF inv]
  obtain b l where bl: "(case ri_cancel_func r of None \<Rightarrow> (True, cl_limiter c) | Some cf \<Rightarrow> cancel cf (cl_limiter c)) = (b, l)"
    by (cases "case ri_cancel_func r of None \<Rightarrow> (True, cl_limiter c) | Some cf \<Rightarrow> cancel cf (cl_limiter c)")
  have F: "wf_limiter l" "next_handle l = next_handle (cl_limiter c)" "running l = running (cl_limiter c)"
    "fst ` set (queue l) = fst ` set (queue (cl_limiter c))"
    "\<And>h j. j \<noteq> i \<Longrightarrow> (h, Some j) \<in> set (queue l) \<longleftrightarrow> (h, Some j) \<in> set (queue (cl_limiter c))"
    "\<And>h. (h, Some i) \<notin> set (queue l)" "ri_watcher r \<Longrightarrow> ri_cancel_func r \<noteq> None \<and> \<not> b"
  proof -
    have none: "\<not> ri_watcher r \<and> \<not> req_waiting r" if "ri_cancel_func r = None"
      using D(4) [OF g] that by (auto simp: req_ok_def)
    show "wf_limiter l" "next_handle l = next_handle (cl_limiter c)" "running l = running (cl_limiter c)"
      "fst ` set (queue l) = fst ` set (queue (cl_limiter c))"
      "\<And>h j. j \<noteq> i \<Longrightarrow> (h, Some j) \<in> set (queue l) \<longleftrightarrow> (h, Some j) \<in> set (queue (cl_limiter c))"
      "\<And>h. (h, Some i) \<notin> set (queue l)" "ri_watcher r \<Longrightarrow> ri_cancel_func r \<noteq> None \<and> \<not> b"
      using bl D(1) none not_queued [OF inv g] cancel_facts(1-7) [OF inv g]
      by (cases "ri_cancel_func r"; auto)+
  qed
  define rs where "rs = filter (\<lambda>p. fst p \<noteq> i) (cl_reqs c)"
  define c' where "c' = RequestImpl_destroy i c"
  have c': "c' = c\<lparr>cl_limiter := l, cl_pumps := (if ri_watcher r then Suc (cl_pumps c) else cl_pumps c), cl_reqs := rs,
      cl_fakes := removeAll i (cl_fakes c), cl_finished_calls := removeAll i (cl_finished_calls c)\<rparr>"
    using g bl F(7) by (auto simp: c'_def RequestImpl_destroy_def Let_def rs_def)
  have get: "get_req j c' = (if j = i then None else get_req j c)" for j
    using get_req_remove [of j i c] by (simp add: c' rs_def get_req_def)
  have "req_ok {} (queue l) (removeAll i (cl_fakes c)) j r1" if "get_req j c' = Some r1" for j r1
  proof -
    from that have j: "j \<noteq> i" "get_req j c = Some r1" by (auto simp: get split: if_splits)
    have "req_ok {} (queue l) (cl_fakes c) j r1" by (rule req_ok_queue [OF D(4) [OF j(2)]]) (use F(4,5) j(1) in auto)
    then show ?thesis by (rule req_ok_sets) (use j(1) in auto)
  qed
  moreover have "queue_ok c'"
    unfolding queue_ok_def
  proof (intro conjI allI impI)
    fix h j assume "(h, Some j) \<in> set (queue (cl_limiter c'))"
    then have q: "(h, Some j) \<in> set (queue l)" by (simp add: c')
    then have "j \<noteq> i" using F(6) by blast
    with q F(5) have "(h, Some j) \<in> set (queue (cl_limiter c))" by simp
    from queue_okD(1) [OF D(3) this] \<open>j \<noteq> i\<close>
    show "\<exists>r. get_req j c' = Some r \<and> ri_cancel_func r = Some (Queued h) \<and> req_waiting r" by (simp add: get)
  next
    fix j r1 h assume "get_req j c' = Some r1 \<and> ri_cancel_func r1 = Some (Queued h)"
    then have "get_req j c = Some r1" "ri_cancel_func r1 = Some (Queued h)" by (auto simp: get split: if_splits)
    from queue_okD(2) [OF D(3) this] show "h < next_handle (cl_limiter c')" by (simp add: c' F(2))
  next
    fix a b' ra rb h
    assume "get_req a c' = Some ra \<and> get_req b' c' = Some rb \<and>
        ri_cancel_func ra = Some (Queued h) \<and> ri_cancel_func rb = Some (Queued h)"
    then show "a = b'" by (auto simp: get split: if_splits intro: queue_okD(3) [OF D(3)])
  qed
  moreover have "distinct_reqs c'" using D(2) by (simp add: c' distinct_reqs_def rs_def distinct_map_filter)
  moreover have "int (outstanding c') = int (outstanding c) - of_bool (ri_watcher r)"
    using outstanding_remove [OF D(2) g] by (simp add: c' outstanding_def rs_def)
  moreover have "get_req j c' \<noteq> None" if "j \<in> set (removeAll i (cl_fakes c))" for j
    using that D(5) [of j] by (auto simp: get)
  ultimately have "client_inv {} 0 c'"
    using F(1,3) D(6,7) by (auto simp: client_inv_def c' distinct_removeAll)
  then show ?thesis by (simp add: c'_def)
qed

section \<open>New requests\<close>

lemma get_req_add: "get_req j (c\<lparr>cl_reqs := (i, r) # cl_reqs c\<rparr>) = (if j = i then Some r else get_req j c)"
  by (simp add: get_req_def)

text \<open>Adding a finished or just scheduled request to a client whose limiter already has the job.\<close>

lemma client_inv_add:
  assumes inv: "client_inv {} 0 c" and new: "get_req i c = None" and l: "wf_limiter l"
    and nh: "next_handle (cl_limiter c) \<le> next_handle l"
    and q: "queue l = queue (cl_limiter c) @ q'" and q': "\<forall>p \<in> set q'. p = (next_handle (cl_limiter c), Some i)"
    and cf: "\<And>h. ri_cancel_func r = Some (Queued h) \<Longrightarrow> h = next_handle (cl_limiter c) \<and> h < next_handle l"
    and w: "q' \<noteq> [] \<Longrightarrow> req_waiting r \<and> ri_cancel_func r = Some (Queued (next_handle (cl_limiter c)))"
    and ok: "req_ok {} (queue l) (cl_fakes c) i r"
    and run: "running l = running (cl_limiter c) + of_bool (ri_watcher r)"
  shows "client_inv {} 0 (c\<lparr>cl_reqs := (i, r) # cl_reqs c, cl_limiter := l\<rparr>)"
proof -
  note D = client_invD [OF inv]
  let ?c = "c\<lparr>cl_reqs := (i, r) # cl_reqs c, cl_limiter := l\<rparr>"
  have "req_ok {} (queue l) (cl_fakes c) j r1" if "get_req j ?c = Some r1" for j r1
  proof (cases "j = i")
    case True
    with that ok show ?thesis by (simp add: get_req_add)
  next
    case False
    with that have j: "get_req j c = Some r1" by (simp add: get_req_add)
    have "h \<noteq> next_handle (cl_limiter c)" if "ri_cancel_func r1 = Some (Queued h)" for h
      using queue_okD(2) [OF D(3) j that] by simp
    then show ?thesis unfolding q by (intro req_ok_queue [OF D(4) [OF j]]) (use q' in auto)
  qed
  moreover have "queue_ok ?c"
    unfolding queue_ok_def
  proof (intro conjI allI impI)
    fix h j assume "(h, Some j) \<in> set (queue (cl_limiter ?c))"
    then consider "(h, Some j) \<in> set (queue (cl_limiter c))" | "(h, Some j) \<in> set q'" using q by auto
    then show "\<exists>r. get_req j ?c = Some r \<and> ri_cancel_func r = Some (Queued h) \<and> req_waiting r"
    proof cases
      case 1
      from queue_okD(1) [OF D(3) this] new show ?thesis by (auto simp: get_req_add)
    next
      case 2
      then have "q' \<noteq> []" "h = next_handle (cl_limiter c)" "j = i" using q' by auto
      with w show ?thesis by (simp add: get_req_add)
    qed
  next
    fix j r1 h assume "get_req j ?c = Some r1 \<and> ri_cancel_func r1 = Some (Queued h)"
    then show "h < next_handle (cl_limiter ?c)"
      using cf queue_okD(2) [OF D(3)] nh by (auto simp: get_req_add split: if_splits) (metis less_le_trans)
  next
    fix a b ra rb h
    assume *: "get_req a ?c = Some ra \<and> get_req b ?c = Some rb \<and>
        ri_cancel_func ra = Some (Queued h) \<and> ri_cancel_func rb = Some (Queued h)"
    have old: "h < next_handle (cl_limiter c)" if "get_req j c = Some r1" "ri_cancel_func r1 = Some (Queued h)" for j r1
      using queue_okD(2) [OF D(3) that] .
    show "a = b"
      using * cf old queue_okD(3) [OF D(3)] by (auto simp: get_req_add split: if_splits)
  qed
  moreover have "distinct_reqs ?c" using D(2) new by (auto simp: distinct_reqs_def get_req_def map_of_eq_None_iff)
  moreover have "int (outstanding ?c) = int (outstanding c) + of_bool (ri_watcher r)" by (simp add: outstanding_def)
  moreover have "get_req j ?c \<noteq> None" if "j \<in> set (cl_fakes c)" for j using that D(5) by (simp add: get_req_add)
  ultimately show ?thesis using l run D(6,7) by (simp add: client_inv_def)
qed

lemma upd_req_add:
  assumes "get_req i c = None"
  shows "upd_req i f (c\<lparr>cl_reqs := (i, r) # cl_reqs c, cl_limiter := l\<rparr>) = c\<lparr>cl_reqs := (i, f r) # cl_reqs c, cl_limiter := l\<rparr>"
proof -
  have "i \<notin> fst ` set (cl_reqs c)" using assms by (simp add: get_req_def map_of_eq_None_iff)
  then have "map (\<lambda>(j, r). (j, if j = i then f r else r)) (cl_reqs c) = cl_reqs c" by (intro map_idI) (force simp: image_iff)
  then show ?thesis by (simp add: upd_req_def)
qed

lemma RequestImpl_inv:
  assumes inv: "client_inv {} 0 c" and new: "get_req i c = None"
  obtains c' r where "RequestImpl i details sz c = (Inr (), c')" "client_inv {} 0 c'" "get_req i c' = Some r"
proof -
  note D = client_invD [OF inv]
  let ?L = "cl_limiter c" and ?r = "new_request details sz"
  have i: "i \<notin> set (cl_fakes c)" using D(5) [of i] new by blast
  have pos: "0 \<le> running ?L" using D(1) by (simp add: wf_limiter_def)
  show thesis
  proof (cases "isValid sz")
    case False
    let ?r1 = "?r\<lparr>ri_error_message := details @ '': invalid QSize'', ri_finished := True\<rparr>"
    have "req_ok {} (queue ?L) (cl_fakes c) i ?r1" using False i by (simp add: new_request_def req_ok_def req_waiting_def)
    then have "client_inv {} 0 (c\<lparr>cl_reqs := (i, ?r1) # cl_reqs c, cl_limiter := ?L\<rparr>)"
      using D(1) by (intro client_inv_add [OF inv new, where q' = "[]"]) (simp_all add: new_request_def)
    then show thesis using that False by (simp add: RequestImpl_def Let_def get_req_add)
  next
    case valid: True
    show thesis
    proof (cases "running ?L < concurrency ?L")
      case True
      let ?l = "?L\<lparr>running := running ?L + 1, started := started ?L @ [i]\<rparr>"
      let ?r1 = "?r\<lparr>ri_watcher := True, ri_cancel_func := Some Not_queued\<rparr>"
      have "req_ok {} (queue ?l) (cl_fakes c) i ?r1" using valid i by (simp add: new_request_def req_ok_def req_waiting_def)
      then have "client_inv {} 0 (c\<lparr>cl_reqs := (i, ?r1) # cl_reqs c, cl_limiter := ?l\<rparr>)"
        using D(1) by (intro client_inv_add [OF inv new, where q' = "[]"]) (auto simp: new_request_def wf_limiter_def)
      moreover have "RequestImpl i details sz c = (Inr (), c\<lparr>cl_reqs := (i, ?r1) # cl_reqs c, cl_limiter := ?l\<rparr>)"
        using valid True pos new
        by (simp add: RequestImpl_def Let_def act_bind_def on_limiter_def schedule_def schedule_now_def send_request_def upd_req_add)
      ultimately show thesis using that by (simp add: get_req_add)
    next
      case False
      let ?h = "next_handle ?L"
      let ?l = "?L\<lparr>queue := queue ?L @ [(?h, Some i)], next_handle := Suc ?h\<rparr>"
      let ?r1 = "?r\<lparr>ri_cancel_func := Some (Queued ?h)\<rparr>"
      have "req_ok {} (queue ?l) (cl_fakes c) i ?r1" using valid i by (simp add: new_request_def req_ok_def req_waiting_def)
      moreover have "wf_limiter ?l" using D(1) by (auto simp: wf_limiter_def)
      ultimately have "client_inv {} 0 (c\<lparr>cl_reqs := (i, ?r1) # cl_reqs c, cl_limiter := ?l\<rparr>)"
        by (intro client_inv_add [OF inv new, where q' = "[(?h, Some i)]"]) (auto simp: new_request_def req_waiting_def)
      moreover have "RequestImpl i details sz c = (Inr (), c\<lparr>cl_reqs := (i, ?r1) # cl_reqs c, cl_limiter := ?l\<rparr>)"
        using valid False pos new
        by (simp add: RequestImpl_def Let_def act_bind_def on_limiter_def schedule_def upd_req_add)
      ultimately show thesis using that by (simp add: get_req_add)
    qed
  qed
qed

lemma createRequest_inv:
  assumes inv: "client_inv {} 0 c" and new: "get_req i c = None"
  obtains c' where "createRequest i details sz c = (Inr (), c')" "client_inv {} 0 c'"
proof -
  obtain c1 r where c1: "RequestImpl i details sz c = (Inr (), c1)" "client_inv {} 0 c1" "get_req i c1 = Some r"
    using RequestImpl_inv [OF inv new] by blast
  moreover have "client_inv {} 0 (c1\<lparr>cl_finished_calls := x\<rparr>)" for x
    using c1(2) by (simp add: client_inv_def queue_ok_def)
  ultimately show thesis using that by (auto simp: createRequest_def act_bind_def)
qed

section \<open>Runs\<close>

datatype client_event =
    New_request nat string qsize
  | Reply_received nat "string + string"
  | Fake_reply nat
  | Pump_call
  | Cancel_call nat
  | Wait_call nat "string + string"
  | Destroy_call nat

text \<open>Which events can happen: replies answer sent requests, queued calls are in the queue, calls need a live request object.\<close>

fun possible :: "client_event \<Rightarrow> 'i client \<Rightarrow> bool" where
  "possible (New_request i details sz) c \<longleftrightarrow> get_req i c = None"
| "possible (Reply_received i reply) c \<longleftrightarrow> (\<exists>r. get_req i c = Some r \<and> ri_watcher r)"
| "possible (Fake_reply i) c \<longleftrightarrow> i \<in> set (cl_fakes c)"
| "possible Pump_call c \<longleftrightarrow> 0 < cl_pumps c"
| "possible (Cancel_call i) c \<longleftrightarrow> get_req i c \<noteq> None"
| "possible (Wait_call i reply) c \<longleftrightarrow> get_req i c \<noteq> None"
| "possible (Destroy_call i) c \<longleftrightarrow> get_req i c \<noteq> None"

fun client_step :: "(string \<Rightarrow> 'i option) \<Rightarrow> client_event \<Rightarrow> ('i client, unit) act" where
  "client_step fromData (New_request i details sz) c = createRequest i details sz c"
| "client_step fromData (Reply_received i reply) c = dbusCallFinished fromData reply i c"
| "client_step fromData (Fake_reply i) c = dbusCallFinished fromData (Inl []) i (c\<lparr>cl_fakes := removeAll i (cl_fakes c)\<rparr>)"
| "client_step fromData Pump_call c = pump_limiter (c\<lparr>cl_pumps := cl_pumps c - 1\<rparr>)"
| "client_step fromData (Cancel_call i) c = cancel_request i c"
| "client_step fromData (Wait_call i reply) c = waitForFinished_request fromData reply i c"
| "client_step fromData (Destroy_call i) c = (Inr (), RequestImpl_destroy i c)"

inductive client_run :: "(string \<Rightarrow> 'i option) \<Rightarrow> 'i client \<Rightarrow> 'i client \<Rightarrow> bool" for fromData c0 where
  Start: "client_run fromData c0 c0"
| Event: "client_run fromData c0 c \<Longrightarrow> possible e c \<Longrightarrow> client_step fromData e c = (Inr (), c') \<Longrightarrow> client_run fromData c0 c'"

lemma client_step_inv:
  assumes inv: "client_inv {} 0 c" and p: "possible e c"
  obtains c' where "client_step fromData e c = (Inr (), c')" "client_inv {} 0 c'"
proof (cases e)
  case (New_request i details sz)
  with p createRequest_inv [OF inv, of i details sz] that show thesis by auto
next
  case (Reply_received i reply)
  with p obtain r where "get_req i c = Some r" "ri_watcher r" by auto
  from dbusCallFinished_reply [OF inv this empty_subsetI, of fromData reply] Reply_received that show thesis by auto
next
  case (Fake_reply i)
  with p dbusCallFinished_fake [OF inv, of i fromData "Inl []"] that show thesis by auto
next
  case Pump_call
  with p pump_inv [OF inv] that show thesis by auto
next
  case (Cancel_call i)
  with p cancel_request_inv [OF inv, of i] that show thesis by auto
next
  case (Wait_call i reply)
  with p obtain r where "get_req i c = Some r" by auto
  from wait_inv [OF inv this, of fromData reply] Wait_call that show thesis by auto
next
  case (Destroy_call i)
  with p request_destroy_inv [OF inv, of i] that show thesis by auto
qed

lemma client_inv_init:
  assumes "ThumbnailerImpl d config = Inr c"
  shows "client_inv {} 0 c"
proof -
  obtain n l where l: "RateLimiter n = Inr l" "c = \<lparr>cl_limiter = l, cl_reqs = [], cl_pumps = 0, cl_fakes = [], cl_finished_calls = []\<rparr>"
    using assms by (auto simp: ThumbnailerImpl_def rbind_Inr_iff)
  then have "running l = 0" "queue l = []" by (auto simp: RateLimiter_def rbind_Inr_iff)
  with l wf_RateLimiter [OF l(1)] show ?thesis
    by (simp add: client_inv_def queue_ok_def get_req_def distinct_reqs_def outstanding_def)
qed

lemma client_run_inv: "client_run fromData c0 c \<Longrightarrow> client_inv {} 0 c0 \<Longrightarrow> client_inv {} 0 c"
proof (induction rule: client_run.induct)
  case (Event c e c')
  obtain c'' where "client_step fromData e c = (Inr (), c'')" "client_inv {} 0 c''"
    using client_step_inv [OF Event.IH [OF Event.prems] Event.hyps(2)] .
  with Event.hyps(3) show ?case by simp
qed

section \<open>Properties\<close>


text \<open>
  Every request finishes exactly once: in every reachable state a request with a valid size has signalled
  \<open>finished\<close> once if it is finished and not at all before; one that is not finished is sent and awaits its reply, or
  waits for a slot in the limiter's queue, or was cancelled there and its completion is queued.
\<close>

theorem client_finishes_once:
  assumes "ThumbnailerImpl max_backlog_default config = Inr c0" and "client_run fromData c0 c"
    and "get_req i c = Some r" and "isValid (ri_size r)"
  shows "ri_signals r = of_bool (ri_finished r) \<and>
         (\<not> ri_finished r \<longrightarrow> ri_watcher r \<or> i \<in> set (live (queue (cl_limiter c))) \<or> i \<in> set (cl_fakes c))"
proof -
  have inv: "client_inv {} 0 c" using client_run_inv [OF assms(2) client_inv_init [OF assms(1)]] .
  have ok: "req_ok {} (queue (cl_limiter c)) (cl_fakes c) i r" by (rule client_invD(4) [OF inv assms(3)])
  have mem: "i \<in> set (live q)" if "(h, Some i) \<in> set q" for h and q :: "(nat \<times> nat option) list"
    using that by (induction q rule: live.induct) auto
  show ?thesis
  proof (cases "req_waiting r")
    case True
    with ok obtain h where "(h, Some i) \<in> set (queue (cl_limiter c))" by (auto simp: req_ok_def)
    with mem ok assms(4) show ?thesis unfolding req_ok_def by blast
  next
    case False
    with ok assms(4) show ?thesis unfolding req_ok_def req_waiting_def by blast
  qed
qed

text \<open>A client with one slot: the second request waits until the first is answered.\<close>

definition demo_client :: "unit client" where
  "demo_client = \<lparr>cl_limiter = \<lparr>concurrency = 1, running = 0, queue = [], next_handle = 0, started = []\<rparr>,
     cl_reqs = [], cl_pumps = 0, cl_fakes = [], cl_finished_calls = []\<rparr>"

lemma demo_client_new: "ThumbnailerImpl 10 (Some 1) = Inr demo_client"
  by (simp add: ThumbnailerImpl_def RateLimiter_def demo_client_def)

lemma demo_client_run:
  "\<exists>c r. client_run (\<lambda>_. None) demo_client c \<and> get_req 2 c = Some r \<and> isValid (ri_size r) \<and> ri_watcher r \<and> outstanding c = 1"
proof -
  let ?e1 = "New_request 1 ''a'' (QSize 1 1)" and ?e2 = "New_request 2 ''b'' (QSize 1 1)" and ?e3 = "Reply_received 1 (Inr [])"
  let ?step = "\<lambda>e c. snd (client_step (\<lambda>_. None) e c)"
  let ?c1 = "?step ?e1 demo_client" let ?c2 = "?step ?e2 ?c1" let ?c3 = "?step ?e3 ?c2"
  note defs = demo_client_def createRequest_def RequestImpl_def new_request_def act_bind_def on_limiter_def schedule_def
    schedule_now_def send_request_def upd_req_def get_req_def isValid_def dbusCallFinished_def limiter_done_def
    outstanding_def
  have s: "client_step (\<lambda>_. None) ?e1 demo_client = (Inr (), ?c1)" "client_step (\<lambda>_. None) ?e2 ?c1 = (Inr (), ?c2)"
      "client_step (\<lambda>_. None) ?e3 ?c2 = (Inr (), ?c3)"
    by (simp_all add: defs)
  have p: "possible ?e1 demo_client" "possible ?e2 ?c1" "possible ?e3 ?c2" by (simp_all add: defs)
  have "client_run (\<lambda>_. None) demo_client ?c3"
    by (rule client_run.Event [OF client_run.Event [OF client_run.Event [OF client_run.Start p(1) s(1)] p(2) s(2)] p(3) s(3)])
  moreover have "\<exists>r. get_req 2 ?c3 = Some r \<and> isValid (ri_size r) \<and> ri_watcher r" "outstanding ?c3 = 1" by (simp_all add: defs)
  ultimately show ?thesis by blast
qed


theorem client_finishes_once_witness:
  "\<exists>(c :: unit client) r. client_run (\<lambda>_. None) demo_client c \<and> get_req 2 c = Some r \<and> ri_signals r = of_bool (ri_finished r)"
proof -
  obtain c r where c: "client_run (\<lambda>_. None) demo_client c" "get_req 2 c = Some r" "isValid (ri_size r)"
    using demo_client_run by blast
  from client_finishes_once [OF demo_client_new c] c show ?thesis by blast
qed

end
