(* ===== verification/Qml_Plugin.thy ===== *)
theory Qml_Plugin
  imports Client_Slots
begin

text \<open>
  The QML image providers (\<open>plugins/Ubuntu/Thumbnailer.0.1\<close>): \<open>AlbumArtGenerator\<close>, \<open>ArtistArtGenerator\<close> and
  \<open>ThumbnailGenerator\<close> turn an image id into a request of the client library, and \<open>ThumbnailerImageResponse\<close> owns the
  request for the QML engine. \<open>QUrlQuery\<close> and \<open>QUrl::path\<close> are arguments.
\<close>

section \<open>Responses\<close>

record response =
  rs_request :: "nat option"
  rs_error_message :: string
  rs_finished :: nat
  rs_queued_finished :: bool

definition response_of_request :: "nat \<Rightarrow> response" where
  "response_of_request i = \<lparr>rs_request = Some i, rs_error_message = [], rs_finished = 0, rs_queued_finished = False\<rparr>"

text \<open>The signal is queued, so that the caller has time to connect to it.\<close>

definition response_of_error :: "string \<Rightarrow> response" where
  "response_of_error msg = \<lparr>rs_request = None, rs_error_message = msg, rs_finished = 0, rs_queued_finished = True\<rparr>"

definition deliver_queued :: "response \<Rightarrow> response" where
  "deliver_queued s = (if rs_queued_finished s then s\<lparr>rs_queued_finished := False, rs_finished := Suc (rs_finished s)\<rparr> else s)"

definition textureFactory :: "response \<Rightarrow> 'i client \<Rightarrow> 'i option option" where
  "textureFactory s c =
     (case rs_request s of
        None \<Rightarrow> None
      | Some i \<Rightarrow> (case get_req i c of None \<Rightarrow> None | Some r \<Rightarrow> if ri_is_valid r then Some (ri_image r) else None))"

definition response_cancel :: "response \<Rightarrow> ('i client, unit) act" where
  "response_cancel s c =
     (case rs_request s of
        None \<Rightarrow> (Inr (), c)
      | Some i \<Rightarrow>
          (case get_req i c of
             None \<Rightarrow> (Inl (Null_deref ''request_''), c)
           | Some r \<Rightarrow> if \<not> ri_finished r \<and> \<not> ri_cancelled r then cancel_request i c else (Inr (), c)))"

text \<open>The destructor cancels and drops the only reference to the request.\<close>

definition response_destroy :: "response \<Rightarrow> ('i client, unit) act" where
  "response_destroy s =
     act_bind (response_cancel s) (\<lambda>_.
     act_modify (case rs_request s of None \<Rightarrow> id | Some i \<Rightarrow> RequestImpl_destroy i))"

definition requestFinished_response :: "response \<Rightarrow> 'i client \<Rightarrow> response" where
  "requestFinished_response s c =
     (let s1 = (case rs_request s of
                  None \<Rightarrow> s
                | Some i \<Rightarrow> (case get_req i c of
                              None \<Rightarrow> s
                            | Some r \<Rightarrow> if \<not> ri_is_valid r then s\<lparr>rs_error_message := ri_error_message r\<rparr> else s))
      in s1\<lparr>rs_finished := Suc (rs_finished s1)\<rparr>)"

section \<open>Image providers\<close>

datatype provider = AlbumArtGenerator | ArtistArtGenerator | ThumbnailGenerator

text \<open>\<open>query\<close> gives the decoded value of an item of the id, if it has one; \<open>path_of\<close> is \<open>QUrl(id).path()\<close>.\<close>

definition art_response ::
  "(string \<Rightarrow> string \<Rightarrow> string option) \<Rightarrow> string \<Rightarrow> (nat \<Rightarrow> string \<Rightarrow> string \<Rightarrow> qsize \<Rightarrow> ('i client, dbus_call) act) \<Rightarrow>
   nat \<Rightarrow> string \<Rightarrow> qsize \<Rightarrow> ('i client, response) act" where
  "art_response query kind_name get i image_id requestedSize =
     (case (query image_id ''artist'', query image_id ''album'') of
        (Some artist, Some album) \<Rightarrow> act_bind (get i artist album requestedSize) (\<lambda>_. act_ret (response_of_request i))
      | _ \<Rightarrow> act_ret (response_of_error (''Invalid '' @ kind_name @ '' ID: '' @ image_id)))"

definition requestImageResponse ::
  "(string \<Rightarrow> string result) \<Rightarrow> (string \<Rightarrow> string \<Rightarrow> string option) \<Rightarrow> (string \<Rightarrow> string) \<Rightarrow> provider \<Rightarrow> nat \<Rightarrow> string \<Rightarrow> qsize \<Rightarrow>
   ('i client, response) act" where
  "requestImageResponse canonical query path_of prov i image_id requestedSize =
     (case prov of
        AlbumArtGenerator \<Rightarrow> art_response query ''albumart'' getAlbumArt i image_id requestedSize
      | ArtistArtGenerator \<Rightarrow> art_response query ''artistart'' getArtistArt i image_id requestedSize
      | ThumbnailGenerator \<Rightarrow>
          act_bind (getThumbnail canonical i (path_of image_id) requestedSize) (\<lambda>_. act_ret (response_of_request i)))"

section \<open>Properties\<close>

lemma client_run_step:
  assumes "ThumbnailerImpl d config = Inr c0" "client_run fromData c0 c" "possible e c"
  obtains c' where "client_step fromData e c = (Inr (), c')" "client_run fromData c0 c'"
proof -
  have "client_inv {} 0 c" using client_run_inv [OF assms(2) client_inv_init [OF assms(1)]] .
  from client_step_inv [OF this assms(3)] obtain c' where "client_step fromData e c = (Inr (), c')" by blast
  with client_run.Event [OF assms(2,3)] that show thesis by blast
qed

lemma cancel_keeps_request:
  "cancel_request i c = (Inr (), c') \<Longrightarrow> get_req i c \<noteq> None \<Longrightarrow> get_req i c' \<noteq> None"
  by (auto simp: cancel_request_def act_bind_def act_modify_def act_ret_def call_cancel_def get_upd_req Let_def
      split: option.splits if_splits sum.splits prod.splits)

lemma destroy_forgets: "get_req i (RequestImpl_destroy i c) = None"
proof -
  have "map_of (filter (\<lambda>p. fst p \<noteq> i) rs) i = None" for rs :: "(nat \<times> 'a request_impl) list"
    by (induction rs) auto
  then show ?thesis by (auto simp: RequestImpl_destroy_def get_req_def Let_def split: option.splits prod.splits)
qed

lemma createRequest_run:
  assumes "ThumbnailerImpl d config = Inr c0" "client_run fromData c0 c" "get_req i c = None"
  obtains c' where "createRequest i details sz c = (Inr (), c')" "client_run fromData c0 c'" "get_req i c' \<noteq> None"
proof -
  obtain c' where "client_step fromData (New_request i details sz) c = (Inr (), c')" "client_run fromData c0 c'"
    using client_run_step [OF assms(1,2), of "New_request i details sz"] assms(3) by auto
  then show thesis
    using that by (auto simp: createRequest_def act_bind_def split: prod.splits sum.splits option.splits if_splits)
qed

text \<open>The three calls of the client library are \<open>createRequest\<close> with different texts.\<close>

lemma provider_calls:
  assumes "\<And>details. \<exists>c'. createRequest i details sz c = (Inr (), c') \<and> P c'"
  shows "\<exists>x c'. getAlbumArt i artist album sz c = (Inr x, c') \<and> P c'"
    and "\<exists>x c'. getArtistArt i artist album sz c = (Inr x, c') \<and> P c'"
    and "\<exists>x c'. getThumbnail canonical i filename sz c = (Inr x, c') \<and> P c'"
  using assms [of "art_call_details ''getAlbumArt'' artist album sz"] assms [of "art_call_details ''getArtistArt'' artist album sz"]
    assms [of "thumbnail_call_details filename sz"]
  by (auto simp: getAlbumArt_def getArtistArt_def getThumbnail_def act_bind_def act_ret_def)

lemma art_response_run:
  assumes "\<And>artist album. \<exists>x c'. get i artist album sz c = (Inr x, c') \<and> P c'"
  shows "\<exists>s c'. art_response query kind_name get i image_id sz c = (Inr s, c') \<and>
           (if rs_request s = None then c' = c \<and> rs_queued_finished s else rs_request s = Some i \<and> P c')"
proof (cases "query image_id ''artist'' = None \<or> query image_id ''album'' = None")
  case True
  then have "art_response query kind_name get i image_id sz c = (Inr (response_of_error (''Invalid '' @ kind_name @ '' ID: '' @ image_id)), c)"
    by (auto simp: art_response_def act_ret_def split: option.splits)
  then show ?thesis by (auto simp: response_of_error_def)
next
  case False
  then obtain artist album where q: "query image_id ''artist'' = Some artist" "query image_id ''album'' = Some album" by auto
  obtain x c' where "get i artist album sz c = (Inr x, c')" "P c'" using assms by blast
  with q have "art_response query kind_name get i image_id sz c = (Inr (response_of_request i), c')"
    by (simp add: art_response_def act_bind_def act_ret_def)
  with \<open>P c'\<close> show ?thesis by (auto simp: response_of_request_def)
qed

lemma requestImageResponse_run:
  assumes "ThumbnailerImpl d config = Inr c0" "client_run fromData c0 c" "get_req i c = None"
  shows "\<exists>s c'. requestImageResponse canonical query path_of prov i image_id sz c = (Inr s, c') \<and> client_run fromData c0 c' \<and>
      (if rs_request s = None then c' = c \<and> rs_queued_finished s else rs_request s = Some i \<and> get_req i c' \<noteq> None)"
proof -
  let ?P = "\<lambda>c'. client_run fromData c0 c' \<and> get_req i c' \<noteq> None"
  have "\<exists>c'. createRequest i details sz c = (Inr (), c') \<and> ?P c'" for details
    by (rule createRequest_run [OF assms, of details sz]) blast
  note calls = provider_calls [where P = ?P, OF this]
  have "\<exists>s c'. requestImageResponse canonical query path_of prov i image_id sz c = (Inr s, c') \<and>
      (if rs_request s = None then c' = c \<and> rs_queued_finished s else rs_request s = Some i \<and> ?P c')"
  proof (cases prov)
    case AlbumArtGenerator
    then show ?thesis
      unfolding requestImageResponse_def using art_response_run [where P = ?P and get = getAlbumArt and i = i and sz = sz and c = c, OF calls(1)] by simp
  next
    case ArtistArtGenerator
    then show ?thesis
      unfolding requestImageResponse_def using art_response_run [where P = ?P and get = getArtistArt and i = i and sz = sz and c = c, OF calls(2)] by simp
  next
    case ThumbnailGenerator
    obtain x c' where "getThumbnail canonical i (path_of image_id) sz c = (Inr x, c')" "?P c'"
      using calls(3) by blast
    with ThumbnailGenerator have "requestImageResponse canonical query path_of prov i image_id sz c = (Inr (response_of_request i), c')"
      by (simp add: requestImageResponse_def act_bind_def act_ret_def)
    with \<open>?P c'\<close> show ?thesis by (auto simp: response_of_request_def)
  qed
  then show ?thesis using assms(2) by metis
qed

lemma response_cancel_run:
  assumes "ThumbnailerImpl d config = Inr c0" "client_run fromData c0 c"
    and "\<forall>i. rs_request s = Some i \<longrightarrow> get_req i c \<noteq> None"
  obtains c' where "response_cancel s c = (Inr (), c')" "client_run fromData c0 c'" "\<forall>i. rs_request s = Some i \<longrightarrow> get_req i c' \<noteq> None"
proof (cases "rs_request s")
  case None
  then show thesis using that assms(2) by (simp add: response_cancel_def)
next
  case (Some i)
  then obtain r where r: "get_req i c = Some r" using assms(3) by auto
  obtain c' where c': "cancel_request i c = (Inr (), c')" "client_run fromData c0 c'"
    using client_run_step [OF assms(1,2), of "Cancel_call i"] r by auto
  with cancel_keeps_request [OF c'(1)] r Some that assms(2) show thesis
    by (cases "\<not> ri_finished r \<and> \<not> ri_cancelled r") (auto simp: response_cancel_def)
qed

lemma response_destroy_run:
  assumes "ThumbnailerImpl d config = Inr c0" "client_run fromData c0 c"
    and "\<forall>i. rs_request s = Some i \<longrightarrow> get_req i c \<noteq> None"
  shows "\<exists>c'. response_destroy s c = (Inr (), c') \<and> client_run fromData c0 c' \<and> (\<forall>i. rs_request s = Some i \<longrightarrow> get_req i c' = None)"
proof -
  obtain c1 where c1: "response_cancel s c = (Inr (), c1)" "client_run fromData c0 c1" "\<forall>i. rs_request s = Some i \<longrightarrow> get_req i c1 \<noteq> None"
    using response_cancel_run [OF assms] .
  show ?thesis
  proof (cases "rs_request s")
    case None
    then show ?thesis using c1 by (simp add: response_destroy_def act_bind_def act_modify_def)
  next
    case (Some i)
    with c1(3) have "client_run fromData c0 (RequestImpl_destroy i c1)"
      using client_run.Event [OF c1(2), of "Destroy_call i"] by simp
    then show ?thesis using c1 Some destroy_forgets by (simp add: response_destroy_def act_bind_def act_modify_def)
  qed
qed


lemma get_req_sends: "get_req i (fold send_request js x) = None \<longleftrightarrow> get_req i x = None"
  by (induction js arbitrary: x) (auto simp: send_request_def get_upd_req)

lemma on_limiter_get_req: "on_limiter f c = (a, c1) \<Longrightarrow> get_req i c1 = None \<longleftrightarrow> get_req i c = None"
  by (auto simp: on_limiter_def get_req_sends simp del: not_None_eq split: prod.splits)

text \<open>What a reply leaves in a request that was not cancelled.\<close>

lemma delivered_reply:
  assumes "get_req i c = Some r" "dbusCallFinished fromData reply i c = (Inr (), c')" "\<not> ri_cancelled r"
  shows "\<exists>r'. get_req i c' = Some r' \<and>
           (case reply of
              Inr bytes \<Rightarrow> ri_is_valid r' \<and> ri_image r' = fromData bytes
            | Inl msg \<Rightarrow> \<not> ri_is_valid r' \<and> ri_error_message r' = ''Thumbnailer: RequestImpl::dbusCallFinished(): D-Bus error: '' @ msg)"
proof -
  obtain c1 where c1: "on_limiter (limiter_done sends) c = (Inr (), c1)" and
    c': "(case reply of
            Inl err \<Rightarrow> finishWithError (''Thumbnailer: RequestImpl::dbusCallFinished(): D-Bus error: '' @ err) i
          | Inr bytes \<Rightarrow> act_modify (upd_req i (\<lambda>r. r\<lparr>ri_image := fromData bytes, ri_finished := True, ri_is_valid := True,
              ri_error_message := [], ri_signals := Suc (ri_signals r), ri_watcher := False\<rparr>))) c1 = (Inr (), c')"
    using assms by (auto simp: dbusCallFinished_def act_bind_def act_throw_def split: if_splits prod.splits sum.splits)
  obtain r1 where "get_req i c1 = Some r1"
    using on_limiter_get_req [OF c1, of i] assms(1) by auto
  with c' show ?thesis
    by (cases reply) (auto simp: finishWithError_def act_modify_def get_upd_req)
qed

text \<open>
  A response whose request was answered shows the image of the reply, or has the client library's error text and no image.
\<close>

theorem qml_response_reports:
  assumes "rs_request s = Some i" and "get_req i c = Some r" and "\<not> ri_cancelled r"
    and "dbusCallFinished fromData reply i c = (Inr (), c')"
  shows "case reply of
           Inr bytes \<Rightarrow> textureFactory (requestFinished_response s c') c' = Some (fromData bytes)
         | Inl msg \<Rightarrow> textureFactory (requestFinished_response s c') c' = None \<and>
             rs_error_message (requestFinished_response s c') = ''Thumbnailer: RequestImpl::dbusCallFinished(): D-Bus error: '' @ msg"
  using assms delivered_reply [OF assms(2,4,3)]
  by (auto simp: textureFactory_def requestFinished_response_def Let_def split: sum.splits)

section \<open>Samples\<close>


end
