(* ===== verification/Exceptions.thy ===== *)
theory Exceptions
  imports Thumb_Prelude
begin

text \<open>
  The exception classes of \<open>src/Exception.cpp\<close> and \<open>src/UnityExceptions.cpp\<close>: an exception carries the exception that was
  being handled when it was thrown (\<open>std::nested_exception\<close>) and a history of earlier exceptions (\<open>remember\<close>); \<open>to_string\<close>
  prints both. The classes are a datatype of what \<open>dynamic_cast\<close> and the \<open>catch\<close> clauses distinguish. An exception pointer
  is the exception it points to (the pointed-to objects are copies), so that chains are finite.
\<close>

section \<open>Exception objects\<close>

datatype exc =
    Unity_exc unity_exception
  | Std_and_nested string "exc option"
  | Nested_only "exc option"
  | Std_exc string
  | Unknown_exc
and unity_exception = Exception (exc_name: string) (exc_reason: string) (exc_nested: "exc option") (exc_earlier: "exc option")

text \<open>The constructor; \<open>nested\<close> is the exception being handled at that moment.\<close>

definition make_exception :: "exc option \<Rightarrow> string \<Rightarrow> string \<Rightarrow> unity_exception result" where
  "make_exception nested n r = (if n = [] then Inl (Assertion ''!name_.empty()'') else Inr (Exception n r nested None))"

definition errno_reason :: "string \<Rightarrow> int \<Rightarrow> string" where
  "errno_reason reason err = reason @ (if reason = [] then [] else '' '') @ ''(errno = '' @ int_to_string err @ '')''"

definition make_InvalidArgumentException :: "exc option \<Rightarrow> string \<Rightarrow> unity_exception result" where
  "make_InvalidArgumentException nested reason = make_exception nested ''unity::InvalidArgumentException'' reason"

definition make_LogicException :: "exc option \<Rightarrow> string \<Rightarrow> unity_exception result" where
  "make_LogicException nested reason = make_exception nested ''unity::LogicException'' reason"

definition make_ShutdownException :: "exc option \<Rightarrow> string \<Rightarrow> unity_exception result" where
  "make_ShutdownException nested reason = make_exception nested ''unity::ShutdownException'' reason"

definition make_FileException :: "exc option \<Rightarrow> string \<Rightarrow> int \<Rightarrow> unity_exception result" where
  "make_FileException nested reason err = make_exception nested ''unity::FileException'' (errno_reason reason err)"

definition make_SyscallException :: "exc option \<Rightarrow> string \<Rightarrow> int \<Rightarrow> unity_exception result" where
  "make_SyscallException nested reason err = make_exception nested ''unity::SyscallException'' (errno_reason reason err)"

definition make_ResourceException :: "exc option \<Rightarrow> string \<Rightarrow> unity_exception result" where
  "make_ResourceException nested reason = make_exception nested ''unity::ResourceException'' reason"

text \<open>\<open>remember()\<close> changes the exception and returns \<open>self()\<close>, a copy of it.\<close>

definition remember :: "exc option \<Rightarrow> unity_exception \<Rightarrow> exc \<times> unity_exception" where
  "remember earlier e = (let e' = Exception (exc_name e) (exc_reason e) (exc_nested e) earlier in (Unity_exc e', e'))"

section \<open>Printing\<close>

definition get_margin :: "nat \<Rightarrow> string \<Rightarrow> string" where
  "get_margin indent_level indent = concat (replicate indent_level indent)"

definition name_and_reason :: "string \<Rightarrow> string \<Rightarrow> string" where
  "name_and_reason n r = n @ (if r = [] then [] else '': '' @ r)"

text \<open>What \<open>print_name_and_reason\<close> appends, for the exceptions derived from \<open>std::nested_exception\<close>.\<close>

fun print_name_and_reason :: "exc \<Rightarrow> string" where
  "print_name_and_reason (Unity_exc e) = name_and_reason (exc_name e) (exc_reason e)"
| "print_name_and_reason (Std_and_nested w _) = w @ '' (derived from std::exception and std::nested_exception)''"
| "print_name_and_reason _ = ''std::nested_exception''"

text \<open>Calls that may throw: \<open>Inl\<close> the exception that leaves the call.\<close>

definition try_bind :: "exc + 'a \<Rightarrow> ('a \<Rightarrow> exc + 'b) \<Rightarrow> exc + 'b" where
  "try_bind m f = (case m of Inl e \<Rightarrow> Inl e | Inr a \<Rightarrow> f a)"

text \<open>
  The three recursive printers. \<open>follow_history\<close> returns the generation count with the text. An earlier exception that is not
  a \<open>unity::Exception\<close> is rethrown past the only \<open>catch\<close> clause.
\<close>

fun to_string :: "nat \<Rightarrow> string \<Rightarrow> unity_exception \<Rightarrow> exc + string"
  and follow_history :: "nat \<Rightarrow> string \<Rightarrow> unity_exception \<Rightarrow> exc + nat \<times> string"
  and follow_nested :: "nat \<Rightarrow> string \<Rightarrow> exc option \<Rightarrow> exc + string"
where
  "to_string lvl indent (Exception n r nested earlier) =
     try_bind
       (case earlier of
          None \<Rightarrow> Inr []
        | Some (Unity_exc e) \<Rightarrow>
            try_bind (follow_history (lvl + 2) indent e)
              (\<lambda>(_, h). Inr (CHR 0x0A # get_margin lvl indent @ indent @ ''Exception history:'' @ h))
        | Some x \<Rightarrow> Inl x)
       (\<lambda>h. try_bind (follow_nested lvl indent nested)
              (\<lambda>ns. Inr (get_margin lvl indent @ name_and_reason n r @ h @ ns)))"
| "follow_history lvl indent (Exception n r nested earlier) =
     try_bind
       (case earlier of
          None \<Rightarrow> Inr (1, [])
        | Some (Unity_exc e) \<Rightarrow> try_bind (follow_history lvl indent e) (\<lambda>(count, s). Inr (count + 1, s))
        | Some x \<Rightarrow> Inl x)
       (\<lambda>(count, s). try_bind (follow_nested (lvl + 1) indent nested)
          (\<lambda>ns. Inr (count, s @ CHR 0x0A # get_margin lvl indent @ ''Exception #'' @ int_to_string (int count) @ '':'' @
                     CHR 0x0A # get_margin lvl indent @ indent @ name_and_reason n r @ ns)))"
| "follow_nested lvl indent None = Inr []"
| "follow_nested lvl indent (Some x) =
     try_bind
       (case x of
          Unity_exc e \<Rightarrow> to_string (lvl + 1) indent e
        | Std_and_nested w nested \<Rightarrow>
            try_bind (follow_nested (lvl + 1) indent nested)
              (\<lambda>ns. Inr (get_margin lvl indent @ indent @ print_name_and_reason x @ ns))
        | Nested_only nested \<Rightarrow>
            try_bind (follow_nested (lvl + 1) indent nested)
              (\<lambda>ns. Inr (get_margin lvl indent @ indent @ print_name_and_reason x @ ns))
        | Std_exc w \<Rightarrow> Inr (get_margin lvl indent @ indent @ w)
        | Unknown_exc \<Rightarrow> Inr (get_margin lvl indent @ indent @ ''unknown exception''))
       (\<lambda>s. Inr ('':'' @ CHR 0x0A # s))"

text \<open>\<open>what()\<close> of any exception derived from \<open>std::exception\<close>; for \<open>unity::Exception\<close> it catches what \<open>to_string()\<close> throws.\<close>

definition four_spaces :: string where
  "four_spaces = ''    ''"

lemma try_bind_eq_Inl: "try_bind m f = Inl x \<longleftrightarrow> m = Inl x \<or> (\<exists>a. m = Inr a \<and> f a = Inl x)"
  by (cases m) (auto simp: try_bind_def)

lemma try_bind_eq_Inr: "try_bind m f = Inr b \<longleftrightarrow> (\<exists>a. m = Inr a \<and> f a = Inr b)"
  by (cases m) (auto simp: try_bind_def)

lemma printers_throw_foreign:
  "to_string lvl indent e = Inl x \<Longrightarrow> \<not> (\<exists>u. x = Unity_exc u)"
  "follow_history lvl indent e = Inl x \<Longrightarrow> \<not> (\<exists>u. x = Unity_exc u)"
  "follow_nested lvl indent n = Inl x \<Longrightarrow> \<not> (\<exists>u. x = Unity_exc u)"
  by (induction lvl indent e and lvl indent e and lvl indent n rule: to_string_follow_history_follow_nested.induct)
     (auto simp: try_bind_eq_Inl split: option.splits exc.splits)

function what_of :: "exc \<Rightarrow> string" where
  "what_of (Unity_exc e) =
     (case to_string 0 four_spaces e of Inr s \<Rightarrow> s | Inl x \<Rightarrow> what_of x)"
| "what_of (Std_and_nested w n) = w"
| "what_of (Nested_only n) = ''unknown exception''"
| "what_of (Std_exc w) = w"
| "what_of Unknown_exc = ''unknown exception''"
  by pat_completeness auto

termination what_of
  by (relation "measure (\<lambda>x. case x of Unity_exc _ \<Rightarrow> 1 | _ \<Rightarrow> 0)")
     (auto dest: printers_throw_foreign(1) split: exc.splits)

section \<open>When printing succeeds\<close>

text \<open>Every history, at any depth, consists of exceptions of this library.\<close>

fun well_chained :: "unity_exception \<Rightarrow> bool"
  and nested_chained :: "exc option \<Rightarrow> bool"
where
  "well_chained (Exception n r nested earlier) \<longleftrightarrow>
     (case earlier of None \<Rightarrow> True | Some (Unity_exc e) \<Rightarrow> well_chained e | _ \<Rightarrow> False) \<and> nested_chained nested"
| "nested_chained None \<longleftrightarrow> True"
| "nested_chained (Some x) \<longleftrightarrow>
     (case x of
        Unity_exc e \<Rightarrow> well_chained e
      | Std_and_nested _ nested \<Rightarrow> nested_chained nested
      | Nested_only nested \<Rightarrow> nested_chained nested
      | _ \<Rightarrow> True)"

lemma try_bind_total: "(\<And>a. \<exists>b. f a = Inr b) \<Longrightarrow> (\<exists>b. try_bind m f = Inr b) \<longleftrightarrow> (\<exists>a. m = Inr a)"
  by (cases m) (auto simp: try_bind_def)

lemma printers_total:
  "(\<exists>s. to_string lvl indent e = Inr s) \<longleftrightarrow> well_chained e"
  "(\<exists>h. follow_history lvl indent e = Inr h) \<longleftrightarrow> well_chained e"
  "(\<exists>s. follow_nested lvl indent x = Inr s) \<longleftrightarrow> nested_chained x"
proof (induction lvl indent e and lvl indent e and lvl indent x rule: to_string_follow_history_follow_nested.induct)
  case (1 lvl indent n r nested earlier)
  then show ?case
    by (auto simp: try_bind_eq_Inr split: option.splits exc.splits)
next
  case (2 lvl indent n r nested earlier)
  then show ?case
    by (auto simp: try_bind_eq_Inr split: option.splits exc.splits)
next
  case (3 lvl indent)
  then show ?case by simp
next
  case (4 lvl indent x)
  then show ?case
    by (auto simp: try_bind_eq_Inr split: exc.splits)
qed

section \<open>Histories\<close>

text \<open>One entry of the printed history: generation number, name, reason and the exceptions nested in it.\<close>

definition nested_text :: "nat \<Rightarrow> string \<Rightarrow> unity_exception \<Rightarrow> string" where
  "nested_text lvl indent e = projr (follow_nested lvl indent (exc_nested e))"

definition history_entry :: "nat \<Rightarrow> string \<Rightarrow> nat \<Rightarrow> unity_exception \<Rightarrow> string" where
  "history_entry lvl indent k e =
     CHR 0x0A # get_margin lvl indent @ ''Exception #'' @ int_to_string (int k) @ '':'' @
     CHR 0x0A # get_margin lvl indent @ indent @ name_and_reason (exc_name e) (exc_reason e) @ nested_text (lvl + 1) indent e"

definition history_text :: "nat \<Rightarrow> string \<Rightarrow> unity_exception list \<Rightarrow> string" where
  "history_text lvl indent es = concat (map (\<lambda>(k, e). history_entry lvl indent k e) (enumerate 1 es))"

text \<open>A sequence of failures, each remembering the ones before it.\<close>

fun remember_all :: "unity_exception list \<Rightarrow> exc option \<Rightarrow> exc option" where
  "remember_all [] ep = ep"
| "remember_all (e # es) ep = remember_all es (Some (fst (remember ep e)))"

lemma remember_all_snoc: "remember_all (es @ [e]) ep = Some (fst (remember (remember_all es ep) e))"
  by (induction es arbitrary: ep) auto

lemma history_text_snoc: "history_text lvl indent (es @ [e]) = history_text lvl indent es @ history_entry lvl indent (length es + 1) e"
  by (simp add: history_text_def enumerate_append_eq)

lemma nested_text_returns:
  "nested_chained (exc_nested e) \<Longrightarrow> follow_nested lvl indent (exc_nested e) = Inr (nested_text lvl indent e)"
  using printers_total(3) [of lvl indent "exc_nested e"] by (auto simp: nested_text_def)

lemma follow_history_remembered:
  assumes "\<forall>e \<in> set (es @ [e]). nested_chained (exc_nested e)"
  shows "follow_history lvl indent (snd (remember (remember_all es None) e)) =
           Inr (length (es @ [e]), history_text lvl indent (es @ [e]))"
  using assms
proof (induction es arbitrary: e rule: rev_induct)
  case Nil
  then show ?case
    by (simp add: remember_def Let_def try_bind_def history_text_def history_entry_def nested_text_returns)
next
  case (snoc e' es)
  then show ?case
    using history_text_snoc [of lvl indent "es @ [e']" e]
    by (simp add: remember_all_snoc remember_def Let_def try_bind_def history_entry_def nested_text_returns)
qed

text \<open>
  A sequence of exceptions remembered one after the other, and then remembered by a final one, is printed completely by the
  final exception's \<open>what()\<close>: its own name and reason, then every remembered exception, numbered from 1, the oldest first,
  each with the exceptions nested in it, and last the exceptions nested in the final one.
\<close>

theorem history_oldest_first:
  assumes "es \<noteq> []" and "\<forall>e \<in> set (f # es). nested_chained (exc_nested e)"
  shows "what_of (fst (remember (remember_all es None) f)) =
           name_and_reason (exc_name f) (exc_reason f) @ CHR 0x0A # four_spaces @ ''Exception history:'' @
           history_text 2 four_spaces es @ nested_text 0 four_spaces f"
proof -
  obtain es' e where es: "es = es' @ [e]"
    using assms(1) by (metis rev_exhaust)
  have h: "follow_history 2 four_spaces (snd (remember (remember_all es' None) e)) = Inr (length es, history_text 2 four_spaces es)"
    using follow_history_remembered [of es' e 2 four_spaces] assms(2) es by simp
  show ?thesis
    using h assms(2)
    by (simp add: es remember_all_snoc remember_def Let_def try_bind_def get_margin_def nested_text_returns numeral_2_eq_2)
qed

text \<open>
  \<open>what()\<close> throws away the exception's own name and reason when the remembered exception is not one of this library: it then
  returns the text of the remembered exception only, and \<open>unknown exception\<close> for one that is not a \<open>std::exception\<close>.
\<close>

theorem foreign_history_hides_exception:
  assumes "\<nexists>u. x = Unity_exc u"
  shows "what_of (fst (remember (Some x) e)) = what_of x"
  using assms by (cases x) (auto simp: remember_def Let_def try_bind_def)

section \<open>Samples\<close>

definition shutdown_failures :: "unity_exception list" where
  "shutdown_failures =
     [Exception ''unity::FileException'' (errno_reason ''close'' 5) None None,
      Exception ''unity::LogicException'' ''busy'' (Some (Std_exc ''bad_alloc'')) None]"

theorem history_oldest_first_witness:
  "what_of (fst (remember (remember_all shutdown_failures None) (Exception ''unity::ShutdownException'' [] None None))) =
     ''unity::ShutdownException'' @ CHR 0x0A # ''    Exception history:'' @
     CHR 0x0A # ''        Exception #1:'' @ CHR 0x0A # ''            unity::FileException: close (errno = 5)'' @
     CHR 0x0A # ''        Exception #2:'' @ CHR 0x0A # ''            unity::LogicException: busy:'' @
     CHR 0x0A # ''                bad_alloc''"
proof -
  have "shutdown_failures \<noteq> []"
    "\<forall>e \<in> set (Exception ''unity::ShutdownException'' [] None None # shutdown_failures). nested_chained (exc_nested e)"
    by (simp_all add: shutdown_failures_def)
  note history_oldest_first [OF this]
  moreover have "history_text 2 four_spaces shutdown_failures =
     CHR 0x0A # ''        Exception #1:'' @ CHR 0x0A # ''            unity::FileException: close (errno = 5)'' @
     CHR 0x0A # ''        Exception #2:'' @ CHR 0x0A # ''            unity::LogicException: busy:'' @
     CHR 0x0A # ''                bad_alloc''"
    by code_simp
  ultimately show ?thesis
    by (simp add: name_and_reason_def four_spaces_def nested_text_def)
qed

theorem foreign_history_hides_exception_witness:
  "what_of (fst (remember (Some Unknown_exc) (Exception ''unity::ShutdownException'' ''why'' None None))) = ''unknown exception''"
  using foreign_history_hides_exception [of Unknown_exc "Exception ''unity::ShutdownException'' ''why'' None None"] by simp

end
