(* ===== verification/Qml_Engine.thy ===== *)
theory Qml_Engine
  imports Qml_Plugin Exceptions
begin

text \<open>
  The plugin class of \<open>plugins/Ubuntu/Thumbnailer.0.1/plugin.cpp\<close>: it registers the three image providers of \<open>Qml_Plugin\<close> with the QML
  engine. Whether a generator's construction or registration throws, and what, is an argument.
\<close>

section \<open>The engine\<close>

record qml_engine =
  qe_not_available :: "(string \<times> int \<times> int \<times> string \<times> string) list"
  qe_providers :: "string \<rightharpoonup> provider"
  qe_warnings :: "string list"

definition registerTypes :: "string \<Rightarrow> qml_engine \<Rightarrow> qml_engine" where
  "registerTypes uri e =
     e\<lparr>qe_not_available := qe_not_available e @
        [(uri, 0, 1, ''__ThumbnailerIgnoreMe'', ''Ignore this: QML plugins must contain at least one type'')]\<rparr>"

text \<open>What \<open>catch (const std::exception&)\<close> stops; the second handler stops everything else.\<close>

fun is_std_exception :: "exc \<Rightarrow> bool" where
  "is_std_exception (Unity_exc e) = True"
| "is_std_exception (Std_and_nested w n) = True"
| "is_std_exception (Nested_only n) = False"
| "is_std_exception (Std_exc w) = True"
| "is_std_exception Unknown_exc = False"

text \<open>One of the three \<open>try\<close> blocks.\<close>

definition register_provider :: "(provider \<Rightarrow> exc option) \<Rightarrow> string \<times> provider \<Rightarrow> qml_engine \<Rightarrow> qml_engine" where
  "register_provider throws np e =
     (case throws (snd np) of
        None \<Rightarrow> e\<lparr>qe_providers := (qe_providers e)(fst np \<mapsto> snd np)\<rparr>
      | Some x \<Rightarrow>
          e\<lparr>qe_warnings := qe_warnings e @
             [if is_std_exception x
              then ''ThumbnailerPlugin::initializeEngine(): Failed to register '' @ fst np @ '' image provider: '' @ what_of x
              else ''ThumbnailerPlugin::initializeEngine(): Failed to register '' @ fst np @ '' image provider: unknown exception'']\<rparr>)"

definition plugin_providers :: "(string \<times> provider) list" where
  "plugin_providers = [(''albumart'', AlbumArtGenerator), (''artistart'', ArtistArtGenerator), (''thumbnailer'', ThumbnailGenerator)]"

text \<open>The providers share one client, whose construction may fail an assertion of its limiter.\<close>

definition initializeEngine ::
  "int \<Rightarrow> int option \<Rightarrow> (provider \<Rightarrow> exc option) \<Rightarrow> (qml_engine, 'i client) act" where
  "initializeEngine max_backlog_default config throws e =
     (case ThumbnailerImpl max_backlog_default config of
        Inl x \<Rightarrow> (Inl x, e)
      | Inr c \<Rightarrow> (Inr c, fold (register_provider throws) plugin_providers e))"

section \<open>Independence\<close>

text \<open>
  A provider that cannot be registered does not affect the others: each of the three ids is registered exactly if its own
  generator did not throw, otherwise the engine keeps what it had and one warning names the id.
\<close>

theorem providers_independent:
  assumes "initializeEngine d config throws e = (Inr c, e')"
  shows "(\<forall>(n, p) \<in> set plugin_providers. qe_providers e' n = (if throws p = None then Some p else qe_providers e n)) \<and>
         (\<forall>n. n \<notin> fst ` set plugin_providers \<longrightarrow> qe_providers e' n = qe_providers e n) \<and>
         length (qe_warnings e') = length (qe_warnings e) + length (filter (\<lambda>(n, p). throws p \<noteq> None) plugin_providers)"
  using assms
  by (auto simp: initializeEngine_def plugin_providers_def register_provider_def split: sum.splits option.splits)

theorem providers_independent_witness:
  "\<exists>e'. initializeEngine 10 (Some 1) (\<lambda>p. if p = ArtistArtGenerator then Some (Std_exc ''bad'') else None)
          \<lparr>qe_not_available = [], qe_providers = Map.empty, qe_warnings = []\<rparr> = (Inr demo_client, e') \<and>
        qe_providers e' ''albumart'' = Some AlbumArtGenerator \<and> qe_providers e' ''artistart'' = None \<and>
        qe_providers e' ''thumbnailer'' = Some ThumbnailGenerator"
proof -
  obtain e' where e': "initializeEngine 10 (Some 1) (\<lambda>p. if p = ArtistArtGenerator then Some (Std_exc ''bad'') else None)
      \<lparr>qe_not_available = [], qe_providers = Map.empty, qe_warnings = []\<rparr> = (Inr demo_client, e')"
    by (simp add: initializeEngine_def demo_client_new)
  from providers_independent [OF e'] e' show ?thesis by (simp add: plugin_providers_def)
qed

end
