(* ===== verification/Inactivity.thy ===== *)
theory Inactivity
  imports Thumb_Prelude
begin

text \<open>
  Class \<open>InactivityHandler\<close> (\<open>src/service/inactivityhandler.h\<close>, \<open>src/service/inactivityhandler.cpp\<close>): the
  service exits when no request was active for a while. The record has the request count and whether
  the timer is running; a firing timer calls the function given to the constructor.
\<close>

record inactivity =
  num_active :: int
  idle_timer :: bool
  interval :: int
  expirations :: nat

definition MAX_INACTIVITY_TIME :: int where
  "MAX_INACTIVITY_TIME = 30000"

definition get_env_inactivity_time :: "string option \<Rightarrow> int \<Rightarrow> int result" where
  "get_env_inactivity_time env default_value =
     (case env of
        None \<Rightarrow> Inr default_value
      | Some str_idle_time \<Rightarrow>
          (let complaint = Inl (Invalid_argument
                 (''InactivityHandler::InactivityHandler(): Value for env variable THUMBNAILER_MAX_IDLE \"'' @
                  str_idle_time @ ''\" must be >= 1000.''))
           in case stoi str_idle_time of
                Inl e \<Rightarrow> complaint
              | Inr env_value \<Rightarrow> if env_value < 1000 then complaint else Inr env_value))"

definition InactivityHandler :: "string option \<Rightarrow> inactivity result" where
  "InactivityHandler env =
     rbind (get_env_inactivity_time env MAX_INACTIVITY_TIME) (\<lambda>msec.
     Inr \<lparr>num_active = 0, idle_timer = False, interval = msec, expirations = 0\<rparr>)"

definition InactivityHandler_destroy :: "inactivity \<Rightarrow> inactivity result" where
  "InactivityHandler_destroy i =
     rbind (assert_r (num_active i = 0) ''num_active_requests_ == 0'') (\<lambda>_. Inr (i\<lparr>idle_timer := False\<rparr>))"

definition request_started :: "inactivity \<Rightarrow> inactivity result" where
  "request_started i =
     rbind (assert_r (num_active i \<ge> 0) ''num_active_requests_ >= 0'') (\<lambda>_.
     Inr (if num_active i = 0 then i\<lparr>num_active := num_active i + 1, idle_timer := False\<rparr>
          else i\<lparr>num_active := num_active i + 1\<rparr>))"

definition request_completed :: "inactivity \<Rightarrow> inactivity result" where
  "request_completed i =
     rbind (assert_r (num_active i > 0) ''num_active_requests_ > 0'') (\<lambda>_.
     Inr (if num_active i - 1 = 0 then i\<lparr>num_active := num_active i - 1, idle_timer := True\<rparr>
          else i\<lparr>num_active := num_active i - 1\<rparr>))"

definition timer_expired :: "inactivity \<Rightarrow> inactivity" where
  "timer_expired i = i\<lparr>expirations := expirations i + 1\<rparr>"

section \<open>Runs\<close>

datatype activity = Started | Completed

fun activity_run :: "activity list \<Rightarrow> inactivity \<Rightarrow> inactivity result" where
  "activity_run [] i = Inr i"
| "activity_run (Started # es) i = rbind (request_started i) (activity_run es)"
| "activity_run (Completed # es) i = rbind (request_completed i) (activity_run es)"

text \<open>The number of active requests after a run, if no prefix completes more requests than it started.\<close>

fun balance :: "activity list \<Rightarrow> int \<Rightarrow> int option" where
  "balance [] n = Some n"
| "balance (Started # es) n = balance es (n + 1)"
| "balance (Completed # es) n = (if n > 0 then balance es (n - 1) else None)"

definition inactivity_inv :: "inactivity \<Rightarrow> bool" where
  "inactivity_inv i \<longleftrightarrow> 0 \<le> num_active i \<and> (idle_timer i \<longrightarrow> num_active i = 0)"

lemma activity_run_balance:
  assumes "inactivity_inv i"
  shows "(case balance es (num_active i) of
            None \<Rightarrow> activity_run es i = Inl (Assertion ''num_active_requests_ > 0'')
          | Some n \<Rightarrow> (\<exists>i'. activity_run es i = Inr i' \<and> num_active i' = n \<and> inactivity_inv i' \<and> interval i' = interval i \<and>
                      (es \<noteq> [] \<longrightarrow> (idle_timer i' \<longleftrightarrow> n = 0))))"
  using assms
proof (induction es arbitrary: i)
  case Nil
  then show ?case by simp
next
  case (Cons e es)
  define i1 where "i1 = (case e of Started \<Rightarrow> i\<lparr>num_active := num_active i + 1, idle_timer := False\<rparr>
                          | Completed \<Rightarrow> i\<lparr>num_active := num_active i - 1, idle_timer := (num_active i - 1 = 0)\<rparr>)"
  show ?case
  proof (cases "e = Completed \<and> num_active i \<le> 0")
    case True
    then show ?thesis by (simp add: request_completed_def)
  next
    case False
    have inv: "inactivity_inv i1" and idle: "idle_timer i1 \<longleftrightarrow> num_active i1 = 0"
      using Cons.prems False by (cases e; simp add: i1_def inactivity_inv_def)+
    have step: "activity_run (e # es) i = activity_run es i1"
    proof (cases e)
      case Started
      with Cons.prems show ?thesis
        by (cases i) (auto simp: request_started_def i1_def inactivity_inv_def)
    next
      case Completed
      with Cons.prems False show ?thesis
        by (cases i) (auto simp: request_completed_def i1_def inactivity_inv_def)
    qed
    have "balance (e # es) (num_active i) = balance es (num_active i1)"
      using False by (cases e) (simp_all add: i1_def)
    moreover have "interval i1 = interval i" by (cases e) (simp_all add: i1_def)
    ultimately show ?thesis
      using Cons.IH [OF inv] step idle
      by (cases "es = []") (auto split: option.splits)
  qed
qed

section \<open>Properties\<close>

text \<open>
  The service goes idle exactly when it has nothing to do: after any non-empty sequence of started
  and completed requests on a new handler, the exit timer runs if and only if no request is active, and the only
  way to fail is to complete a request that was not started. The timer is not running before the first request.
\<close>

theorem idle_exactly_without_requests:
  assumes "InactivityHandler env = Inr i"
  shows "\<not> idle_timer i \<and>
         (case balance es 0 of
            None \<Rightarrow> activity_run es i = Inl (Assertion ''num_active_requests_ > 0'')
          | Some n \<Rightarrow> (\<exists>i'. activity_run es i = Inr i' \<and> num_active i' = n \<and> 0 \<le> n \<and>
                      (es \<noteq> [] \<longrightarrow> (idle_timer i' \<longleftrightarrow> n = 0))))"
proof -
  have i: "num_active i = 0" "\<not> idle_timer i"
    using assms by (auto simp: InactivityHandler_def rbind_Inr_iff)
  then have "inactivity_inv i" by (simp add: inactivity_inv_def)
  from activity_run_balance [OF this, of es] i show ?thesis
    by (auto simp: inactivity_inv_def split: option.splits)
qed

theorem idle_exactly_without_requests_witness:
  "\<exists>i'. activity_run [Started, Started, Completed, Completed] \<lparr>num_active = 0, idle_timer = False, interval = 30000, expirations = 0\<rparr>
          = Inr i' \<and> idle_timer i'"
  using idle_exactly_without_requests [of None _ "[Started, Started, Completed, Completed]"]
  by (auto simp: InactivityHandler_def get_env_inactivity_time_def MAX_INACTIVITY_TIME_def)

end
