(* ===== verification/Admin_Interface.thy ===== *)
theory Admin_Interface
  imports Thumbnailer_Lifecycle Inactivity
begin

text \<open>
  The administrative D-Bus interface (\<open>src/service/admininterface.cpp\<close>) and the marshalling of the statistics it
  returns (\<open>src/service/stats.h\<close>, \<open>src/service/stats.cpp\<close>) and of the client's configuration (\<open>src/service/client_config.cpp\<close>).
  A D-Bus argument is a list of typed values; reading a value of another type fails. The numeric codes of the
  cache library's discard policies are an argument.
\<close>

section \<open>Marshalled values\<close>

datatype dbus_value =
    D_bool bool
  | D_int32 "32 word"
  | D_uint32 "32 word"
  | D_int64 "64 word"
  | D_uint64 "64 word"
  | D_double "64 word"
  | D_string string
  | D_uint32s "32 word list"
  | D_struct "dbus_value list"

record svc_cache_stats =
  cs_cache_path :: string
  cs_policy :: "32 word"
  cs_size :: int
  cs_size_in_bytes :: int
  cs_max_size_in_bytes :: int
  cs_hits :: int
  cs_misses :: int
  cs_hits_since_last_miss :: int
  cs_misses_since_last_hit :: int
  cs_longest_hit_run :: int
  cs_longest_miss_run :: int
  cs_avg_hit_run_length :: "64 word"
  cs_avg_miss_run_length :: "64 word"
  cs_ttl_evictions :: int
  cs_lru_evictions :: int
  cs_most_recent_hit_time :: int
  cs_most_recent_miss_time :: int
  cs_longest_hit_run_time :: int
  cs_longest_miss_run_time :: int
  cs_histogram :: "32 word list"

text \<open>\<open>duration_cast<milliseconds>\<close> of a nanosecond count truncates towards zero.\<close>

definition to_msec :: "int \<Rightarrow> int" where
  "to_msec ns = (if ns < 0 then - ((- ns) div 1000000) else ns div 1000000)"

definition marshal_time :: "int \<Rightarrow> dbus_value" where
  "marshal_time ns = D_uint64 (word_of_int (to_msec ns))"

text \<open>\<open>time_point(milliseconds(n))\<close>: the unsigned number becomes a signed 64-bit count, converted to nanoseconds.\<close>

definition time_of_msec :: "64 word \<Rightarrow> int" where
  "time_of_msec w = sint (word_of_int (sint w * 1000000) :: 64 word)"

definition marshal_stats :: "svc_cache_stats \<Rightarrow> dbus_value" where
  "marshal_stats s = D_struct
     [D_string (cs_cache_path s), D_uint32 (cs_policy s), D_int64 (word_of_int (cs_size s)),
      D_int64 (word_of_int (cs_size_in_bytes s)), D_int64 (word_of_int (cs_max_size_in_bytes s)),
      D_int64 (word_of_int (cs_hits s)), D_int64 (word_of_int (cs_misses s)),
      D_int64 (word_of_int (cs_hits_since_last_miss s)), D_int64 (word_of_int (cs_misses_since_last_hit s)),
      D_int64 (word_of_int (cs_longest_hit_run s)), D_int64 (word_of_int (cs_longest_miss_run s)),
      D_double (cs_avg_hit_run_length s), D_double (cs_avg_miss_run_length s),
      D_int64 (word_of_int (cs_ttl_evictions s)), D_int64 (word_of_int (cs_lru_evictions s)),
      marshal_time (cs_most_recent_hit_time s), marshal_time (cs_most_recent_miss_time s),
      marshal_time (cs_longest_hit_run_time s), marshal_time (cs_longest_miss_run_time s),
      D_uint32s (cs_histogram s)]"

text \<open>\<open>operator>>\<close>: each extraction takes the next value of the argument, which must have its type.\<close>

type_synonym 'a dbus_reader = "dbus_value list \<Rightarrow> ('a \<times> dbus_value list) option"

definition rd_bind :: "'a dbus_reader \<Rightarrow> ('a \<Rightarrow> 'b dbus_reader) \<Rightarrow> 'b dbus_reader" where
  "rd_bind m f vs = (case m vs of None \<Rightarrow> None | Some (x, vs') \<Rightarrow> f x vs')"

definition rd_ret :: "'a \<Rightarrow> 'a dbus_reader" where
  "rd_ret x vs = Some (x, vs)"

definition rd_next :: "(dbus_value \<Rightarrow> 'a option) \<Rightarrow> 'a dbus_reader" where
  "rd_next f vs = (case vs of [] \<Rightarrow> None | v # vs' \<Rightarrow> (case f v of None \<Rightarrow> None | Some x \<Rightarrow> Some (x, vs')))"

fun as_bool :: "dbus_value \<Rightarrow> bool option" where
  "as_bool (D_bool b) = Some b" | "as_bool _ = None"
fun as_int32 :: "dbus_value \<Rightarrow> int option" where
  "as_int32 (D_int32 w) = Some (sint w)" | "as_int32 _ = None"
fun as_uint32 :: "dbus_value \<Rightarrow> 32 word option" where
  "as_uint32 (D_uint32 w) = Some w" | "as_uint32 _ = None"
fun as_int64 :: "dbus_value \<Rightarrow> int option" where
  "as_int64 (D_int64 w) = Some (sint w)" | "as_int64 _ = None"
fun as_uint64 :: "dbus_value \<Rightarrow> 64 word option" where
  "as_uint64 (D_uint64 w) = Some w" | "as_uint64 _ = None"
fun as_double :: "dbus_value \<Rightarrow> 64 word option" where
  "as_double (D_double w) = Some w" | "as_double _ = None"
fun as_string :: "dbus_value \<Rightarrow> string option" where
  "as_string (D_string s) = Some s" | "as_string _ = None"
fun as_uint32s :: "dbus_value \<Rightarrow> 32 word list option" where
  "as_uint32s (D_uint32s ws) = Some ws" | "as_uint32s _ = None"

text \<open>\<open>beginStructure\<close> to \<open>endStructure\<close>.\<close>

definition rd_struct :: "'a dbus_reader \<Rightarrow> dbus_value \<Rightarrow> 'a option" where
  "rd_struct m v = (case v of D_struct vs \<Rightarrow> (case m vs of Some (x, []) \<Rightarrow> Some x | _ \<Rightarrow> None) | _ \<Rightarrow> None)"

definition demarshal_stats :: "dbus_value \<Rightarrow> svc_cache_stats option" where
  "demarshal_stats = rd_struct
     (rd_bind (rd_next as_string) (\<lambda>path. rd_bind (rd_next as_uint32) (\<lambda>policy.
      rd_bind (rd_next as_int64) (\<lambda>n. rd_bind (rd_next as_int64) (\<lambda>bytes. rd_bind (rd_next as_int64) (\<lambda>max_bytes.
      rd_bind (rd_next as_int64) (\<lambda>hits. rd_bind (rd_next as_int64) (\<lambda>misses.
      rd_bind (rd_next as_int64) (\<lambda>hslm. rd_bind (rd_next as_int64) (\<lambda>mslh.
      rd_bind (rd_next as_int64) (\<lambda>lhr. rd_bind (rd_next as_int64) (\<lambda>lmr.
      rd_bind (rd_next as_double) (\<lambda>ahr. rd_bind (rd_next as_double) (\<lambda>amr.
      rd_bind (rd_next as_int64) (\<lambda>ttl. rd_bind (rd_next as_int64) (\<lambda>lru.
      rd_bind (rd_next as_uint64) (\<lambda>mrht. rd_bind (rd_next as_uint64) (\<lambda>mrmt.
      rd_bind (rd_next as_uint64) (\<lambda>lhrt. rd_bind (rd_next as_uint64) (\<lambda>lmrt.
      rd_bind (rd_next as_uint32s) (\<lambda>histogram.
      rd_ret \<lparr>cs_cache_path = path, cs_policy = policy, cs_size = n, cs_size_in_bytes = bytes,
           cs_max_size_in_bytes = max_bytes, cs_hits = hits, cs_misses = misses,
           cs_hits_since_last_miss = hslm, cs_misses_since_last_hit = mslh, cs_longest_hit_run = lhr,
           cs_longest_miss_run = lmr, cs_avg_hit_run_length = ahr, cs_avg_miss_run_length = amr,
           cs_ttl_evictions = ttl, cs_lru_evictions = lru, cs_most_recent_hit_time = time_of_msec mrht,
           cs_most_recent_miss_time = time_of_msec mrmt, cs_longest_hit_run_time = time_of_msec lhrt,
           cs_longest_miss_run_time = time_of_msec lmrt, cs_histogram = histogram\<rparr>)))))))))))))))))))))"

record svc_all_stats =
  as_full_size_stats :: svc_cache_stats
  as_thumbnail_stats :: svc_cache_stats
  as_failure_stats :: svc_cache_stats

definition marshal_all :: "svc_all_stats \<Rightarrow> dbus_value" where
  "marshal_all a = D_struct [marshal_stats (as_full_size_stats a), marshal_stats (as_thumbnail_stats a), marshal_stats (as_failure_stats a)]"

definition demarshal_all :: "dbus_value \<Rightarrow> svc_all_stats option" where
  "demarshal_all = rd_struct
     (rd_bind (rd_next demarshal_stats) (\<lambda>f. rd_bind (rd_next demarshal_stats) (\<lambda>t. rd_bind (rd_next demarshal_stats) (\<lambda>x.
      rd_ret \<lparr>as_full_size_stats = f, as_thumbnail_stats = t, as_failure_stats = x\<rparr>))))"

definition marshal_config :: "bool \<Rightarrow> int \<Rightarrow> dbus_value" where
  "marshal_config trace backlog = D_struct [D_bool trace, D_int32 (word_of_int backlog)]"

definition demarshal_config :: "dbus_value \<Rightarrow> (bool \<times> int) option" where
  "demarshal_config = rd_struct
     (rd_bind (rd_next as_bool) (\<lambda>trace. rd_bind (rd_next as_int32) (\<lambda>backlog. rd_ret (trace, backlog))))"

section \<open>The interface\<close>

definition to_list :: "int list \<Rightarrow> 32 word list" where
  "to_list histogram = map word_of_int histogram"

definition to_cache_stats :: "(discard_policy \<Rightarrow> 32 word) \<Rightarrow> cache_stats \<Rightarrow> svc_cache_stats" where
  "to_cache_stats policy_code st =
     \<lparr>cs_cache_path = st_cache_path st, cs_policy = policy_code (st_policy st), cs_size = st_size st,
      cs_size_in_bytes = st_size_in_bytes st, cs_max_size_in_bytes = st_max_size_in_bytes st, cs_hits = st_hits st,
      cs_misses = st_misses st, cs_hits_since_last_miss = st_hits_since_last_miss st,
      cs_misses_since_last_hit = st_misses_since_last_hit st, cs_longest_hit_run = st_longest_hit_run st,
      cs_longest_miss_run = st_longest_miss_run st, cs_avg_hit_run_length = st_avg_hit_run_length st,
      cs_avg_miss_run_length = st_avg_miss_run_length st, cs_ttl_evictions = st_ttl_evictions st,
      cs_lru_evictions = st_lru_evictions st, cs_most_recent_hit_time = st_most_recent_hit_time st,
      cs_most_recent_miss_time = st_most_recent_miss_time st, cs_longest_hit_run_time = st_longest_hit_run_time st,
      cs_longest_miss_run_time = st_longest_miss_run_time st, cs_histogram = to_list (st_histogram st)\<rparr>"

record 'w admin =
  ad_thumbnailer :: "'w thumbnailer"
  ad_inactivity :: inactivity
  ad_errors :: "(string \<times> string) list"
  ad_quit :: bool

definition ADMIN_ERROR :: string where
  "ADMIN_ERROR = ''com.canonical.ThumbnailerAdmin.Error.Failed''"

definition on_thumbnailer :: "('w thumbnailer, 'a) act \<Rightarrow> ('w admin, 'a) act" where
  "on_thumbnailer = act_zoom ad_thumbnailer (\<lambda>t a. a\<lparr>ad_thumbnailer := t\<rparr>)"

text \<open>The scope of an \<open>ActivityNotifier\<close>: its destructor runs whether the body throws or not.\<close>

definition notified :: "('w admin, 'a) act \<Rightarrow> ('w admin, 'a) act" where
  "notified body a =
     (case request_started (ad_inactivity a) of
        Inl e \<Rightarrow> (Inl e, a)
      | Inr i \<Rightarrow>
          (case body (a\<lparr>ad_inactivity := i\<rparr>) of
             (r, a1) \<Rightarrow> (case request_completed (ad_inactivity a1) of
                          Inl e \<Rightarrow> (Inl e, a1)
                        | Inr i1 \<Rightarrow> (r, a1\<lparr>ad_inactivity := i1\<rparr>))))"

definition Stats :: "(discard_policy \<Rightarrow> 32 word) \<Rightarrow> ('p, 'l, 'w) env \<Rightarrow> ('w admin, svc_all_stats) act" where
  "Stats policy_code E = notified
     (act_bind (on_thumbnailer (stats E)) (\<lambda>st.
      act_ret \<lparr>as_full_size_stats = to_cache_stats policy_code (full_size_stats st),
               as_thumbnail_stats = to_cache_stats policy_code (thumbnail_stats st),
               as_failure_stats = to_cache_stats policy_code (failure_stats st)\<rparr>))"

text \<open>The enumerators of \<open>CacheSelector\<close> by number; \<open>LAST__\<close> has number 4.\<close>

definition selector_of :: "int \<Rightarrow> cache_selector" where
  "selector_of n = (if n = 0 then Sel_all else if n = 1 then Sel_full_size_cache else if n = 2 then Sel_thumbnail_cache
                    else if n = 3 then Sel_failure_cache else Sel_last)"

definition selected_call :: "string \<Rightarrow> (cache_selector \<Rightarrow> ('w thumbnailer, unit) act) \<Rightarrow> int \<Rightarrow> ('w admin, unit) act" where
  "selected_call name f n = notified
     (if n < 0 \<or> n \<ge> 4
      then act_modify (\<lambda>a. a\<lparr>ad_errors := ad_errors a @ [(ADMIN_ERROR, name @ ''(): invalid cache selector: '' @ int_to_string n)]\<rparr>)
      else on_thumbnailer (f (selector_of n)))"

definition ClearStats :: "('p, 'l, 'w) env \<Rightarrow> int \<Rightarrow> ('w admin, unit) act" where
  "ClearStats E = selected_call ''ClearStats'' (clear_stats E)"

definition Clear :: "('p, 'l, 'w) env \<Rightarrow> int \<Rightarrow> ('w admin, unit) act" where
  "Clear E = selected_call ''Clear'' (clear E)"

definition Compact :: "('p, 'l, 'w) env \<Rightarrow> int \<Rightarrow> ('w admin, unit) act" where
  "Compact E = selected_call ''Compact'' (compact E)"

definition Shutdown :: "('w admin, unit) act" where
  "Shutdown = act_modify (\<lambda>a. a\<lparr>ad_quit := True\<rparr>)"

section \<open>Round trips\<close>

definition in_qint64 :: "int \<Rightarrow> bool" where
  "in_qint64 n \<longleftrightarrow> - (2 ^ 63) \<le> n \<and> n < 2 ^ 63"

lemma sint_of_qint64: "in_qint64 n \<Longrightarrow> sint (word_of_int n :: 64 word) = n"
  by (simp add: in_qint64_def signed_of_int signed_take_bit_int_eq_self)

text \<open>A time point after the trip: its milliseconds.\<close>

definition whole_msec :: "int \<Rightarrow> int" where
  "whole_msec ns = to_msec ns * 1000000"

lemma to_msec_bounds:
  assumes "in_qint64 ns"
  shows "in_qint64 (to_msec ns)" and "in_qint64 (whole_msec ns)"
proof -
  have *: "0 \<le> m div 1000000 \<and> m div 1000000 \<le> m \<and> m div 1000000 * 1000000 \<le> m" if "0 \<le> m" for m :: int
  proof -
    have "m div 1000000 * 1000000 = m - m mod 1000000" by (simp add: minus_mod_eq_div_mult)
    moreover have "0 \<le> m mod 1000000" "0 \<le> m div 1000000" using that by (simp_all add: pos_imp_zdiv_nonneg_iff)
    ultimately show ?thesis by linarith
  qed
  show "in_qint64 (to_msec ns)" "in_qint64 (whole_msec ns)"
    using assms * [of ns] * [of "- ns"] by (cases "ns < 0"; simp add: in_qint64_def whole_msec_def to_msec_def)+
qed

lemma time_round_trip: "in_qint64 ns \<Longrightarrow> time_of_msec (word_of_int (to_msec ns)) = whole_msec ns"
  using to_msec_bounds [of ns] by (simp only: time_of_msec_def sint_of_qint64 whole_msec_def)

definition stats_in_range :: "svc_cache_stats \<Rightarrow> bool" where
  "stats_in_range s \<longleftrightarrow>
     (\<forall>n \<in> {cs_size s, cs_size_in_bytes s, cs_max_size_in_bytes s, cs_hits s, cs_misses s, cs_hits_since_last_miss s,
            cs_misses_since_last_hit s, cs_longest_hit_run s, cs_longest_miss_run s, cs_ttl_evictions s, cs_lru_evictions s,
            cs_most_recent_hit_time s, cs_most_recent_miss_time s, cs_longest_hit_run_time s, cs_longest_miss_run_time s}.
       in_qint64 n)"

definition in_msec :: "svc_cache_stats \<Rightarrow> svc_cache_stats" where
  "in_msec s = s\<lparr>cs_most_recent_hit_time := whole_msec (cs_most_recent_hit_time s),
     cs_most_recent_miss_time := whole_msec (cs_most_recent_miss_time s),
     cs_longest_hit_run_time := whole_msec (cs_longest_hit_run_time s),
     cs_longest_miss_run_time := whole_msec (cs_longest_miss_run_time s)\<rparr>"

lemma demarshal_marshal: "stats_in_range s \<Longrightarrow> demarshal_stats (marshal_stats s) = Some (in_msec s)"
  by (cases s) (simp add: marshal_stats_def marshal_time_def stats_in_range_def in_msec_def sint_of_qint64 time_round_trip
      demarshal_stats_def rd_struct_def rd_bind_def rd_next_def rd_ret_def)

lemma config_round_trip: "in_int backlog \<Longrightarrow> demarshal_config (marshal_config trace backlog) = Some (trace, backlog)"
  by (simp add: marshal_config_def demarshal_config_def rd_struct_def rd_bind_def rd_next_def rd_ret_def signed_of_int
      signed_take_bit_int_eq_self in_int_def INT_MIN_def INT_MAX_def)

section \<open>Calls\<close>

lemma notified_effect:
  assumes "0 \<le> num_active (ad_inactivity a)"
    and nat: "\<And>i. body (a\<lparr>ad_inactivity := i\<rparr>) = (fst (body a), (snd (body a))\<lparr>ad_inactivity := i\<rparr>)"
  shows "\<exists>i. notified body a = (fst (body a), (snd (body a))\<lparr>ad_inactivity := i\<rparr>) \<and> num_active i = num_active (ad_inactivity a)"
proof -
  let ?i = "ad_inactivity a"
  have "notified body a = (fst (body a), (snd (body a))\<lparr>ad_inactivity :=
      (if num_active ?i = 0 then ?i\<lparr>num_active := 0, idle_timer := True\<rparr> else ?i)\<rparr>)"
    using assms(1) by (simp add: notified_def request_started_def request_completed_def nat)
  then show ?thesis by (rule exI [where x = "if num_active ?i = 0 then ?i\<lparr>num_active := 0, idle_timer := True\<rparr> else ?i", OF conjI]) simp
qed

lemma on_thumbnailer_result:
  "on_thumbnailer m a = (fst (m (ad_thumbnailer a)), a\<lparr>ad_thumbnailer := snd (m (ad_thumbnailer a))\<rparr>)"
  by (simp add: on_thumbnailer_def act_zoom_def split: prod.splits)

lemma selected_call_effect:
  assumes "0 \<le> num_active (ad_inactivity a)"
  shows "\<exists>i. num_active i = num_active (ad_inactivity a) \<and>
     selected_call name f n a =
       (if 0 \<le> n \<and> n < 4
        then (fst (f (selector_of n) (ad_thumbnailer a)),
              a\<lparr>ad_thumbnailer := snd (f (selector_of n) (ad_thumbnailer a)), ad_inactivity := i\<rparr>)
        else (Inr (), a\<lparr>ad_errors := ad_errors a @ [(ADMIN_ERROR, name @ ''(): invalid cache selector: '' @ int_to_string n)],
                        ad_inactivity := i\<rparr>))"
proof (cases "0 \<le> n \<and> n < 4")
  case True
  from notified_effect [OF assms, of "on_thumbnailer (f (selector_of n))"] True show ?thesis
    by (auto simp: selected_call_def on_thumbnailer_result)
next
  case False
  then have n: "n < 0 \<or> 4 \<le> n" by linarith
  from notified_effect [OF assms, of "act_modify (\<lambda>a. a\<lparr>ad_errors := ad_errors a @ [(ADMIN_ERROR, name @ ''(): invalid cache selector: '' @ int_to_string n)]\<rparr>)"]
    n False show ?thesis
    by (auto simp: selected_call_def)
qed

section \<open>Properties\<close>

text \<open>
  C32. Statistics survive the trip over the bus: what the service marshals, the client reads back field by field, with
  the time points cut to whole milliseconds and nothing else changed, for all values of 64-bit range.
\<close>

theorem stats_round_trip:
  assumes "stats_in_range (as_full_size_stats a)" and "stats_in_range (as_thumbnail_stats a)" and "stats_in_range (as_failure_stats a)"
  shows "demarshal_all (marshal_all a) =
     Some \<lparr>as_full_size_stats = in_msec (as_full_size_stats a), as_thumbnail_stats = in_msec (as_thumbnail_stats a),
           as_failure_stats = in_msec (as_failure_stats a)\<rparr>"
  using assms
  by (simp add: demarshal_all_def marshal_all_def demarshal_marshal rd_struct_def rd_bind_def rd_next_def rd_ret_def)

definition sample_all_stats :: svc_all_stats where
  "sample_all_stats =
     (let s = (to_cache_stats (\<lambda>_. 1) (mem_stats (False, [])))\<lparr>cs_most_recent_hit_time := 1500000001\<rparr>
      in \<lparr>as_full_size_stats = s, as_thumbnail_stats = s, as_failure_stats = s\<rparr>)"

theorem stats_round_trip_witness:
  "\<exists>a. demarshal_all (marshal_all sample_all_stats) = Some a \<and> cs_most_recent_hit_time (as_failure_stats a) = 1500000000"
  using stats_round_trip [of sample_all_stats]
  by (simp add: sample_all_stats_def Let_def to_cache_stats_def mem_stats_def stats_in_range_def in_qint64_def in_msec_def
      whole_msec_def to_msec_def)

text \<open>
  Administrative calls reach exactly the selected caches: a selector in the range of the enumeration calls the
  thumbnailer's operation and passes its outcome on; any other number changes no cache and gets an error reply. In
  both cases, and when the operation throws, the number of active requests is what it was.
\<close>

theorem admin_selector_checked:
  assumes "0 \<le> num_active (ad_inactivity a)"
    and "(admin_call, f) \<in> {(Clear E, clear E), (ClearStats E, clear_stats E), (Compact E, compact E)}"
  shows "num_active (ad_inactivity (snd (admin_call n a))) = num_active (ad_inactivity a) \<and>
     (0 \<le> n \<and> n < 4 \<longrightarrow>
        fst (admin_call n a) = fst (f (selector_of n) (ad_thumbnailer a)) \<and>
        ad_thumbnailer (snd (admin_call n a)) = snd (f (selector_of n) (ad_thumbnailer a)) \<and>
        ad_errors (snd (admin_call n a)) = ad_errors a) \<and>
     (\<not> (0 \<le> n \<and> n < 4) \<longrightarrow>
        fst (admin_call n a) = Inr () \<and> ad_thumbnailer (snd (admin_call n a)) = ad_thumbnailer a \<and>
        length (ad_errors (snd (admin_call n a))) = length (ad_errors a) + 1)"
proof -
  from assms(2) obtain name where admin_call: "admin_call n a = selected_call name f n a"
    by (auto simp: Clear_def ClearStats_def Compact_def)
  from selected_call_effect [OF assms(1), of name f n] show ?thesis unfolding admin_call by auto
qed

definition sample_admin :: "mem admin" where
  "sample_admin = \<lparr>ad_thumbnailer = sample_thumbnailer,
     ad_inactivity = \<lparr>num_active = 0, idle_timer = False, interval = 30000, expirations = 0\<rparr>, ad_errors = [], ad_quit = False\<rparr>"

theorem admin_selector_checked_witness:
  "ad_thumbnailer (snd (Clear sample_env 4 sample_admin)) = sample_thumbnailer \<and>
   length (ad_errors (snd (Clear sample_env 4 sample_admin))) = 1"
  using admin_selector_checked [of sample_admin "Clear sample_env" "clear sample_env" sample_env 4]
  by (simp add: sample_admin_def)

end
