(* ===== verification/Admin_Tool.thy ===== *)
theory Admin_Tool
  imports Admin_Interface
begin

text \<open>
  The command-line tool \<open>thumbnailer-admin\<close> (\<open>src/thumbnailer-admin\<close>). What Qt's command line parser found is a record; an
  action's constructor checks it and either gives the action or the text that is thrown. Running an action sends a request
  to the service; its reply, the time and floating-point formatting of the C library and the path functions of boost are
  arguments.
\<close>

section \<open>Sizes and paths\<close>

text \<open>\<open>QString::split\<close> keeps empty parts.\<close>

fun split_at :: "char \<Rightarrow> string \<Rightarrow> string list" where
  "split_at c [] = [[]]"
| "split_at c (a # s) = (if a = c then [] # split_at c s else (case split_at c s of [] \<Rightarrow> [[a]] | p # ps \<Rightarrow> (a # p) # ps))"

definition parse_size :: "string \<Rightarrow> qsize" where
  "parse_size s =
     (let wxh = split_at (CHR ''x'') s;
          r = (if length wxh = 2
               then rbind (stoi (hd wxh)) (\<lambda>w. rbind (stoi (last wxh)) (\<lambda>h. Inr (QSize w h)))
               else rbind (stoi (hd wxh)) (\<lambda>n. Inr (QSize n n)))
      in case r of Inr sz \<Rightarrow> sz | Inl e \<Rightarrow> QSize (- 1) (- 1))"

text \<open>\<open>stem\<close> is \<open>path::filename().stem()\<close>.\<close>

definition make_output_path :: "(string \<Rightarrow> string) \<Rightarrow> string \<Rightarrow> qsize \<Rightarrow> string \<Rightarrow> string" where
  "make_output_path stem inpath sz dir =
     (if dir = [] then [] else dir @ ''/'') @ stem inpath @
     ''_'' @ int_to_string (width sz) @ ''x'' @ int_to_string (height sz) @ ''.png''"

definition png_magic :: "nat list" where
  "png_magic = [137, 80, 78, 71, 13, 10, 26, 10]"

definition to_png :: "('p, 'l) gdk \<Rightarrow> qscale \<Rightarrow> exif_loader \<Rightarrow> string \<Rightarrow> string result" where
  "to_png G qscale exif ba =
     (if length ba < 8 then Inl (Assertion ''ba.size() >= 8'')
      else if map of_char (take 8 ba) = png_magic then Inr ba
      else rbind (Image_load G qscale exif (BufferReader ba) (QSize (- 1) (- 1))) (png_data G))"

section \<open>Parsed command lines\<close>

record cmdline =
  positional :: "string list"
  parse_ok :: bool
  error_text :: string
  help_text :: string
  help_set :: bool
  size_value :: "string option"
  verbose_set :: bool

definition checked :: "cmdline \<Rightarrow> (string + 'a) \<Rightarrow> string + 'a" where
  "checked p k =
     (if \<not> parse_ok p then Inl (error_text p @ [CHR 0x0A, CHR 0x0A] @ help_text p)
      else if help_set p then Inl (help_text p)
      else k)"

definition too_many :: "string \<Rightarrow> cmdline \<Rightarrow> string" where
  "too_many command p =
     ''too many arguments for '' @ command @ '' command'' @ error_text p @ [CHR 0x0A, CHR 0x0A] @ help_text p"

definition invalid_id :: "string \<Rightarrow> cmdline \<Rightarrow> string" where
  "invalid_id arg p = ''invalid cache_id: '' @ arg @ [CHR 0x0A] @ help_text p"

section \<open>Clearing\<close>

definition valid_args :: "string list" where
  "valid_args = [[], ''i'', ''t'', ''f'']"

fun index_of :: "string \<Rightarrow> string list \<Rightarrow> int \<Rightarrow> int option" where
  "index_of a [] i = None"
| "index_of a (b # bs) i = (if a = b then Some i else index_of a bs (i + 1))"

definition Clear_action :: "string \<Rightarrow> cmdline \<Rightarrow> string + int" where
  "Clear_action command p = checked p
     (let args = positional p
      in if length args > 2 then Inl (too_many command p)
         else if length args = 2
         then (case index_of (args ! 1) valid_args 0 of Some i \<Rightarrow> Inr i | None \<Rightarrow> Inl (invalid_id (args ! 1) p))
         else Inr 0)"

definition Clear_run :: "('p, 'l, 'w) env \<Rightarrow> string \<Rightarrow> int \<Rightarrow> ('w admin, unit) act" where
  "Clear_run E command cache_id =
     (if command = ''clear'' then Clear E cache_id
      else if command = ''zero-stats'' then ClearStats E cache_id
      else Compact E cache_id)"

definition Shutdown_action :: "string \<Rightarrow> cmdline \<Rightarrow> string + unit" where
  "Shutdown_action command p = checked p
     (if length (positional p) > 1 then Inl (too_many command p) else Inr ())"

section \<open>Statistics\<close>

record show_flags =
  show_histogram_flag :: bool
  show_image_stats :: bool
  show_thumbnail_stats :: bool
  show_failure_stats :: bool

definition ShowStats :: "cmdline \<Rightarrow> string + show_flags" where
  "ShowStats p = checked p
     (let args = positional p;
          flags = (\<lambda>i t f. \<lparr>show_histogram_flag = verbose_set p, show_image_stats = i, show_thumbnail_stats = t,
                            show_failure_stats = f\<rparr>)
      in if length args > 2
         then Inl (''too many arguments for stats command'' @ error_text p @ [CHR 0x0A, CHR 0x0A] @ help_text p)
         else if length args = 2
         then (if args ! 1 = ''i'' then Inr (flags True False False)
               else if args ! 1 = ''t'' then Inr (flags False True False)
               else if args ! 1 = ''f'' then Inr (flags False False True)
               else Inl (invalid_id (args ! 1) p))
         else Inr (flags True True True))"

text \<open>\<open>never\<close> for the default time point; \<open>asctime_of\<close> is \<open>asctime(localtime(to_time_t(tp)))\<close>.\<close>

definition to_time_string :: "(int \<Rightarrow> string) \<Rightarrow> int \<Rightarrow> string" where
  "to_time_string asctime_of tp = (if tp = 0 then ''never'' @ [CHR 0x0A] else asctime_of tp)"

text \<open>\<open>int(log10(val) + 1)\<close>: the number of decimal digits; the conversion of \<open>log10(0)\<close> is undefined.\<close>

definition display_width :: "nat \<Rightarrow> nat result" where
  "display_width v = (if v = 0 then Inl (Domain_error ''log10(0)'') else Inr (length (nat_to_string v)))"

definition pad_left :: "nat \<Rightarrow> string \<Rightarrow> string" where
  "pad_left n s = replicate (n - length s) (CHR '' '') @ s"

definition print_entry :: "nat \<Rightarrow> int \<times> int \<Rightarrow> nat \<Rightarrow> nat \<Rightarrow> string" where
  "print_entry label_width bounds value_width v =
     ''        '' @ pad_left (label_width * 2 + 1) (int_to_string (fst bounds) @ ''-'' @ int_to_string (snd bounds)) @
     '': '' @ pad_left value_width (nat_to_string v) @ [CHR 0x0A]"

text \<open>The loop that finds the first and last non-zero slot and the largest count.\<close>

fun scan_histogram :: "nat list \<Rightarrow> int \<Rightarrow> int \<times> int \<times> nat \<Rightarrow> int \<times> int \<times> nat" where
  "scan_histogram [] i acc = acc"
| "scan_histogram (v # vs) i (first_slot, last_slot, max_count) =
     scan_histogram vs (i + 1)
       (if v \<noteq> 0 then (if first_slot = - 1 then i else first_slot, i, max max_count v)
        else (first_slot, last_slot, max_count))"

text \<open>\<open>labels\<close> is \<open>PersistentCacheStats::histogram_bounds()\<close>.\<close>

definition show_histogram :: "(int \<times> int) list \<Rightarrow> nat list \<Rightarrow> string result" where
  "show_histogram labels h =
     (case scan_histogram h 0 (- 1, - 1, 0) of
        (first_slot, last_slot, max_count) \<Rightarrow>
          if first_slot = - 1 then Inr (''    Histogram:'' @ ''             empty'' @ [CHR 0x0A])
          else rbind (display_width (nat (fst (labels ! nat last_slot)))) (\<lambda>label_width.
               rbind (display_width max_count) (\<lambda>value_width.
               Inr (''    Histogram:'' @ [CHR 0x0A] @
                    concat (map (\<lambda>i. print_entry label_width (labels ! i) value_width (h ! i))
                              [nat first_slot..<Suc (nat last_slot)])))))"

definition stat_line :: "string \<Rightarrow> int \<Rightarrow> string" where
  "stat_line label v = ''    '' @ label @ int_to_string v @ [CHR 0x0A]"

definition show_stats ::
  "(int \<Rightarrow> string) \<Rightarrow> (64 word \<Rightarrow> string) \<Rightarrow> (discard_policy \<Rightarrow> 32 word) \<Rightarrow> (int \<times> int) list \<Rightarrow> bool \<Rightarrow> svc_cache_stats \<Rightarrow> string result" where
  "show_stats asctime_of fmt_2f policy_code labels verbose st =
     (let head =
        ''    Path:                  '' @ cs_cache_path st @ [CHR 0x0A] @
        ''    Policy:                '' @ (if cs_policy st = policy_code Lru_ttl then ''lru_ttl'' else ''lru_only'') @ [CHR 0x0A] @
        stat_line ''Size:                  '' (cs_size st) @
        stat_line ''Size in bytes:         '' (cs_size_in_bytes st) @
        stat_line ''Max size in bytes:     '' (cs_max_size_in_bytes st) @
        stat_line ''Hits:                  '' (cs_hits st) @
        stat_line ''Misses:                '' (cs_misses st) @
        stat_line ''Hits since last miss:  '' (cs_hits_since_last_miss st) @
        stat_line ''Misses_since_last_hit: '' (cs_misses_since_last_hit st) @
        stat_line ''Longest hit run:       '' (cs_longest_hit_run st) @
        stat_line ''Longest miss run:      '' (cs_longest_miss_run st) @
        ''    Avg hit run length:    '' @ fmt_2f (cs_avg_hit_run_length st) @ [CHR 0x0A] @
        ''    Avg miss run length:   '' @ fmt_2f (cs_avg_miss_run_length st) @ [CHR 0x0A] @
        stat_line ''TTL evictions:         '' (cs_ttl_evictions st) @
        stat_line ''LRU evictions:         '' (cs_lru_evictions st) @
        ''    Most-recent hit time:  '' @ to_time_string asctime_of (cs_most_recent_hit_time st) @
        ''    Most-recent miss time: '' @ to_time_string asctime_of (cs_most_recent_miss_time st) @
        ''    Longest hit-run time:  '' @ to_time_string asctime_of (cs_longest_hit_run_time st) @
        ''    Longest miss-run time: '' @ to_time_string asctime_of (cs_longest_miss_run_time st)
      in if verbose
         then rbind (show_histogram labels (map unat (cs_histogram st))) (\<lambda>t. Inr (head @ t))
         else Inr head)"

definition ShowStats_run ::
  "(svc_cache_stats \<Rightarrow> string result) \<Rightarrow> show_flags \<Rightarrow> svc_all_stats \<Rightarrow> string result" where
  "ShowStats_run show_one f st =
     rbind (if show_image_stats f then rbind (show_one (as_full_size_stats st)) (\<lambda>t. Inr (''Image cache:'' @ [CHR 0x0A] @ t)) else Inr []) (\<lambda>a.
     rbind (if show_thumbnail_stats f then rbind (show_one (as_thumbnail_stats st)) (\<lambda>t. Inr (''Thumbnail cache:'' @ [CHR 0x0A] @ t)) else Inr []) (\<lambda>b.
     rbind (if show_failure_stats f then rbind (show_one (as_failure_stats st)) (\<lambda>t. Inr (''Failure cache:'' @ [CHR 0x0A] @ t)) else Inr []) (\<lambda>c.
     Inr (a @ b @ c))))"

section \<open>Thumbnails\<close>

record get_action =
  ga_input :: "string list"
  ga_output_dir :: string
  ga_size :: qsize

definition chosen_size :: "string \<Rightarrow> cmdline \<Rightarrow> string + qsize" where
  "chosen_size name p =
     (case size_value p of
        None \<Rightarrow> Inr (QSize 0 0)
      | Some s \<Rightarrow> if isValid (parse_size s) then Inr (parse_size s) else Inl (name @ ''(): invalid size: '' @ s))"

text \<open>\<open>getcwd\<close> gives a path or an error text.\<close>

definition current_directory :: "string + string \<Rightarrow> string + string" where
  "current_directory getcwd = (case getcwd of Inl err \<Rightarrow> Inl (''getcwd(): '' @ err) | Inr dir \<Rightarrow> Inr dir)"

definition GetLocalThumbnail ::
  "(string \<Rightarrow> bool) \<Rightarrow> (string \<Rightarrow> string result) \<Rightarrow> string + string \<Rightarrow> cmdline \<Rightarrow> string + get_action" where
  "GetLocalThumbnail is_absolute canonical getcwd p = checked p
     (let args = positional p
      in if length args < 2 \<or> length args > 3 then Inl (help_text p)
         else if args ! 1 = [] then Inl ''GetLocalThumbnail(): invalid empty input path''
         else let input = (if is_absolute (args ! 1) then args ! 1
                           else case canonical (args ! 1) of Inr s \<Rightarrow> s | Inl e \<Rightarrow> args ! 1);
                  wd = (if length args = 3 then Inr (args ! 2) else current_directory getcwd)
              in case wd of
                   Inl e \<Rightarrow> Inl e
                 | Inr dir \<Rightarrow>
                     if dir = [] then Inl ''GetLocalThumbnail(): invalid empty output directory''
                     else case chosen_size ''GetLocalThumbnail'' p of
                            Inl e \<Rightarrow> Inl e
                          | Inr sz \<Rightarrow> Inr \<lparr>ga_input = [input], ga_output_dir = dir, ga_size = sz\<rparr>)"

definition GetRemoteThumbnail :: "string + string \<Rightarrow> cmdline \<Rightarrow> string + get_action" where
  "GetRemoteThumbnail getcwd p = checked p
     (let args = positional p
      in if length args < 3 \<or> length args > 4 then Inl (help_text p)
         else case (if length args = 4 then Inr (args ! 3) else current_directory getcwd) of
                Inl e \<Rightarrow> Inl e
              | Inr dir \<Rightarrow>
                  (case chosen_size ''GetRemoteThumbnail'' p of
                     Inl e \<Rightarrow> Inl e
                   | Inr sz \<Rightarrow> Inr \<lparr>ga_input = [args ! 1, args ! 2], ga_output_dir = dir, ga_size = sz\<rparr>))"

definition remote_inpath :: "string \<Rightarrow> string list \<Rightarrow> string" where
  "remote_inpath command input =
     map (\<lambda>c. if c = CHR ''/'' then CHR ''-'' else c)
       (input ! 0 @ ''_'' @ input ! 1 @ ''_'' @ (if command = ''get-artist'' then ''artist'' else ''album''))"

text \<open>The common end of both \<open>run\<close> methods: convert the reply and write the file. An exception becomes a text.\<close>

definition save_thumbnail ::
  "string \<Rightarrow> (string \<Rightarrow> string result) \<Rightarrow> (string \<Rightarrow> string) \<Rightarrow> fs_calls \<Rightarrow> string \<Rightarrow> get_action \<Rightarrow> string + string \<Rightarrow>
   (string \<rightharpoonup> string) \<Rightarrow> (string + unit) result \<times> (string \<rightharpoonup> string)" where
  "save_thumbnail name png_of stem F inpath ga reply fs =
     (case reply of
        Inl msg \<Rightarrow> (Inr (Inl msg), fs)
      | Inr bytes \<Rightarrow>
          (let caught = (\<lambda>e fs'. if catchable e then (Inr (Inl (name @ ''::run(): '' @ what e)), fs') else (Inl e, fs'))
           in case png_of bytes of
                Inl e \<Rightarrow> caught e fs
              | Inr png \<Rightarrow>
                  (case write_file F (make_output_path stem inpath (ga_size ga) (ga_output_dir ga)) png fs of
                     (Inl e, fs') \<Rightarrow> caught e fs'
                   | (Inr _, fs') \<Rightarrow> (Inr (Inr ()), fs'))))"

section \<open>Lemmas\<close>

lemma split_at_none: "c \<notin> set s \<Longrightarrow> split_at c s = [s]"
  by (induction s) auto

lemma split_at_append: "c \<notin> set s \<Longrightarrow> split_at c (s @ c # t) = s # split_at c t"
  by (induction s) auto

lemma takeWhile_shorter: "\<exists>v \<in> set xs. \<not> P v \<Longrightarrow> length (takeWhile P xs) < length xs"
  by (induction xs) auto

lemma index_of_valid:
  "index_of a valid_args 0 =
     (if a = [] then Some 0 else if a = ''i'' then Some 1 else if a = ''t'' then Some 2 else if a = ''f'' then Some 3 else None)"
  by (simp add: valid_args_def)

text \<open>What the scan of the histogram finds.\<close>

lemma scan_histogram_spec:
  "scan_histogram vs (int k) (f, l, m) =
     (if \<forall>v \<in> set vs. v = 0 then (f, l, m)
      else (if f = - 1 then int (k + length (takeWhile (\<lambda>v. v = 0) vs)) else f,
            int (k + length vs) - 1 - int (length (takeWhile (\<lambda>v. v = 0) (rev vs))),
            foldl max m vs))"
proof (induction vs arbitrary: k f l m)
  case (Cons v vs)
  have IH: "scan_histogram vs (int k + 1) (f, l, m) =
     (if \<forall>v \<in> set vs. v = 0 then (f, l, m)
      else (if f = - 1 then int (Suc k + length (takeWhile (\<lambda>v. v = 0) vs)) else f,
            int (Suc k + length vs) - 1 - int (length (takeWhile (\<lambda>v. v = 0) (rev vs))), foldl max m vs))" for f l m
    using Cons.IH [of "Suc k" f l m] by (simp add: algebra_simps)
  have zeros: "foldl max m vs = m" if "\<forall>v \<in> set vs. v = 0" for m :: nat
    using that by (induction vs arbitrary: m) auto
  have tw: "takeWhile (\<lambda>v. v = 0) (rev vs @ [v]) =
      (if \<forall>v \<in> set vs. v = 0 then rev vs @ (if v = 0 then [v] else []) else takeWhile (\<lambda>v. v = 0) (rev vs))"
    by (auto simp: takeWhile_append)
  show ?case
  proof (cases "\<forall>v \<in> set vs. v = 0")
    case True
    then show ?thesis by (auto simp: IH tw zeros)
  next
    case False
    then show ?thesis by (auto simp: IH tw)
  qed
qed simp

section \<open>Properties\<close>

text \<open>
  Sizes on the command line: the text \<open>WxH\<close> of a printed pair of \<open>int\<close>s is read back as that size, a single
  number as a square, and a text whose first part is no number is an invalid size, which both \<open>get\<close> commands reject.
\<close>

theorem parse_size_round_trip:
  assumes "in_int w" and "in_int h"
  shows "parse_size (int_to_string w @ ''x'' @ int_to_string h) = QSize w h \<and>
         parse_size (int_to_string w) = QSize w w \<and>
         (\<forall>s e. stoi (hd (split_at (CHR ''x'') s)) = Inl e \<longrightarrow> \<not> isValid (parse_size s))"
  using assms
  by (auto simp: parse_size_def split_at_append split_at_none stoi_int_to_string Let_def isValid_def)

theorem parse_size_round_trip_witness: "parse_size ''240x480'' = QSize 240 480"
proof -
  have i: "in_int 240" "in_int 480" by (simp_all add: in_int_def INT_MIN_def INT_MAX_def)
  have "int_to_string 240 = ''240''" "int_to_string 480 = ''480''" by code_simp+
  with parse_size_round_trip [OF i] show ?thesis by simp
qed

text \<open>
  The histogram is printed completely: the scan reports an empty histogram exactly when all counts are zero;
  otherwise its bounds are slots with a count, no slot with a count lies outside them, and the width is that of the largest count.
\<close>

theorem histogram_bounds_exact:
  "(case scan_histogram h 0 (- 1, - 1, 0) of
      (first_slot, last_slot, max_count) \<Rightarrow>
        (first_slot = - 1 \<longleftrightarrow> (\<forall>v \<in> set h. v = 0)) \<and>
        (first_slot \<noteq> - 1 \<longrightarrow>
           0 \<le> first_slot \<and> first_slot \<le> last_slot \<and> last_slot < int (length h) \<and>
           h ! nat first_slot \<noteq> 0 \<and> h ! nat last_slot \<noteq> 0 \<and> max_count = Max (set h) \<and>
           (\<forall>i < length h. h ! i \<noteq> 0 \<longrightarrow> first_slot \<le> int i \<and> int i \<le> last_slot)))"
proof (cases "\<forall>v \<in> set h. v = 0")
  case True
  then show ?thesis using scan_histogram_spec [of h 0 "- 1" "- 1" 0] by simp
next
  case False
  let ?z = "\<lambda>v::nat. v = 0"
  let ?f = "length (takeWhile ?z h)" and ?r = "length (takeWhile ?z (rev h))"
  have scan: "scan_histogram h 0 (- 1, - 1, 0) = (int ?f, int (length h) - 1 - int ?r, foldl max 0 h)"
    using scan_histogram_spec [of h 0 "- 1" "- 1" 0] False by simp
  have f: "?f < length h" "h ! ?f \<noteq> 0"
  proof -
    show "?f < length h" using False takeWhile_shorter [of h ?z] by auto
    with nth_length_takeWhile [of ?z h] show "h ! ?f \<noteq> 0" by simp
  qed
  have r: "?r < length h" "h ! (length h - 1 - ?r) \<noteq> 0"
  proof -
    show "?r < length h" using False takeWhile_shorter [of "rev h" ?z] by auto
    with nth_length_takeWhile [of ?z "rev h"] show "h ! (length h - 1 - ?r) \<noteq> 0"
      by (simp add: rev_nth)
  qed
  have low: "?f \<le> i" if "i < length h" "h ! i \<noteq> 0" for i
    using that takeWhile_nth [of i ?z h] nth_mem [of i "takeWhile ?z h"] set_takeWhileD by fastforce
  have high: "i \<le> length h - 1 - ?r" if "i < length h" "h ! i \<noteq> 0" for i
  proof (rule ccontr)
    assume "\<not> i \<le> length h - 1 - ?r"
    then have j: "length h - 1 - i < ?r" using that(1) r(1) by linarith
    then have "rev h ! (length h - 1 - i) = 0"
      using takeWhile_nth [of "length h - 1 - i" ?z "rev h"] nth_mem [OF j] set_takeWhileD by metis
    with that show False by (simp add: rev_nth)
  qed
  have m: "foldl max 0 h = Max (set h)"
  proof -
    have "(\<lambda>x s. max s x) = (max :: nat \<Rightarrow> nat \<Rightarrow> nat)" by (intro ext) (simp add: max.commute)
    then have "foldl max 0 h = Max (set (0 # h))" by (simp only: foldl_conv_fold Max.set_eq_fold)
    also have "\<dots> = Max (set h)" using False by (cases h) auto
    finally show ?thesis .
  qed
  have l: "int (length h) - 1 - int ?r = int (length h - 1 - ?r)" using r(1) by linarith
  have "?f \<le> length h - 1 - ?r" using high [OF f] .
  moreover have "length h - 1 - ?r < length h" using r(1) by linarith
  ultimately show ?thesis
    unfolding scan l using f r(2) low high m False by (simp only: prod.case nat_int of_nat_le_iff of_nat_less_iff) simp
qed

theorem histogram_bounds_exact_witness:
  "\<exists>f l m. scan_histogram [0, 3, 0, 5, 0] 0 (- 1, - 1, 0) = (f, l, m) \<and> f \<le> 1 \<and> 3 \<le> l \<and> m = 5"
proof -
  obtain f l m where s: "scan_histogram [0, 3, 0, 5, 0] 0 (- 1, - 1, 0) = (f, l, m)" by (metis prod_cases3)
  have "\<not> (\<forall>v \<in> set [0, 3, 0, 5, 0 :: nat]. v = 0)" by simp
  with histogram_bounds_exact [of "[0, 3, 0, 5, 0]"] s have
    *: "m = Max (set [0, 3, 0, 5, 0])" "\<forall>i < length [0, 3, 0, 5, 0 :: nat]. [0, 3, 0, 5, 0] ! i \<noteq> (0 :: nat) \<longrightarrow> f \<le> int i \<and> int i \<le> l"
    by (simp_all only: prod.case) blast+
  from *(2) [rule_format, of 1] *(2) [rule_format, of 3] *(1) s show ?thesis by simp
qed

text \<open>Whether a command line names a cache; none named means all.\<close>

definition named :: "cmdline \<Rightarrow> cache_id \<Rightarrow> bool" where
  "named p c \<longleftrightarrow>
     (if length (positional p) = 2 \<and> positional p ! 1 \<noteq> []
      then positional p ! 1 = (case c of Full_size \<Rightarrow> ''i'' | Thumbs \<Rightarrow> ''t'' | Failures \<Rightarrow> ''f'') else True)"

lemma Clear_action_selects:
  assumes "Clear_action command p = Inr n"
  shows "0 \<le> n \<and> n < 4 \<and> (\<forall>c. c \<in> set (select_caches (selector_of n)) \<longleftrightarrow> named p c)"
proof -
  have all: "c \<in> {Full_size, Thumbs, Failures}" for c by (cases c) simp_all
  from assms have "n \<in> {0, 1, 2, 3}" and
    "if length (positional p) = 2 then index_of (positional p ! 1) valid_args 0 = Some n else n = 0"
    by (auto simp: Clear_action_def checked_def index_of_valid Let_def split: if_splits option.splits)
  then show ?thesis
    using all by (auto simp: index_of_valid selector_of_def select_caches_def named_def split: if_splits cache_id.splits)
qed

text \<open>
  The command \<open>clear\<close> end to end: for every command line that the tool accepts, the service empties exactly the
  caches named on it (all without an argument, the image cache for \<open>i\<close>, thumbnails for \<open>t\<close>, failures for \<open>f\<close>) and sends no
  error.
\<close>

theorem admin_clear_command:
  assumes "healthy_backend (backend_of E) ok content roomy" and "caches_ok ok (ad_thumbnailer a)"
    and "wf_backoff (backoff_of (ad_thumbnailer a))" and "0 \<le> num_active (ad_inactivity a)"
    and "Clear_action ''clear'' p = Inr n"
  shows "\<exists>a'. Clear_run E ''clear'' n a = (Inr (), a') \<and> ad_errors a' = ad_errors a \<and>
     (\<forall>c. contents content c (ad_thumbnailer a') = (if named p c then (\<lambda>_. None) else contents content c (ad_thumbnailer a)))"
proof -
  note sel = Clear_action_selects [OF assms(5)]
  have "0 \<le> max_backoff (backoff_of (ad_thumbnailer a))" using assms(3) by (auto simp: wf_backoff_def)
  from clear_effect [OF assms(1,2) this, of "selector_of n"] obtain t' where
    t': "clear E (selector_of n) (ad_thumbnailer a) = (Inr (), t')"
      "\<forall>c. contents content c t' = (if named p c then (\<lambda>_. None) else contents content c (ad_thumbnailer a))"
    using sel by auto
  from selected_call_effect [OF assms(4), of "''Clear''" "clear E" n] sel t' show ?thesis
    by (auto simp: Clear_run_def Clear_def)
qed

definition sample_cmdline :: cmdline where
  "sample_cmdline = \<lparr>positional = [''clear'', ''t''], parse_ok = True, error_text = [], help_text = [], help_set = False,
     size_value = None, verbose_set = False\<rparr>"

theorem admin_clear_command_witness:
  "\<exists>a'. Clear_run sample_env ''clear'' 2 sample_admin = (Inr (), a') \<and>
     contents (\<lambda>w. map_of (snd w)) Thumbs (ad_thumbnailer a') = (\<lambda>_. None)"
proof -
  have "healthy_backend (backend_of sample_env) (\<lambda>w. \<not> fst w) (\<lambda>w. map_of (snd w)) (\<lambda>k v. True)"
    by (simp add: mem_backend_healthy)
  moreover have "caches_ok (\<lambda>w. \<not> fst w) (ad_thumbnailer sample_admin)" using sample_caches_ok by (simp add: sample_admin_def)
  moreover have "wf_backoff (backoff_of (ad_thumbnailer sample_admin))"
    by (simp add: sample_admin_def sample_thumbnailer_def wf_BackoffAdjuster)
  moreover have "0 \<le> num_active (ad_inactivity sample_admin)" by (simp add: sample_admin_def)
  moreover have "Clear_action ''clear'' sample_cmdline = Inr 2"
    by (simp add: Clear_action_def checked_def sample_cmdline_def index_of_valid)
  ultimately obtain a' where "Clear_run sample_env ''clear'' 2 sample_admin = (Inr (), a')"
      "\<forall>c. contents (\<lambda>w. map_of (snd w)) c (ad_thumbnailer a') =
        (if named sample_cmdline c then (\<lambda>_. None) else contents (\<lambda>w. map_of (snd w)) c (ad_thumbnailer sample_admin))"
    using admin_clear_command by blast
  moreover have "named sample_cmdline Thumbs" by (simp add: named_def sample_cmdline_def)
  ultimately show ?thesis by metis
qed

end
