(* ===== verification/Admin_Program.thy ===== *)
theory Admin_Program
  imports Admin_Tool Qt_Client
begin

text \<open>
  The program \<open>thumbnailer-admin\<close> as a whole (\<open>src/thumbnailer-admin/thumbnailer-admin.cpp\<close> and the \<open>run\<close> methods): the table of
  commands, their dispatch, the calls of the service, and the exit status. The state is the service, the files and what was printed.
  The service's answers to thumbnail calls are an argument, as they are made by other processes.
\<close>

section \<open>Commands\<close>

datatype action = Act_ShowStats | Act_Clear | Act_GetLocal | Act_GetRemote | Act_Shutdown

definition valid_actions :: "(string \<times> action) list" where
  "valid_actions =
     [(''stats'', Act_ShowStats), (''zero-stats'', Act_Clear), (''get'', Act_GetLocal), (''get-artist'', Act_GetRemote),
      (''get-album'', Act_GetRemote), (''clear'', Act_Clear), (''compact'', Act_Clear), (''shutdown'', Act_Shutdown)]"

definition command_description :: "(string \<times> string) list" where
  "command_description =
     [(''stats'', ''Show statistics''), (''zero-stats'', ''Zero statistics counters''), (''get'', ''Get thumbnail from local file''),
      (''get-artist'', ''Get artist thumbnail''), (''get-album'', ''Get album thumbnail''), (''clear'', ''Clear caches''),
      (''compact'', ''Compact caches''), (''shutdown'', ''Shut down thumbnailer service'')]"

text \<open>\<open>order\<close> is the order of the table, which is sorted by the addresses of its keys.\<close>

definition command_summary :: "string list \<Rightarrow> string" where
  "command_summary order =
     ''Commands:'' @ [CHR 0x0A] @
     concat (map (\<lambda>c. ''  '' @ c @ replicate (11 - length c) (CHR '' '') @ '' '' @
                       (case map_of command_description c of None \<Rightarrow> [] | Some d \<Rightarrow> d) @ [CHR 0x0A]) order)"

record ('p, 'l, 'w) tool_env =
  te_service :: "('p, 'l, 'w) env"
  te_reply :: "dbus_call \<Rightarrow> string + string"
  te_no_reply :: string
  te_fs :: fs_calls
  te_is_absolute :: "string \<Rightarrow> bool"
  te_canonical :: "string \<Rightarrow> string result"
  te_getcwd :: "string + string"
  te_stem :: "string \<Rightarrow> string"
  te_show_one :: "bool \<Rightarrow> svc_cache_stats \<Rightarrow> string result"
  te_policy_code :: "discard_policy \<Rightarrow> 32 word"
  te_order :: "string list"

record 'w tool =
  tl_admin :: "'w admin"
  tl_files :: "string \<rightharpoonup> string"
  tl_stdout :: string

text \<open>What a command ends with: an exception nobody catches, a text that was thrown, or success.\<close>

type_synonym outcome = "(string + unit) result"

section \<open>Running a command\<close>

text \<open>
  A call of the administration object. The error reply the service sent last is thrown by the tool; when the service
  dies of an exception, the bus answers instead.
\<close>

definition admin_call :: "string \<Rightarrow> ('w admin, 'a) act \<Rightarrow> 'w admin \<Rightarrow> (string + 'a) \<times> 'w admin" where
  "admin_call no_reply f a =
     (case f a of
        (Inl e, a1) \<Rightarrow> (Inl no_reply, a1)
      | (Inr x, a1) \<Rightarrow> (if length (ad_errors a1) > length (ad_errors a) then Inl (snd (last (ad_errors a1))) else Inr x, a1))"

definition run_clear :: "('p, 'l, 'w) tool_env \<Rightarrow> string \<Rightarrow> int \<Rightarrow> 'w tool \<Rightarrow> outcome \<times> 'w tool" where
  "run_clear T command cache_id t =
     (case admin_call (te_no_reply T) (Clear_run (te_service T) command cache_id) (tl_admin t) of
        (r, a) \<Rightarrow> (Inr r, t\<lparr>tl_admin := a\<rparr>))"

definition run_shutdown :: "('p, 'l, 'w) tool_env \<Rightarrow> 'w tool \<Rightarrow> outcome \<times> 'w tool" where
  "run_shutdown T t =
     (case admin_call (te_no_reply T) Shutdown (tl_admin t) of (r, a) \<Rightarrow> (Inr r, t\<lparr>tl_admin := a\<rparr>))"

text \<open>The statistics travel over D-Bus; a failed conversion of a histogram label is undefined behaviour, kept as an exception.\<close>

definition run_stats :: "('p, 'l, 'w) tool_env \<Rightarrow> show_flags \<Rightarrow> 'w tool \<Rightarrow> outcome \<times> 'w tool" where
  "run_stats T f t =
     (case admin_call (te_no_reply T) (Stats (te_policy_code T) (te_service T)) (tl_admin t) of
        (Inl msg, a) \<Rightarrow> (Inr (Inl msg), t\<lparr>tl_admin := a\<rparr>)
      | (Inr st, a) \<Rightarrow>
          (let t1 = t\<lparr>tl_admin := a\<rparr>
           in case demarshal_all (marshal_all st) of
                None \<Rightarrow> (Inr (Inl (te_no_reply T)), t1)
              | Some st' \<Rightarrow>
                  (case ShowStats_run (te_show_one T (show_histogram_flag f)) f st' of
                     Inl e \<Rightarrow> (Inl e, t1)
                   | Inr text_out \<Rightarrow> (Inr (Inr ()), t1\<lparr>tl_stdout := tl_stdout t1 @ text_out\<rparr>))))"

definition png_of :: "('p, 'l, 'w) tool_env \<Rightarrow> string \<Rightarrow> string result" where
  "png_of T = to_png (gdk_of (te_service T)) (qscale_of (te_service T)) (exif_lib (te_service T))"

definition run_get_local :: "('p, 'l, 'w) tool_env \<Rightarrow> get_action \<Rightarrow> 'w tool \<Rightarrow> outcome \<times> 'w tool" where
  "run_get_local T ga t =
     (case save_thumbnail ''GetLocalThumbnail'' (png_of T) (te_stem T) (te_fs T) (ga_input ga ! 0) ga
             (te_reply T (GetThumbnail_call (ga_input ga ! 0) (ga_size ga))) (tl_files t) of
        (r, fs) \<Rightarrow> (r, t\<lparr>tl_files := fs\<rparr>))"

definition run_get_remote :: "('p, 'l, 'w) tool_env \<Rightarrow> string \<Rightarrow> get_action \<Rightarrow> 'w tool \<Rightarrow> outcome \<times> 'w tool" where
  "run_get_remote T command ga t =
     (let req = (if command = ''get-artist'' then GetArtistArt_call else GetAlbumArt_call)
                  (ga_input ga ! 0) (ga_input ga ! 1) (ga_size ga)
      in case save_thumbnail ''GetRemoteThumbnail'' (png_of T) (te_stem T) (te_fs T) (remote_inpath command (ga_input ga)) ga
                (te_reply T req) (tl_files t) of
           (r, fs) \<Rightarrow> (r, t\<lparr>tl_files := fs\<rparr>))"

text \<open>\<open>p\<close> is what the parser finds once the action has declared its arguments; \<open>args\<close> what it found before.\<close>

definition checked_run :: "string + 'a \<Rightarrow> ('a \<Rightarrow> 'w tool \<Rightarrow> outcome \<times> 'w tool) \<Rightarrow> 'w tool \<Rightarrow> outcome \<times> 'w tool" where
  "checked_run c f t = (case c of Inl msg \<Rightarrow> (Inr (Inl msg), t) | Inr x \<Rightarrow> f x t)"

definition parse_and_execute ::
  "('p, 'l, 'w) tool_env \<Rightarrow> string list \<Rightarrow> cmdline \<Rightarrow> 'w tool \<Rightarrow> outcome \<times> 'w tool" where
  "parse_and_execute T args p t =
     (case args of
        [] \<Rightarrow> (Inr (Inl (help_text p @ [CHR 0x0A] @ command_summary (te_order T))), t)
      | cmd # _ \<Rightarrow>
          (case map_of valid_actions cmd of
             None \<Rightarrow> (Inr (Inl (help_text p @ [CHR 0x0A] @ command_summary (te_order T))), t)
           | Some Act_ShowStats \<Rightarrow> checked_run (ShowStats p) (run_stats T) t
           | Some Act_Clear \<Rightarrow> checked_run (Clear_action cmd p) (run_clear T cmd) t
           | Some Act_GetLocal \<Rightarrow> checked_run (GetLocalThumbnail (te_is_absolute T) (te_canonical T) (te_getcwd T) p) (run_get_local T) t
           | Some Act_GetRemote \<Rightarrow> checked_run (GetRemoteThumbnail (te_getcwd T) p) (run_get_remote T cmd) t
           | Some Act_Shutdown \<Rightarrow> checked_run (Shutdown_action cmd p) (\<lambda>_. run_shutdown T) t))"

text \<open>\<open>main\<close>: exit status 0 on success, 1 when something was thrown; an uncaught failure ends the program without a status.\<close>

definition admin_main :: "('p, 'l, 'w) tool_env \<Rightarrow> string list \<Rightarrow> cmdline \<Rightarrow> 'w tool \<Rightarrow> int result \<times> 'w tool" where
  "admin_main T args p t =
     (case parse_and_execute T args p t of
        (Inl e, t1) \<Rightarrow> (Inl e, t1)
      | (Inr (Inl msg), t1) \<Rightarrow> (Inr 1, t1)
      | (Inr (Inr _), t1) \<Rightarrow> (Inr 0, t1))"

section \<open>Saving a thumbnail\<close>

text \<open>\<open>mkstemp\<close> creates a file that did not exist, under another name than the output.\<close>

definition fresh_temp :: "fs_calls \<Rightarrow> string \<Rightarrow> (string \<rightharpoonup> string) \<Rightarrow> bool" where
  "fresh_temp F path fs \<longleftrightarrow> (\<forall>pattern tmp. fc_mkstemp F pattern = Inr tmp \<longrightarrow> tmp \<noteq> path \<and> fs tmp = None)"

lemma save_thumbnail_success:
  assumes "save_thumbnail name png stem F inpath ga reply fs = (Inr (Inr u), fs')"
    and "fresh_temp F (make_output_path stem inpath (ga_size ga) (ga_output_dir ga)) fs"
  shows "\<exists>bytes data. reply = Inr bytes \<and> png bytes = Inr data \<and>
           fs' = fs(make_output_path stem inpath (ga_size ga) (ga_output_dir ga) \<mapsto> data)"
proof -
  obtain bytes data fs1 where *: "reply = Inr bytes" "png bytes = Inr data"
      "write_file F (make_output_path stem inpath (ga_size ga) (ga_output_dir ga)) data fs = (Inr (), fs1)" "fs' = fs1"
    using assms(1) by (auto simp: save_thumbnail_def Let_def split: sum.splits prod.splits if_splits)
  from write_file_replaces [OF _ *(3)] assms(2) * show ?thesis by (auto simp: fresh_temp_def)
qed

lemma GetLocalThumbnail_accepts:
  assumes "GetLocalThumbnail is_abs canonical getcwd p = Inr ga"
  shows "ga_output_dir ga \<noteq> [] \<and> (\<exists>input. ga_input ga = [input] \<and>
           (is_abs (positional p ! 1) \<longrightarrow> input = positional p ! 1)) \<and> isValid (ga_size ga)"
  using assms
  by (auto simp: GetLocalThumbnail_def checked_def chosen_size_def Let_def isValid_def
      split: if_splits sum.splits option.splits)

text \<open>
  C33. The command \<open>get\<close> end to end: exit status 0 means that exactly one file was changed, the one in the output directory
  named after the input and the size, and that it holds the service's reply as PNG; nothing else in the file
  system is touched, and the service's caches and the standard output stay as they were.
\<close>

theorem admin_get_saves_reply:
  assumes "admin_main T (''get'' # args) p t = (Inr 0, t')"
    and "GetLocalThumbnail (te_is_absolute T) (te_canonical T) (te_getcwd T) p = Inr ga"
    and "fresh_temp (te_fs T) (make_output_path (te_stem T) (ga_input ga ! 0) (ga_size ga) (ga_output_dir ga)) (tl_files t)"
  shows "\<exists>bytes data. te_reply T (GetThumbnail_call (ga_input ga ! 0) (ga_size ga)) = Inr bytes \<and> png_of T bytes = Inr data \<and>
           t' = t\<lparr>tl_files := (tl_files t)(make_output_path (te_stem T) (ga_input ga ! 0) (ga_size ga) (ga_output_dir ga) \<mapsto> data)\<rparr>"
proof -
  have "run_get_local T ga t = (Inr (Inr ()), t')"
    using assms(1,2)
    by (auto simp: admin_main_def parse_and_execute_def valid_actions_def checked_run_def split: prod.splits sum.splits)
  then obtain fs where "save_thumbnail ''GetLocalThumbnail'' (png_of T) (te_stem T) (te_fs T) (ga_input ga ! 0) ga
      (te_reply T (GetThumbnail_call (ga_input ga ! 0) (ga_size ga))) (tl_files t) = (Inr (Inr ()), fs)" "t' = t\<lparr>tl_files := fs\<rparr>"
    by (auto simp: run_get_local_def split: prod.splits)
  with save_thumbnail_success [OF this(1) assms(3)] show ?thesis by auto
qed

text \<open>
  An unknown or missing command, and arguments an action refuses, end with status 1 and change nothing: neither the
  service nor the files nor the output.
\<close>

definition refused :: "('p, 'l, 'w) tool_env \<Rightarrow> string list \<Rightarrow> cmdline \<Rightarrow> bool" where
  "refused T args p \<longleftrightarrow>
     (case args of
        [] \<Rightarrow> True
      | cmd # _ \<Rightarrow>
          (case map_of valid_actions cmd of
             None \<Rightarrow> True
           | Some Act_ShowStats \<Rightarrow> isl (ShowStats p)
           | Some Act_Clear \<Rightarrow> isl (Clear_action cmd p)
           | Some Act_GetLocal \<Rightarrow> isl (GetLocalThumbnail (te_is_absolute T) (te_canonical T) (te_getcwd T) p)
           | Some Act_GetRemote \<Rightarrow> isl (GetRemoteThumbnail (te_getcwd T) p)
           | Some Act_Shutdown \<Rightarrow> isl (Shutdown_action cmd p)))"

theorem refused_command_changes_nothing:
  assumes "refused T args p"
  shows "admin_main T args p t = (Inr 1, t)"
  using assms
  by (auto simp: refused_def admin_main_def parse_and_execute_def checked_run_def isl_def
      split: list.splits option.splits action.splits)

section \<open>Samples\<close>

definition sample_tool_env :: "(raw_pixbuf, size_callback \<times> string, mem) tool_env" where
  "sample_tool_env =
     \<lparr>te_service = sample_env, te_reply = (\<lambda>_. Inr (map char_of png_magic @ ''data'')), te_no_reply = ''no reply'',
      te_fs = \<lparr>fc_parent = (\<lambda>_. ''/d''), fc_mkstemp = (\<lambda>p. Inr ''/d/tmp''), fc_write = (\<lambda>b. Inr (length b)),
               fc_rename = (\<lambda>_ _. None), fc_strerror = (\<lambda>_. (0, []))\<rparr>,
      te_is_absolute = (\<lambda>_. True), te_canonical = Inr, te_getcwd = Inr ''/d'', te_stem = (\<lambda>_. ''a''),
      te_show_one = (\<lambda>_ _. Inr []), te_policy_code = (\<lambda>_. 0), te_order = map fst valid_actions\<rparr>"

definition sample_get :: cmdline where
  "sample_get = \<lparr>positional = [''get'', ''/m/a.jpg''], parse_ok = True, error_text = [], help_text = ''usage'', help_set = False,
     size_value = Some ''32x48'', verbose_set = False\<rparr>"

definition sample_tool :: "mem tool" where
  "sample_tool = \<lparr>tl_admin = sample_admin, tl_files = Map.empty, tl_stdout = []\<rparr>"

definition sample_get_action :: get_action where
  "sample_get_action = \<lparr>ga_input = [''/m/a.jpg''], ga_output_dir = ''/d'', ga_size = QSize 32 48\<rparr>"

lemma sample_get_accepted:
  "GetLocalThumbnail (te_is_absolute sample_tool_env) (te_canonical sample_tool_env) (te_getcwd sample_tool_env) sample_get =
     Inr sample_get_action"
proof -
  have "parse_size ''32x48'' = QSize 32 48" "isValid (QSize 32 48)" by code_simp+
  then show ?thesis
    by (simp add: GetLocalThumbnail_def checked_def sample_get_def sample_tool_env_def sample_get_action_def current_directory_def
        chosen_size_def)
qed

theorem admin_get_saves_reply_witness:
  "tl_files (snd (admin_main sample_tool_env [''get'', ''/m/a.jpg''] sample_get sample_tool)) =
     [''/d/a_32x48.png'' \<mapsto> map char_of png_magic @ ''data'']"
proof -
  have path: "make_output_path (te_stem sample_tool_env) (ga_input sample_get_action ! 0) (ga_size sample_get_action)
      (ga_output_dir sample_get_action) = ''/d/a_32x48.png''"
  proof -
    have "int_to_string 32 = ''32''" "int_to_string 48 = ''48''" by code_simp+
    then show ?thesis by (simp add: make_output_path_def sample_tool_env_def sample_get_action_def)
  qed
  have "fst (admin_main sample_tool_env [''get'', ''/m/a.jpg''] sample_get sample_tool) = Inr 0"
    unfolding admin_main_def parse_and_execute_def
    by (simp add: valid_actions_def checked_run_def sample_get_accepted run_get_local_def save_thumbnail_def path)
       (simp add: sample_tool_env_def png_of_def to_png_def png_magic_def write_file_def Let_def)
  then obtain t' where t': "admin_main sample_tool_env [''get'', ''/m/a.jpg''] sample_get sample_tool = (Inr 0, t')"
    by (metis prod.collapse)
  have "fresh_temp (te_fs sample_tool_env) ''/d/a_32x48.png'' (tl_files sample_tool)"
    by (simp add: fresh_temp_def sample_tool_env_def sample_tool_def)
  then obtain bytes data where *: "te_reply sample_tool_env (GetThumbnail_call (ga_input sample_get_action ! 0) (ga_size sample_get_action)) = Inr bytes"
      "png_of sample_tool_env bytes = Inr data" "tl_files t' = [''/d/a_32x48.png'' \<mapsto> data]"
    using admin_get_saves_reply [OF t' sample_get_accepted] by (auto simp: path sample_tool_def)
  from *(1,2) have "data = map char_of png_magic @ ''data''"
    by (auto simp: sample_tool_env_def png_of_def to_png_def png_magic_def)
  with *(3) t' show ?thesis by simp
qed

theorem refused_command_changes_nothing_witness:
  "admin_main sample_tool_env [''erase''] sample_get sample_tool = (Inr 1, sample_tool)"
  by (rule refused_command_changes_nothing) (simp add: refused_def valid_actions_def)

end
