(* ===== verification/Video_Extractor.thy ===== *)
theory Video_Extractor
  imports Image_Model
begin

text \<open>
  The helper program \<open>vs-thumb\<close> (\<open>src/vs-thumb/thumbnailextractor.cpp\<close>, \<open>src/vs-thumb/vs-thumb.cpp\<close>) that reads cover art or a
  still frame from a media file with GStreamer and writes it to a file descriptor for the service's \<open>ImageExtractor\<close>.
  GStreamer and GdkPixbuf are parameters: a record of what their calls return, with pixel buffers of type \<open>'p\<close>. Messages
  of the GStreamer bus and results of \<open>write\<close> are lists, consumed call by call.
\<close>

section \<open>Libraries\<close>

datatype tag_image_type = Tag_undefined | Tag_front_cover | Tag_other

record gst_sample =
  sm_type :: "tag_image_type option"
  sm_bytes :: string
  sm_caps :: "(int \<times> int) option"

datatype state_return = No_preroll | Change_success | Change_async | Change_failure

text \<open>A message of type \<open>ASYNC_DONE\<close>, from the element itself or another one, or an error with its text.\<close>

datatype bus_message = Async_done bool | Bus_error string

text \<open>What \<open>gst_element_set_state\<close> returned and, for the asynchronous case, the messages on the bus.\<close>

type_synonym gst_change = "state_return \<times> bus_message option list"

record 'p gst =
  mk_playbin :: bool
  mk_audio_sink :: bool
  mk_video_sink :: bool
  reset_change :: gst_change
  paused_change :: gst_change
  final_change :: gst_change
  query_duration :: "int option"
  n_video :: int
  audio_tags :: "(gst_sample list \<times> gst_sample list) option"
  convert_sample :: "int \<Rightarrow> gst_sample option"
  orientation_tag :: "string option"
  pixbuf_from_data :: "string \<Rightarrow> int \<Rightarrow> int \<Rightarrow> int \<Rightarrow> 'p"
  pixbuf_rotate :: "rotation \<Rightarrow> 'p \<Rightarrow> 'p option"
  pixbuf_decode :: "string \<Rightarrow> string + 'p option"
  tiff_chunks :: "'p \<Rightarrow> string list"

text \<open>A \<open>QUrl\<close> as the program looks at it; \<open>u_fd\<close> is \<open>path().toInt()\<close>.\<close>

record url_view =
  u_text :: string
  u_valid :: bool
  u_scheme :: string
  u_path :: string
  u_local_file :: string
  u_fd :: "int option"

record 'p extractor_state =
  vs_duration :: int
  vs_in :: url_view
  vs_out :: url_view
  vs_sample :: "gst_sample option"
  vs_still_frame :: "'p option"
  vs_written :: string

definition gst_error :: "url_view \<Rightarrow> string \<Rightarrow> string option \<Rightarrow> exn" where
  "gst_error in_url msg error =
     Runtime_error (''ThumbnailExtractor: '' @ msg @ '', url: '' @ u_text in_url @ (case error of None \<Rightarrow> [] | Some e \<Rightarrow> '': '' @ e))"

section \<open>Cover art\<close>

datatype image_type = Cover | Other_image

record cover_image =
  ci_type :: image_type
  ci_sample :: "gst_sample option"

definition sample_type :: "gst_sample \<Rightarrow> tag_image_type" where
  "sample_type s = (case sm_type s of None \<Rightarrow> Tag_undefined | Some t \<Rightarrow> t)"

text \<open>The loop of \<open>find_cover\<close>, on the samples of a tag in their order.\<close>

fun find_cover_loop :: "gst_sample list \<Rightarrow> cover_image \<Rightarrow> cover_image" where
  "find_cover_loop [] ci = ci"
| "find_cover_loop (s # ss) ci =
     (if sample_type s = Tag_front_cover then ci\<lparr>ci_sample := Some s, ci_type := Cover\<rparr>
      else if sample_type s = Tag_undefined \<and> ci_sample ci = None then find_cover_loop ss (ci\<lparr>ci_sample := Some s\<rparr>)
      else find_cover_loop ss ci)"

definition find_cover :: "gst_sample list \<Rightarrow> cover_image" where
  "find_cover ss = find_cover_loop ss \<lparr>ci_type = Other_image, ci_sample = None\<rparr>"

definition extract_cover_art :: "'p gst \<Rightarrow> 'p extractor_state \<Rightarrow> bool \<times> 'p extractor_state" where
  "extract_cover_art G x =
     (case audio_tags G of
        None \<Rightarrow> (False, x)
      | Some (images, previews) \<Rightarrow>
          (let image = find_cover images; preview = find_cover previews
           in if ci_sample image \<noteq> None \<and> ci_type image = Cover then (True, x\<lparr>vs_sample := ci_sample image\<rparr>)
              else if ci_sample preview \<noteq> None \<and> ci_type preview = Cover then (True, x\<lparr>vs_sample := ci_sample preview\<rparr>)
              else if ci_sample image \<noteq> None then (True, x\<lparr>vs_sample := ci_sample image\<rparr>)
              else (ci_sample preview \<noteq> None, x\<lparr>vs_sample := ci_sample preview\<rparr>)))"

section \<open>Pipeline states\<close>

text \<open>Popping messages until the change is done; \<open>None\<close>: the loop waits for a message for ever.\<close>

fun wait_async :: "url_view \<Rightarrow> bus_message option list \<Rightarrow> unit result option" where
  "wait_async u [] = None"
| "wait_async u (None # ms) = Some (Inr ())"
| "wait_async u (Some (Async_done own) # ms) = (if own then Some (Inr ()) else wait_async u ms)"
| "wait_async u (Some (Bus_error e) # ms) = Some (Inl (gst_error u ''change_state(): reading async messages'' (Some e)))"

definition change_state :: "url_view \<Rightarrow> gst_change \<Rightarrow> unit result option" where
  "change_state u c =
     (case fst c of
        No_preroll \<Rightarrow> Some (Inr ())
      | Change_success \<Rightarrow> Some (Inr ())
      | Change_async \<Rightarrow> wait_async u (snd c)
      | Change_failure \<Rightarrow> Some (Inl (gst_error u ''change_state(): Could not change element state'' None)))"

definition no_url :: url_view where
  "no_url = \<lparr>u_text = [], u_valid = False, u_scheme = [], u_path = [], u_local_file = [], u_fd = None\<rparr>"

definition ThumbnailExtractor :: "'p gst \<Rightarrow> 'p extractor_state result" where
  "ThumbnailExtractor G =
     (if \<not> mk_playbin G then Inl (gst_error no_url ''ThumbnailExtractor(): Could not create playbin'' None)
      else if \<not> mk_audio_sink G then Inl (gst_error no_url ''ThumbnailExtractor(): Could not create audio sink'' None)
      else if \<not> mk_video_sink G then Inl (gst_error no_url ''ThumbnailExtractor(): Could not create video sink'' None)
      else Inr \<lparr>vs_duration = - 1, vs_in = no_url, vs_out = no_url, vs_sample = None, vs_still_frame = None, vs_written = []\<rparr>)"

definition reset :: "gst_change \<Rightarrow> 'p extractor_state \<Rightarrow> 'p extractor_state result option" where
  "reset c x =
     (case change_state (vs_in x) c of
        None \<Rightarrow> None
      | Some (Inl e) \<Rightarrow> Some (Inl e)
      | Some (Inr _) \<Rightarrow> Some (Inr (x\<lparr>vs_sample := None, vs_still_frame := None\<rparr>)))"

definition set_urls :: "'p gst \<Rightarrow> url_view \<Rightarrow> url_view \<Rightarrow> 'p extractor_state \<Rightarrow> 'p extractor_state result option" where
  "set_urls G in_url out_url x =
     (case reset (reset_change G) x of
        None \<Rightarrow> None
      | Some (Inl e) \<Rightarrow> Some (Inl e)
      | Some (Inr x1) \<Rightarrow>
          (case change_state in_url (paused_change G) of
             None \<Rightarrow> None
           | Some (Inl e) \<Rightarrow> Some (Inl e)
           | Some (Inr _) \<Rightarrow>
               Some (Inr (x1\<lparr>vs_in := in_url, vs_out := out_url,
                             vs_duration := (case query_duration G of None \<Rightarrow> - 1 | Some d \<Rightarrow> d)\<rparr>))))"

definition has_video :: "'p gst \<Rightarrow> bool" where
  "has_video G \<longleftrightarrow> n_video G > 0"

section \<open>Still frames\<close>

definition GST_SECOND :: int where
  "GST_SECOND = 1000000000"

text \<open>Truncating division of a non-negative number; \<open>2 * duration_\<close> is a \<open>gint64\<close>.\<close>

definition seek_point :: "int \<Rightarrow> int" where
  "seek_point duration = (if duration \<ge> 0 then 2 * duration div 7 else 10 * GST_SECOND)"

definition round_up_4 :: "int \<Rightarrow> int" where
  "round_up_4 n = (n + 3) div 4 * 4"

fun sample_rotation :: "string option \<Rightarrow> rotation" where
  "sample_rotation None = Rotate_none"
| "sample_rotation (Some orientation) =
     (if orientation = ''rotate-90'' then Rotate_clockwise
      else if orientation = ''rotate-180'' then Rotate_upsidedown
      else if orientation = ''rotate-270'' then Rotate_counterclockwise
      else Rotate_none)"

definition rotate_frame :: "'p gst \<Rightarrow> 'p \<Rightarrow> 'p" where
  "rotate_frame G frame =
     (let rot = sample_rotation (orientation_tag G)
      in if rot = Rotate_none then frame
         else case pixbuf_rotate G rot frame of None \<Rightarrow> frame | Some rotated \<Rightarrow> rotated)"

definition extract_video_frame :: "'p gst \<Rightarrow> ('p extractor_state, bool) act" where
  "extract_video_frame G x =
     (case convert_sample G (seek_point (vs_duration x)) of
        None \<Rightarrow> (Inl (gst_error (vs_in x) ''extract_video_frame(): failed to extract still frame'' None), x)
      | Some s \<Rightarrow>
          (let x1 = x\<lparr>vs_sample := Some s\<rparr>
           in case sm_caps s of
                None \<Rightarrow> (Inl (gst_error (vs_in x) ''write_image(): Could not retrieve caps for sample buffer'' None), x1)
              | Some (w, h) \<Rightarrow>
                  if w \<le> 0 \<or> h \<le> 0
                  then (Inl (gst_error (vs_in x) ''write_image(): Could not retrieve image dimensions'' None), x1)
                  else (Inr True,
                        x1\<lparr>vs_still_frame :=
                             Some (rotate_frame G (pixbuf_from_data G (sm_bytes s) w h (round_up_4 (w * 3))))\<rparr>)))"

section \<open>Writing\<close>

text \<open>One result of \<open>write\<close> per call: the number of bytes written, or an error number.\<close>

type_synonym writes = "(int + nat) list"

fun write_chunks :: "(int \<Rightarrow> string) \<Rightarrow> string list \<Rightarrow> writes \<Rightarrow> string option \<times> string" where
  "write_chunks strerr [] ws = (None, [])"
| "write_chunks strerr (c # cs) [] = (Some ''cannot write image data: short write'', [])"
| "write_chunks strerr (c # cs) (w # ws) =
     (case w of
        Inl errno \<Rightarrow> (Some (''cannot write image data: '' @ strerr errno), [])
      | Inr n \<Rightarrow> if n \<noteq> length c then (Some ''cannot write image data: short write'', take n c)
                else (case write_chunks strerr cs ws of (e, out) \<Rightarrow> (e, c @ out)))"

text \<open>\<open>os_open\<close>: error number when the output file cannot be opened.\<close>

definition save_tiff ::
  "'p gst \<Rightarrow> (int \<Rightarrow> string) \<Rightarrow> string \<Rightarrow> 'p \<Rightarrow> writes \<Rightarrow> ('p extractor_state, unit) act" where
  "save_tiff G strerr msg p ws x =
     (case write_chunks strerr (tiff_chunks G p) ws of
        (e, out) \<Rightarrow> ((case e of None \<Rightarrow> Inr () | Some m \<Rightarrow> Inl (gst_error (vs_in x) msg (Some m))),
                     x\<lparr>vs_written := vs_written x @ out\<rparr>))"

definition write_sample :: "(int \<Rightarrow> string) \<Rightarrow> int \<Rightarrow> string \<Rightarrow> writes \<Rightarrow> ('p extractor_state, unit) act" where
  "write_sample strerr fd bytes ws x =
     (let failed = (\<lambda>m. Inl (Runtime_error (''write_image(): cannot write to file descriptor '' @ int_to_string fd @ '': '' @ m)))
      in case ws of
           [] \<Rightarrow> (failed ''short write'', x)
         | Inl errno # _ \<Rightarrow> (failed (strerr errno), x)
         | Inr n # _ \<Rightarrow> if n \<noteq> length bytes then (failed ''short write'', x\<lparr>vs_written := vs_written x @ take n bytes\<rparr>)
                       else (Inr (), x\<lparr>vs_written := vs_written x @ bytes\<rparr>))"

definition write_image ::
  "'p gst \<Rightarrow> (int \<Rightarrow> string) \<Rightarrow> int option \<Rightarrow> writes \<Rightarrow> ('p extractor_state, unit) act" where
  "write_image G strerr os_open ws x =
     (let out = vs_out x; to_fd = (u_scheme out = ''fd'')
      in if vs_still_frame x = None \<and> vs_sample x = None then (Inl (Assertion ''still_frame_ || sample_''), x)
         else case (if to_fd then None else os_open) of
           Some errno \<Rightarrow> (Inl (Runtime_error (''write_image(): cannot open '' @ u_local_file out @ '': '' @ strerr errno)), x)
         | None \<Rightarrow>
             (case vs_still_frame x of
                Some p \<Rightarrow> save_tiff G strerr ''write_image(): cannot write image'' p ws x
              | None \<Rightarrow>
                  (case vs_sample x of
                     None \<Rightarrow> (Inl (Assertion ''still_frame_ || sample_''), x)
                   | Some s \<Rightarrow>
                       if to_fd then write_sample strerr (case u_fd out of None \<Rightarrow> 0 | Some fd \<Rightarrow> fd) (sm_bytes s) ws x
                       else (case pixbuf_decode G (sm_bytes s) of
                               Inl e \<Rightarrow> (Inl (gst_error (vs_in x) ''write_image(): decoding image'' (Some e)), x)
                             | Inr None \<Rightarrow> (Inl (gst_error (vs_in x) (''write_image(): cannot write image to '' @ u_local_file out) None), x)
                             | Inr (Some p) \<Rightarrow>
                                 save_tiff G strerr (''write_image(): cannot write image to '' @ u_local_file out) p ws x))))"

section \<open>The program\<close>

definition extract_image :: "'p gst \<Rightarrow> (int \<Rightarrow> string) \<Rightarrow> int option \<Rightarrow> writes \<Rightarrow> ('p extractor_state, unit) act" where
  "extract_image G strerr os_open ws x =
     (case extract_cover_art G x of
        (True, x1) \<Rightarrow> write_image G strerr os_open ws x1
      | (False, x1) \<Rightarrow>
          if \<not> has_video G then (Inl (Assertion ''extractor.has_video()''), x1)
          else (case extract_video_frame G x1 of
                  (Inl e, x2) \<Rightarrow> (Inl e, x2)
                | (Inr _, x2) \<Rightarrow> write_image G strerr os_open ws x2))"

text \<open>
  The destructor resets the pipeline once more, also while an exception is propagated. It is implicitly \<open>noexcept\<close>: a
  failure there terminates the program. A failed assertion ends the program before.
\<close>

definition destroy_extractor :: "'p gst \<Rightarrow> 'p extractor_state \<Rightarrow> unit result \<Rightarrow> (unit result \<times> string) option" where
  "destroy_extractor G x r =
     (if (case r of Inl e \<Rightarrow> \<not> catchable e | Inr _ \<Rightarrow> False) then Some (r, vs_written x)
      else case reset (final_change G) x of
             None \<Rightarrow> None
           | Some (Inl _) \<Rightarrow> Some (Inl Abort, vs_written x)
           | Some (Inr _) \<Rightarrow> Some (r, vs_written x))"

definition extract_thumbnail ::
  "'p gst \<Rightarrow> (int \<Rightarrow> string) \<Rightarrow> int option \<Rightarrow> writes \<Rightarrow> url_view \<Rightarrow> url_view \<Rightarrow> (unit result \<times> string) option" where
  "extract_thumbnail G strerr os_open ws in_url out_url =
     (case ThumbnailExtractor G of
        Inl e \<Rightarrow> Some (Inl e, [])
      | Inr x0 \<Rightarrow>
          (case set_urls G in_url out_url x0 of
             None \<Rightarrow> None
           | Some (Inl e) \<Rightarrow> destroy_extractor G x0 (Inl e)
           | Some (Inr x1) \<Rightarrow>
               (case extract_image G strerr os_open ws x1 of (r, x2) \<Rightarrow> destroy_extractor G x2 r)))"

text \<open>\<open>lower\<close> is case folding, for the comparison of the extension.\<close>

definition vs_thumb_main ::
  "'p gst \<Rightarrow> (int \<Rightarrow> string) \<Rightarrow> int option \<Rightarrow> writes \<Rightarrow> (string \<Rightarrow> string) \<Rightarrow> url_view list \<Rightarrow> (int result \<times> string) option" where
  "vs_thumb_main G strerr os_open ws lower urls =
     (case urls of
        [in_url, out_url] \<Rightarrow>
          if \<not> u_valid in_url \<or> \<not> u_valid out_url \<or> u_scheme in_url \<noteq> ''file'' \<or>
             (u_scheme out_url \<noteq> ''file'' \<and> u_scheme out_url \<noteq> ''fd'') \<or>
             (u_scheme out_url = ''file'' \<and> \<not> ends_with ''.tiff'' (lower (u_path out_url))) \<or>
             (u_scheme out_url = ''fd'' \<and> u_fd out_url = None)
          then Some (Inr 2, [])
          else (case extract_thumbnail G strerr os_open ws in_url out_url of
                  None \<Rightarrow> None
                | Some (Inr _, out) \<Rightarrow> Some (Inr 0, out)
                | Some (Inl e, out) \<Rightarrow> Some (if catchable e then Inr 2 else Inl e, out))
      | _ \<Rightarrow> Some (Inr 1, []))"

section \<open>Which picture is chosen\<close>

text \<open>The specification: front covers come first, then pictures without a type; full pictures before previews.\<close>

definition cover_candidates :: "gst_sample list \<Rightarrow> gst_sample list \<Rightarrow> gst_sample list" where
  "cover_candidates images previews =
     filter (\<lambda>s. sample_type s = Tag_front_cover) images @ filter (\<lambda>s. sample_type s = Tag_front_cover) previews @
     filter (\<lambda>s. sample_type s = Tag_undefined) images @ filter (\<lambda>s. sample_type s = Tag_undefined) previews"

lemma find_cover_loop_spec:
  "find_cover_loop ss ci =
     (case filter (\<lambda>s. sample_type s = Tag_front_cover) ss of
        s # _ \<Rightarrow> ci\<lparr>ci_sample := Some s, ci_type := Cover\<rparr>
      | [] \<Rightarrow> (case ci_sample ci of
                 Some _ \<Rightarrow> ci
               | None \<Rightarrow> (case filter (\<lambda>s. sample_type s = Tag_undefined) ss of
                            s # _ \<Rightarrow> ci\<lparr>ci_sample := Some s\<rparr>
                          | [] \<Rightarrow> ci)))"
  by (induction ss arbitrary: ci) (auto split: list.splits option.splits)

lemma extract_cover_art_spec:
  "extract_cover_art G x =
     (case audio_tags G of
        None \<Rightarrow> (False, x)
      | Some (images, previews) \<Rightarrow>
          (case cover_candidates images previews of
             [] \<Rightarrow> (False, x\<lparr>vs_sample := None\<rparr>)
           | s # _ \<Rightarrow> (True, x\<lparr>vs_sample := Some s\<rparr>)))"
  unfolding extract_cover_art_def find_cover_def find_cover_loop_spec cover_candidates_def Let_def
  by (auto split: option.splits list.splits)


section \<open>What is written\<close>

lemma write_chunks_complete: "write_chunks strerr cs ws = (None, out) \<Longrightarrow> out = concat cs"
  by (induction cs arbitrary: ws out; case_tac ws) (auto split: sum.splits if_splits prod.splits)

lemma save_tiff_complete:
  "save_tiff G strerr msg p ws x = (Inr u, x') \<Longrightarrow> vs_written x' = vs_written x @ concat (tiff_chunks G p)"
  by (auto simp: save_tiff_def split: prod.splits option.splits dest: write_chunks_complete)

lemma write_sample_complete:
  "write_sample strerr fd bytes ws x = (Inr u, x') \<Longrightarrow> vs_written x' = vs_written x @ bytes"
  by (auto simp: write_sample_def Let_def split: list.splits sum.splits if_splits)

text \<open>The bytes a picture is sent as: to a descriptor as they are, to a file converted to TIFF.\<close>

definition sample_output :: "'p gst \<Rightarrow> url_view \<Rightarrow> gst_sample \<Rightarrow> string \<Rightarrow> bool" where
  "sample_output G out s bytes \<longleftrightarrow>
     (if u_scheme out = ''fd'' then bytes = sm_bytes s
      else \<exists>p. pixbuf_decode G (sm_bytes s) = Inr (Some p) \<and> bytes = concat (tiff_chunks G p))"

lemma write_image_complete:
  assumes "write_image G strerr os_open ws x = (Inr u, x')"
  shows "case vs_still_frame x of
           Some p \<Rightarrow> vs_written x' = vs_written x @ concat (tiff_chunks G p)
         | None \<Rightarrow> \<exists>s bytes. vs_sample x = Some s \<and> vs_written x' = vs_written x @ bytes \<and> sample_output G (vs_out x) s bytes"
  using assms unfolding write_image_def Let_def sample_output_def
  by (auto split: if_splits option.splits sum.splits dest!: save_tiff_complete write_sample_complete)

text \<open>The still frame, taken at the seek point of the query's duration.\<close>

definition frame_at :: "'p gst \<Rightarrow> int \<Rightarrow> 'p option" where
  "frame_at G duration =
     (case convert_sample G (seek_point duration) of
        None \<Rightarrow> None
      | Some s \<Rightarrow> (case sm_caps s of
                     None \<Rightarrow> None
                   | Some (w, h) \<Rightarrow>
                       if w \<le> 0 \<or> h \<le> 0 then None
                       else Some (rotate_frame G (pixbuf_from_data G (sm_bytes s) w h (round_up_4 (w * 3))))))"

lemma extract_video_frame_complete:
  "extract_video_frame G x = (Inr b, x') \<Longrightarrow>
     \<exists>p s. frame_at G (vs_duration x) = Some p \<and> x' = x\<lparr>vs_sample := Some s, vs_still_frame := Some p\<rparr>"
  by (auto simp: extract_video_frame_def frame_at_def Let_def split: option.splits if_splits prod.splits)

definition expected_output :: "'p gst \<Rightarrow> url_view \<Rightarrow> string \<Rightarrow> bool" where
  "expected_output G out bytes \<longleftrightarrow>
     (case (case audio_tags G of None \<Rightarrow> [] | Some (images, previews) \<Rightarrow> cover_candidates images previews) of
        s # _ \<Rightarrow> sample_output G out s bytes
      | [] \<Rightarrow> has_video G \<and>
               (case frame_at G (case query_duration G of None \<Rightarrow> - 1 | Some d \<Rightarrow> d) of
                  None \<Rightarrow> False
                | Some p \<Rightarrow> bytes = concat (tiff_chunks G p)))"

lemma reset_fresh:
  "reset c x = Some (Inr x') \<Longrightarrow> x' = x\<lparr>vs_sample := None, vs_still_frame := None\<rparr>"
  by (auto simp: reset_def split: option.splits sum.splits)

lemma set_urls_fresh:
  assumes "set_urls G i out x = Some (Inr x')"
  shows "x' = x\<lparr>vs_sample := None, vs_still_frame := None, vs_in := i, vs_out := out,
                vs_duration := (case query_duration G of None \<Rightarrow> - 1 | Some d \<Rightarrow> d)\<rparr>"
  using assms by (auto simp: set_urls_def split: option.splits sum.splits dest!: reset_fresh)

lemma extract_image_complete:
  assumes "extract_image G strerr os_open ws x = (Inr u, x')" "vs_still_frame x = None" "vs_written x = []"
    and "vs_duration x = (case query_duration G of None \<Rightarrow> - 1 | Some d \<Rightarrow> d)"
  shows "expected_output G (vs_out x) (vs_written x')"
  using assms unfolding extract_image_def extract_cover_art_spec expected_output_def
  by (auto split: option.splits list.splits prod.splits if_splits sum.splits
      dest!: write_image_complete extract_video_frame_complete)

lemma ThumbnailExtractor_fresh:
  "ThumbnailExtractor G = Inr x \<Longrightarrow> vs_written x = []"
  by (auto simp: ThumbnailExtractor_def split: if_splits)

lemma destroy_extractor_ok:
  "destroy_extractor G x r = Some (Inr u, out) \<Longrightarrow> r = Inr u \<and> out = vs_written x"
  by (auto simp: destroy_extractor_def split: if_splits option.splits sum.splits)

lemma extract_thumbnail_complete:
  assumes "extract_thumbnail G strerr os_open ws i out = Some (Inr u, bytes)"
  shows "expected_output G out bytes"
proof -
  obtain x0 x1 where x: "ThumbnailExtractor G = Inr x0" "set_urls G i out x0 = Some (Inr x1)"
    using assms by (auto simp: extract_thumbnail_def split: sum.splits option.splits dest!: destroy_extractor_ok)
  obtain x2 where "extract_image G strerr os_open ws x1 = (Inr u, x2)" "bytes = vs_written x2"
    using assms x by (auto simp: extract_thumbnail_def split: prod.splits dest!: destroy_extractor_ok)
  then show ?thesis
    using extract_image_complete [of G strerr os_open ws x1 u x2] set_urls_fresh [OF x(2)] ThumbnailExtractor_fresh [OF x(1)]
    by simp
qed

lemma vs_thumb_exit_0:
  assumes "vs_thumb_main G strerr os_open ws lower [in_url, out_url] = Some (Inr 0, bytes)"
  shows "u_scheme in_url = ''file'' \<and> u_scheme out_url \<in> {''file'', ''fd''} \<and> expected_output G out_url bytes"
  using assms extract_thumbnail_complete [of G strerr os_open ws in_url out_url]
  by (auto simp: vs_thumb_main_def split: if_splits option.splits sum.splits prod.splits)

lemma vs_thumb_exit_codes:
  "vs_thumb_main G strerr os_open ws lower [in_url, out_url] = Some (Inr code, bytes) \<Longrightarrow> code \<in> {0, 2}"
  by (auto simp: vs_thumb_main_def split: if_splits option.splits sum.splits prod.splits)

text \<open>
  C19. When \<open>vs-thumb\<close> exits with code 0, everything it has written is one complete picture: the bytes of the first cover-art
  candidate when the output is a file descriptor, its TIFF conversion when it is a file, and the TIFF form of the rotated
  still frame at the seek point when the file has no cover art. Short writes, open failures and decoding errors never end
  with exit code 0.
\<close>

theorem vs_thumb_output_complete:
  assumes "vs_thumb_main G strerr os_open ws lower [in_url, out_url] = Some (Inr 0, bytes)"
  shows "u_scheme in_url = ''file'' \<and> u_scheme out_url \<in> {''file'', ''fd''} \<and> expected_output G out_url bytes"
  by (rule vs_thumb_exit_0 [OF assms])

section \<open>Ending\<close>

text \<open>Messages that end the wait: the end of the bus, an error, or the completion of the element itself.\<close>

fun decides :: "bus_message option \<Rightarrow> bool" where
  "decides None = True"
| "decides (Some (Async_done own)) = own"
| "decides (Some (Bus_error _)) = True"

definition settles :: "gst_change \<Rightarrow> bool" where
  "settles c \<longleftrightarrow> fst c = Change_async \<longrightarrow> list_ex decides (snd c)"

lemma wait_async_returns: "wait_async u ms = None \<longleftrightarrow> \<not> list_ex decides ms"
  by (induction u ms rule: wait_async.induct) auto

lemma change_state_returns: "change_state u c = None \<longleftrightarrow> \<not> settles c"
  by (cases "fst c") (simp_all add: change_state_def settles_def wait_async_returns)

lemma wait_async_runtime_error: "wait_async u ms = Some (Inl e) \<Longrightarrow> catchable e"
  by (induction u ms rule: wait_async.induct) (auto simp: gst_error_def split: if_splits)

lemma change_state_runtime_error: "change_state u c = Some (Inl e) \<Longrightarrow> catchable e"
  by (auto simp: change_state_def gst_error_def split: state_return.splits dest: wait_async_runtime_error)

lemma reset_returns: "reset c x = None \<longleftrightarrow> \<not> settles c"
  using change_state_returns [of "vs_in x" c] by (auto simp: reset_def split: option.splits sum.splits)

lemma set_urls_returns: "settles (reset_change G) \<Longrightarrow> settles (paused_change G) \<Longrightarrow> set_urls G i out x \<noteq> None"
  using reset_returns [of "reset_change G" x] change_state_returns [of i "paused_change G"]
  by (auto simp: set_urls_def split: option.splits sum.splits)

lemma destroy_extractor_returns: "settles (final_change G) \<Longrightarrow> destroy_extractor G x r \<noteq> None"
  using reset_returns [of "final_change G" x]
  by (auto simp: destroy_extractor_def split: option.splits sum.splits)

lemma extract_thumbnail_returns:
  assumes "settles (reset_change G)" "settles (paused_change G)" "settles (final_change G)"
  shows "extract_thumbnail G strerr os_open ws i out \<noteq> None"
  unfolding extract_thumbnail_def
  by (auto simp del: not_None_eq simp: set_urls_returns [OF assms(1,2)] destroy_extractor_returns [OF assms(3)]
      split: sum.split option.split prod.split)

text \<open>A media file without artwork: sinks and state changes work, but there is no usable picture and no video stream.\<close>

definition no_artwork :: "'p gst \<Rightarrow> bool" where
  "no_artwork G \<longleftrightarrow>
     mk_playbin G \<and> mk_audio_sink G \<and> mk_video_sink G \<and> fst (reset_change G) = Change_success \<and>
     fst (paused_change G) = Change_success \<and> \<not> has_video G \<and>
     (case audio_tags G of None \<Rightarrow> True | Some (images, previews) \<Rightarrow> cover_candidates images previews = [])"

lemma no_artwork_asserts:
  assumes "no_artwork G"
  shows "extract_thumbnail G strerr os_open ws i out = Some (Inl (Assertion ''extractor.has_video()''), [])"
  using assms
  by (auto simp: no_artwork_def extract_thumbnail_def ThumbnailExtractor_def set_urls_def reset_def change_state_def
      extract_image_def extract_cover_art_spec destroy_extractor_def split: option.splits)


section \<open>A sample media file\<close>

definition file_url :: "string \<Rightarrow> url_view" where
  "file_url p = \<lparr>u_text = ''file://'' @ p, u_valid = True, u_scheme = ''file'', u_path = p, u_local_file = p, u_fd = None\<rparr>"

definition fd_url :: "int \<Rightarrow> url_view" where
  "fd_url n = \<lparr>u_text = ''fd:'' @ int_to_string n, u_valid = True, u_scheme = ''fd'', u_path = int_to_string n,
               u_local_file = [], u_fd = Some n\<rparr>"

text \<open>A song with a back cover, an untyped picture and a front cover; pixel buffers are strings.\<close>

definition sample_gst :: "string gst" where
  "sample_gst =
     \<lparr>mk_playbin = True, mk_audio_sink = True, mk_video_sink = True,
      reset_change = (Change_success, []), paused_change = (Change_async, [Some (Async_done False), Some (Async_done True)]),
      final_change = (Change_success, []), query_duration = Some 7, n_video = 0,
      audio_tags = Some ([\<lparr>sm_type = Some Tag_other, sm_bytes = ''back'', sm_caps = None\<rparr>,
                          \<lparr>sm_type = None, sm_bytes = ''any'', sm_caps = None\<rparr>],
                         [\<lparr>sm_type = Some Tag_front_cover, sm_bytes = ''front'', sm_caps = None\<rparr>]),
      convert_sample = (\<lambda>_. None), orientation_tag = None, pixbuf_from_data = (\<lambda>d w h stride. d),
      pixbuf_rotate = (\<lambda>r p. Some p), pixbuf_decode = (\<lambda>d. Inr (Some d)), tiff_chunks = (\<lambda>p. [''II'', p])\<rparr>"

lemma sample_vs_thumb_run:
  "vs_thumb_main sample_gst (\<lambda>_. ''error'') None [Inr 5] (\<lambda>s. s) [file_url ''/a.mp3'', fd_url 1] = Some (Inr 0, ''front'')"
  by code_simp

lemma sample_settles:
  "settles (reset_change sample_gst)" "settles (paused_change sample_gst)" "settles (final_change sample_gst)"
  by code_simp+

theorem vs_thumb_output_complete_witness:
  "vs_thumb_main sample_gst (\<lambda>_. ''error'') None [Inr 5] (\<lambda>s. s) [file_url ''/a.mp3'', fd_url 1] = Some (Inr 0, ''front'') \<and>
   expected_output sample_gst (fd_url 1) ''front''"
  using vs_thumb_output_complete [OF sample_vs_thumb_run] sample_vs_thumb_run by blast


end
