(* ===== verification/Video_Buffers.thy ===== *)
theory Video_Buffers
  imports Video_Extractor
begin

text \<open>
  The memory behind the still frame of \<open>vs-thumb\<close> (class \<open>BufferMap\<close> in \<open>src/vs-thumb/thumbnailextractor.h\<close>, and how
  \<open>ThumbnailExtractor\<close> uses its member \<open>buffermap_\<close>), and the program \<open>src/vs-thumb/test-seq.cpp\<close> that uses one extractor for
  several files. The pixels of the frame are those of a mapped \<open>GstBuffer\<close>; freeing the pixbuf unmaps the buffer. \<open>Video_Extractor\<close>
  has the values that are computed, this theory the references and mappings that are taken and given back.
\<close>

section \<open>Buffer maps\<close>

text \<open>A pixbuf with its own pixels, or one over the mapped buffer with the given number, with \<open>unmap_callback\<close>.\<close>

datatype pixels = Own_pixels | Mapped_pixels nat

text \<open>\<open>bm_buffer\<close> and \<open>bm_info\<close> are the members of \<open>buffermap_\<close>: the buffer, and whether \<open>info\<close> describes mapped memory.\<close>

record frame_mem =
  bm_buffer :: "nat option"
  bm_info :: bool
  fm_still_frame :: "pixels option"
  gst_refs :: "nat \<Rightarrow> int"
  gst_maps :: "nat \<Rightarrow> int"

definition BufferMap :: frame_mem where
  "BufferMap = \<lparr>bm_buffer = None, bm_info = False, fm_still_frame = None, gst_refs = (\<lambda>_. 0), gst_maps = (\<lambda>_. 0)\<rparr>"

definition bm_unmap :: "frame_mem \<Rightarrow> frame_mem" where
  "bm_unmap m =
     (case bm_buffer m of
        None \<Rightarrow> m
      | Some b \<Rightarrow>
          m\<lparr>bm_buffer := None, bm_info := False, gst_refs := (gst_refs m)(b := gst_refs m b - 1),
            gst_maps := (if bm_info m then (gst_maps m)(b := gst_maps m b - 1) else gst_maps m)\<rparr>)"

text \<open>\<open>ok\<close>: whether \<open>gst_buffer_map\<close> succeeds; the code does not look at its result.\<close>

definition bm_map :: "nat \<Rightarrow> bool \<Rightarrow> frame_mem \<Rightarrow> frame_mem" where
  "bm_map b ok m0 =
     (let m = bm_unmap m0
      in m\<lparr>bm_buffer := Some b, bm_info := ok, gst_refs := (gst_refs m)(b := gst_refs m b + 1),
           gst_maps := (if ok then (gst_maps m)(b := gst_maps m b + 1) else gst_maps m)\<rparr>)"

text \<open>\<open>data()\<close>: the number of the buffer whose memory the pointer points to, or a null pointer.\<close>

definition bm_data :: "frame_mem \<Rightarrow> nat option result" where
  "bm_data m = (case bm_buffer m of None \<Rightarrow> Inl (Assertion ''buffer'') | Some b \<Rightarrow> Inr (if bm_info m then Some b else None))"

definition bm_size :: "(nat \<Rightarrow> nat) \<Rightarrow> frame_mem \<Rightarrow> nat result" where
  "bm_size buffer_size m =
     (case bm_buffer m of None \<Rightarrow> Inl (Assertion ''buffer'') | Some b \<Rightarrow> Inr (if bm_info m then buffer_size b else 0))"

definition BufferMap_destroy :: "frame_mem \<Rightarrow> frame_mem" where
  "BufferMap_destroy m = bm_unmap m"

section \<open>The still frame\<close>

definition unmap_callback :: "frame_mem \<Rightarrow> frame_mem" where
  "unmap_callback m = bm_unmap m"

text \<open>\<open>still_frame_.reset\<close>: the old pixbuf is freed first, which calls \<open>unmap_callback\<close> for mapped pixels.\<close>

definition still_frame_reset :: "pixels option \<Rightarrow> frame_mem \<Rightarrow> frame_mem" where
  "still_frame_reset p m =
     (let m1 = (case fm_still_frame m of Some (Mapped_pixels b) \<Rightarrow> unmap_callback m | _ \<Rightarrow> m)
      in m1\<lparr>fm_still_frame := p\<rparr>)"

text \<open>Reading the pixels of the still frame: those of a buffer must be mapped.\<close>

definition read_pixels :: "(frame_mem, unit) act" where
  "read_pixels m =
     (case fm_still_frame m of
        Some (Mapped_pixels b) \<Rightarrow> if bm_buffer m = Some b \<and> bm_info m then (Inr (), m) else (Inl (Null_deref ''unmapped pixels''), m)
      | _ \<Rightarrow> (Inr (), m))"

text \<open>
  The memory part of \<open>extract_video_frame\<close>, from \<open>buffermap_.map\<close> on: \<open>b\<close> is the buffer of the sample; \<open>gdk_pixbuf_new_from_data\<close>
  gives no pixbuf for a null pointer; \<open>rot\<close> is \<open>None\<close> if the frame needs no rotation, otherwise whether
  \<open>gdk_pixbuf_rotate_simple\<close> makes a rotated copy.
\<close>

definition map_video_frame :: "nat \<Rightarrow> bool \<Rightarrow> bool option \<Rightarrow> (frame_mem, unit) act" where
  "map_video_frame b ok rot m =
     (let m1 = bm_map b ok m
      in case bm_data m1 of
           Inl e \<Rightarrow> (Inl e, m1)
         | Inr d \<Rightarrow>
             (let m2 = still_frame_reset (case d of None \<Rightarrow> None | Some b' \<Rightarrow> Some (Mapped_pixels b')) m1
              in case rot of
                   None \<Rightarrow> (Inr (), m2)
                 | Some copied \<Rightarrow>
                     (case read_pixels m2 of
                        (Inl e, m3) \<Rightarrow> (Inl e, m3)
                      | (Inr _, m3) \<Rightarrow> (Inr (), if copied \<and> fm_still_frame m3 \<noteq> None then still_frame_reset (Some Own_pixels) m3 else m3))))"

section \<open>Uses of an extractor\<close>

text \<open>
  The calls that touch this memory, with what the libraries do: \<open>set_urls\<close> (did the pipeline reach the null state), \<open>extract_video_frame\<close>
  that reaches the mapping, an exception from any call, \<open>extract_cover_art\<close> (no effect here), and \<open>write_image\<close> (which
  reads the still frame, or maps and unmaps the sample's buffer by a local object).
\<close>

datatype frame_call = Set_urls bool | Video_frame nat bool "bool option" | Cover_art | Write_image nat bool | Throwing

definition write_local :: "nat \<Rightarrow> bool \<Rightarrow> frame_mem \<Rightarrow> frame_mem" where
  "write_local b ok m =
     (let l = bm_map b ok (BufferMap\<lparr>gst_refs := gst_refs m, gst_maps := gst_maps m\<rparr>); l' = BufferMap_destroy l
      in m\<lparr>gst_refs := gst_refs l', gst_maps := gst_maps l'\<rparr>)"

fun use_frame :: "frame_call \<Rightarrow> (frame_mem, unit) act" where
  "use_frame (Set_urls ok) m =
     (if ok then (Inr (), still_frame_reset None m) else (Inl (Runtime_error ''change_state''), m))"
| "use_frame (Video_frame b ok rot) m = map_video_frame b ok rot m"
| "use_frame Cover_art m = (Inr (), m)"
| "use_frame (Write_image b ok) m = (if fm_still_frame m \<noteq> None then read_pixels m else (Inr (), write_local b ok m))"
| "use_frame Throwing m = (Inl (Runtime_error ''throw_error''), m)"

fun frame_calls :: "frame_call list \<Rightarrow> (frame_mem, unit) act" where
  "frame_calls [] m = (Inr (), m)"
| "frame_calls (c # cs) m = (case use_frame c m of (Inl e, m') \<Rightarrow> (Inl e, m') | (Inr _, m') \<Rightarrow> frame_calls cs m')"

text \<open>
  The destructor resets the pipeline (a failure there terminates the program); then the members are destroyed in reverse order, the
  buffer map before the still frame, whose callback must not run any more.
\<close>

definition destroy_members :: "bool \<Rightarrow> frame_mem \<Rightarrow> frame_mem result" where
  "destroy_members ok m =
     (if \<not> ok then Inl Abort
      else let m1 = BufferMap_destroy (still_frame_reset None m)
           in case fm_still_frame m1 of
                Some (Mapped_pixels b) \<Rightarrow> Inl (Null_deref ''buffermap_'')
              | _ \<Rightarrow> Inr (m1\<lparr>fm_still_frame := None\<rparr>))"

text \<open>An exception leaves the block and destroys the extractor, like its normal end; other failures end the program.\<close>

definition extractor_life :: "frame_call list \<Rightarrow> bool \<Rightarrow> frame_mem result" where
  "extractor_life cs ok =
     (case frame_calls cs BufferMap of
        (Inl e, m) \<Rightarrow> (if catchable e then destroy_members ok m else Inl e)
      | (Inr _, m) \<Rightarrow> destroy_members ok m)"

text \<open>Between two still frames there is a \<open>set_urls\<close>, which every program of the repository observes.\<close>

fun one_frame_per_url :: "bool \<Rightarrow> frame_call list \<Rightarrow> bool" where
  "one_frame_per_url fresh [] \<longleftrightarrow> True"
| "one_frame_per_url fresh (Set_urls ok # cs) \<longleftrightarrow> one_frame_per_url True cs"
| "one_frame_per_url fresh (Video_frame b ok rot # cs) \<longleftrightarrow> fresh \<and> one_frame_per_url False cs"
| "one_frame_per_url fresh (c # cs) \<longleftrightarrow> one_frame_per_url fresh cs"

section \<open>Memory safety\<close>

text \<open>
  The invariant: mapped pixels belong to the buffer in \<open>buffermap_\<close>, without a still frame nothing is mapped, and the references and
  mappings taken are those of \<open>buffermap_\<close>.
\<close>

definition frame_inv :: "frame_mem \<Rightarrow> bool" where
  "frame_inv m \<longleftrightarrow>
     (\<forall>b. fm_still_frame m = Some (Mapped_pixels b) \<longrightarrow> bm_buffer m = Some b \<and> bm_info m) \<and>
     (bm_info m \<longrightarrow> bm_buffer m \<noteq> None) \<and>
     gst_refs m = (\<lambda>b. if bm_buffer m = Some b then 1 else 0) \<and>
     gst_maps m = (\<lambda>b. if bm_buffer m = Some b \<and> bm_info m then 1 else 0)"

lemma BufferMap_inv: "frame_inv BufferMap"
  by (simp add: frame_inv_def BufferMap_def)

lemma frame_inv_unmap: "frame_inv m \<Longrightarrow> frame_inv (bm_unmap m\<lparr>fm_still_frame := None\<rparr>) \<and> bm_buffer (bm_unmap m) = None"
  by (auto simp: frame_inv_def bm_unmap_def split: option.splits)

lemma still_frame_reset_inv:
  assumes "frame_inv m"
  shows "frame_inv (still_frame_reset None m)" "frame_inv (still_frame_reset (Some Own_pixels) m)"
    "fm_still_frame (still_frame_reset p m) = p"
  using assms by (auto simp: still_frame_reset_def unmap_callback_def frame_inv_def bm_unmap_def Let_def
      split: option.splits pixels.splits)

lemma bm_map_inv:
  assumes "frame_inv m" and "fm_still_frame m = None"
  shows "frame_inv (bm_map b ok m)" "bm_buffer (bm_map b ok m) = Some b" "bm_info (bm_map b ok m) = ok"
    "fm_still_frame (bm_map b ok m) = None"
  using assms by (auto simp: frame_inv_def bm_map_def bm_unmap_def Let_def fun_eq_iff split: option.splits)

lemma read_pixels_inv: "frame_inv m \<Longrightarrow> read_pixels m = (Inr (), m)"
  by (auto simp: read_pixels_def frame_inv_def split: option.splits pixels.splits)

lemma map_video_frame_inv:
  assumes "frame_inv m" and "fm_still_frame m = None"
  shows "\<exists>m'. map_video_frame b ok rot m = (Inr (), m') \<and> frame_inv m'"
proof -
  note m1 = bm_map_inv [OF assms, of b ok]
  define m2 where "m2 = still_frame_reset (if ok then Some (Mapped_pixels b) else None) (bm_map b ok m)"
  have inv: "frame_inv m2" using m1 by (auto simp: m2_def still_frame_reset_def frame_inv_def)
  have "map_video_frame b ok rot m =
          (Inr (), if rot = Some True \<and> fm_still_frame m2 \<noteq> None then still_frame_reset (Some Own_pixels) m2 else m2)"
    using m1 read_pixels_inv [OF inv]
    by (cases ok; cases rot) (auto simp: map_video_frame_def bm_data_def Let_def m2_def)
  with inv still_frame_reset_inv(2) [OF inv] show ?thesis by auto
qed

lemma write_local_inv: "frame_inv m \<Longrightarrow> frame_inv (write_local b ok m)"
  by (auto simp: write_local_def frame_inv_def bm_map_def bm_unmap_def BufferMap_def BufferMap_destroy_def Let_def fun_eq_iff)

lemma frame_calls_inv:
  assumes "one_frame_per_url fresh cs" and "frame_inv m" and "fresh \<longrightarrow> fm_still_frame m = None"
  shows "\<exists>r m'. frame_calls cs m = (r, m') \<and> frame_inv m' \<and> (case r of Inl e \<Rightarrow> catchable e | Inr _ \<Rightarrow> True)"
  using assms
proof (induction cs arbitrary: fresh m)
  case (Cons c cs)
  show ?case
  proof (cases c)
    case (Set_urls ok)
    with Cons.prems Cons.IH [of True "still_frame_reset None m"] still_frame_reset_inv [OF Cons.prems(2)] show ?thesis by simp
  next
    case (Video_frame b ok rot)
    with Cons.prems map_video_frame_inv [of m b ok rot] obtain m' where "map_video_frame b ok rot m = (Inr (), m')" "frame_inv m'" by auto
    with Video_frame Cons.prems(1) Cons.IH [of False m'] show ?thesis by simp
  next
    case Cover_art
    with Cons show ?thesis by simp
  next
    case (Write_image b ok)
    have "fm_still_frame (write_local b ok m) = fm_still_frame m" by (simp add: write_local_def Let_def)
    with Write_image Cons.prems Cons.IH [of fresh] write_local_inv read_pixels_inv show ?thesis by auto
  next
    case Throwing
    with Cons.prems show ?thesis by simp
  qed
qed simp

lemma destroy_members_inv:
  assumes "frame_inv m"
  shows "destroy_members ok m = (if ok then Inr BufferMap else Inl Abort)"
proof -
  have "frame_inv (still_frame_reset None m)" "fm_still_frame (still_frame_reset None m) = None"
    using still_frame_reset_inv [OF assms] by simp_all
  then have "BufferMap_destroy (still_frame_reset None m) = BufferMap"
    by (cases "still_frame_reset None m") (auto simp: BufferMap_destroy_def bm_unmap_def BufferMap_def frame_inv_def fun_eq_iff split: option.splits)
  then show ?thesis by (simp add: destroy_members_def Let_def BufferMap_def)
qed

text \<open>
  C20. The frame's memory is safe: a program that calls \<open>set_urls\<close> before each still frame, whatever the libraries return and
  wherever an exception is thrown, never reads unmapped pixels, never runs the callback on a destroyed buffer map, and gives
  back every reference and mapping; it can only be terminated by a failing reset in the destructor.
\<close>

theorem frame_memory_safe:
  assumes "one_frame_per_url True cs"
  shows "extractor_life cs ok = (if ok then Inr BufferMap else Inl Abort)"
proof -
  obtain r m where "frame_calls cs BufferMap = (r, m)" "frame_inv m" "case r of Inl e \<Rightarrow> catchable e | Inr _ \<Rightarrow> True"
    using frame_calls_inv [OF assms BufferMap_inv] by (auto simp: BufferMap_def)
  with destroy_members_inv show ?thesis by (auto simp: extractor_life_def split: sum.splits)
qed

theorem frame_memory_safe_witness:
  "extractor_life [Set_urls True, Video_frame 1 True (Some True), Write_image 1 True, Set_urls True, Video_frame 2 True None, Throwing] True =
     Inr BufferMap"
  using frame_memory_safe [of "[Set_urls True, Video_frame 1 True (Some True), Write_image 1 True, Set_urls True, Video_frame 2 True None, Throwing]" True]
  by simp

text \<open>
  Two still frames without \<open>set_urls\<close> between them break the map: freeing the first frame unmaps the buffer of the second, whose
  pixels are then read.
\<close>

lemma second_frame_unmapped:
  "extractor_life [Set_urls True, Video_frame 1 True None, Video_frame 2 True None, Write_image 2 True] True = Inl (Null_deref ''unmapped pixels'')"
  by (simp add: extractor_life_def map_video_frame_def bm_map_def bm_unmap_def bm_data_def still_frame_reset_def unmap_callback_def
      read_pixels_def BufferMap_def)

section \<open>The sequence program\<close>

text \<open>
  \<open>test-seq\<close>: one extractor, one record of library results and one URL per argument. \<open>None\<close>: a pipeline change waits for
  ever. The constructor is called outside the \<open>try\<close> block, and the destructor runs at every \<open>return\<close>.
\<close>

definition dev_null :: url_view where
  "dev_null = no_url\<lparr>u_text := ''/dev/null'', u_valid := True, u_path := ''/dev/null''\<rparr>"

definition extract_from :: "'p gst \<Rightarrow> ('p extractor_state, bool) act" where
  "extract_from G x =
     (if has_video G then extract_video_frame G x else (case extract_cover_art G x of (b, x') \<Rightarrow> (Inr b, x')))"

fun test_seq_loop :: "('p gst \<times> url_view) list \<Rightarrow> 'p extractor_state \<Rightarrow> (int result \<times> 'p extractor_state) option" where
  "test_seq_loop [] x = Some (Inr 0, x)"
| "test_seq_loop ((G, url) # fs) x =
     (if \<not> u_valid url then Some (Inr 1, x)
      else case set_urls G url dev_null x of
             None \<Rightarrow> None
           | Some (Inl e) \<Rightarrow> Some (Inr 1, x)
           | Some (Inr x1) \<Rightarrow>
               (case extract_from G x1 of
                  (Inl e, x2) \<Rightarrow> Some (Inr 1, x2)
                | (Inr success, x2) \<Rightarrow> if success then test_seq_loop fs x2 else Some (Inr 1, x2)))"

definition test_seq_main :: "'p gst \<Rightarrow> ('p gst \<times> url_view) list \<Rightarrow> int result option" where
  "test_seq_main G fs =
     (case ThumbnailExtractor G of
        Inl e \<Rightarrow> Some (Inl Abort)
      | Inr x \<Rightarrow>
          (case test_seq_loop fs x of
             None \<Rightarrow> None
           | Some (Inl e, _) \<Rightarrow> Some (Inl e)
           | Some (Inr code, x') \<Rightarrow>
               (case reset (final_change G) x' of
                  None \<Rightarrow> None
                | Some (Inl _) \<Rightarrow> Some (Inl Abort)
                | Some (Inr _) \<Rightarrow> Some (Inr code))))"

text \<open>A pipeline change that succeeds, and a file that gives a picture.\<close>

definition changes :: "gst_change \<Rightarrow> bool" where
  "changes c \<longleftrightarrow> change_state no_url c = Some (Inr ())"

definition gives_picture :: "'p gst \<Rightarrow> url_view \<Rightarrow> bool" where
  "gives_picture G url \<longleftrightarrow>
     u_valid url \<and> changes (reset_change G) \<and> changes (paused_change G) \<and>
     (if has_video G then frame_at G (case query_duration G of None \<Rightarrow> - 1 | Some d \<Rightarrow> d) \<noteq> None
      else (case audio_tags G of None \<Rightarrow> False | Some (images, previews) \<Rightarrow> cover_candidates images previews \<noteq> []))"

lemma wait_async_changes: "wait_async u ms = Some (Inr ()) \<longleftrightarrow> wait_async v ms = Some (Inr ())"
  by (induction u ms rule: wait_async.induct) auto

lemma change_state_changes: "change_state u c = Some (Inr ()) \<longleftrightarrow> changes c"
  using wait_async_changes [of u "snd c" no_url] by (simp add: changes_def change_state_def split: state_return.splits)

lemma reset_changes: "(\<exists>x'. reset c x = Some (Inr x')) \<longleftrightarrow> changes c"
  by (simp add: reset_def change_state_changes [of "vs_in x", symmetric] split: option.splits sum.splits)

lemma set_urls_changes:
  "(\<exists>x'. set_urls G i out x = Some (Inr x')) \<longleftrightarrow> changes (reset_change G) \<and> changes (paused_change G)"
proof -
  have "(\<exists>x'. set_urls G i out x = Some (Inr x')) \<longleftrightarrow>
          (\<exists>x1. reset (reset_change G) x = Some (Inr x1)) \<and> change_state i (paused_change G) = Some (Inr ())"
    by (auto simp: set_urls_def split: option.splits sum.splits)
  then show ?thesis by (simp add: reset_changes change_state_changes)
qed

lemma extract_from_succeeds:
  "(\<exists>x'. extract_from G x = (Inr True, x')) \<longleftrightarrow>
     (if has_video G then frame_at G (vs_duration x) \<noteq> None
      else (case audio_tags G of None \<Rightarrow> False | Some (images, previews) \<Rightarrow> cover_candidates images previews \<noteq> []))"
  by (auto simp: extract_from_def extract_video_frame_def frame_at_def extract_cover_art_spec Let_def split: option.splits list.splits)

lemma test_seq_loop_succeeds:
  "(\<exists>x'. test_seq_loop fs x = Some (Inr 0, x')) \<longleftrightarrow> (\<forall>(G, url) \<in> set fs. gives_picture G url)"
proof (induction fs arbitrary: x)
  case (Cons f fs)
  obtain G url where f: "f = (G, url)" by (cases f)
  show ?case
  proof (cases "\<exists>x1. set_urls G url dev_null x = Some (Inr x1)")
    case False
    then have "\<not> gives_picture G url" by (auto simp: set_urls_changes gives_picture_def)
    with False f show ?thesis by (auto split: option.splits sum.splits)
  next
    case True
    then obtain x1 where x1: "set_urls G url dev_null x = Some (Inr x1)" by blast
    then have g: "gives_picture G url \<longleftrightarrow> u_valid url \<and> (\<exists>x'. extract_from G x1 = (Inr True, x'))"
      using set_urls_changes [of G url dev_null x] set_urls_fresh [OF x1] by (simp add: extract_from_succeeds gives_picture_def)
    show ?thesis
    proof (cases "\<exists>x'. extract_from G x1 = (Inr True, x')")
      case False
      with g f x1 show ?thesis by (auto split: prod.splits sum.splits if_splits)
    next
      case True
      then obtain x' where "extract_from G x1 = (Inr True, x')" by blast
      with g f x1 Cons.IH [of x'] show ?thesis by simp
    qed
  qed
qed simp

text \<open>
  The sequence program reports success exactly if everything worked: exit code 0 means that the extractor was set up, that every
  argument is a valid URL of a file with a still frame or, without a video stream, with cover art, and that the pipeline could
  be shut down.
\<close>

theorem test_seq_success:
  "test_seq_main G fs = Some (Inr 0) \<longleftrightarrow>
     mk_playbin G \<and> mk_audio_sink G \<and> mk_video_sink G \<and> (\<forall>(G', url) \<in> set fs. gives_picture G' url) \<and> changes (final_change G)"
proof (cases "ThumbnailExtractor G")
  case (Inl e)
  then show ?thesis by (auto simp: test_seq_main_def ThumbnailExtractor_def split: if_splits)
next
  case (Inr x)
  then have mk: "mk_playbin G \<and> mk_audio_sink G \<and> mk_video_sink G" by (auto simp: ThumbnailExtractor_def split: if_splits)
  have "test_seq_main G fs = Some (Inr 0) \<longleftrightarrow>
          (\<exists>x'. test_seq_loop fs x = Some (Inr 0, x') \<and> (\<exists>x2. reset (final_change G) x' = Some (Inr x2)))"
    using Inr by (auto simp: test_seq_main_def split: option.splits sum.splits prod.splits)
  then show ?thesis using mk by (simp add: reset_changes flip: test_seq_loop_succeeds [of fs x])
qed

text \<open>Its calls on one extractor are \<open>set_urls\<close> and one extraction per file, those of \<open>vs-thumb\<close> at most one frame.\<close>

lemma programs_one_frame_per_url:
  "one_frame_per_url fresh (concat (map (\<lambda>(b, ok, rot). [Set_urls True, Video_frame b ok rot]) frames))"
  "one_frame_per_url fresh [Set_urls True, Cover_art, Video_frame b ok rot, Write_image b ok]"
  by (induction frames arbitrary: fresh) auto

theorem test_seq_success_witness:
  "test_seq_main sample_gst [(sample_gst, file_url ''/a.mp3''), (sample_gst, file_url ''/b.mp3'')] = Some (Inr 0)"
  unfolding test_seq_success by code_simp

end
