(* ===== verification/Credentials.thy ===== *)
theory Credentials
  imports Thumb_Prelude "HOL-Library.AList" "HOL-Library.Multiset"
begin

text \<open>
  Class \<open>CredentialsCache\<close> (\<open>src/service/credentialscache.h\<close>, \<open>src/service/credentialscache.cpp\<close>): the user
  id and AppArmor label of each D-Bus peer, asked once from the bus daemon and kept in two generations.
  The maps are association lists with distinct keys; a callback is a value of type \<open>'c\<close>, and calling it
  with credentials is an entry of the list an operation returns. The bus daemon's reply is an argument.
\<close>

section \<open>State\<close>

record credentials =
  cr_valid :: bool
  cr_user :: int
  cr_label :: string

definition no_credentials :: credentials where
  "no_credentials = \<lparr>cr_valid = False, cr_user = 0, cr_label = []\<rparr>"

record 'c creds_cache =
  apparmor_enabled :: bool
  cur_cache :: "(string \<times> credentials) list"
  old_cache :: "(string \<times> credentials) list"
  pending :: "(string \<times> 'c list) list"
  bus_queries :: "string list"

definition MAX_CACHE_SIZE :: nat where
  "MAX_CACHE_SIZE = 50"

definition CredentialsCache :: "bool \<Rightarrow> 'c creds_cache" where
  "CredentialsCache aa_enabled =
     \<lparr>apparmor_enabled = aa_enabled, cur_cache = [], old_cache = [], pending = [], bus_queries = []\<rparr>"

section \<open>Operations\<close>

definition creds_get :: "string \<Rightarrow> 'c \<Rightarrow> 'c creds_cache \<Rightarrow> ('c \<times> credentials) list \<times> 'c creds_cache" where
  "creds_get peer callback s =
     (case map_of (cur_cache s) peer of
        Some cr \<Rightarrow> ([(callback, cr)], s)
      | None \<Rightarrow>
          (case map_of (old_cache s) peer of
             Some cr \<Rightarrow>
               ([(callback, cr)],
                s\<lparr>cur_cache := AList.update peer cr (cur_cache s), old_cache := AList.delete peer (old_cache s)\<rparr>)
           | None \<Rightarrow>
               (case map_of (pending s) peer of
                  Some cbs \<Rightarrow> ([], s\<lparr>pending := AList.update peer (cbs @ [callback]) (pending s)\<rparr>)
                | None \<Rightarrow> ([], s\<lparr>pending := AList.update peer [callback] (pending s), bus_queries := bus_queries s @ [peer]\<rparr>))))"

text \<open>Position of the last space, as \<open>QByteArray::lastIndexOf\<close> returns it (\<open>-1\<close> when there is none).\<close>

definition last_space :: "string \<Rightarrow> int" where
  "last_space s = (if CHR '' '' \<in> set s then int (length s) - 1 - int (length (takeWhile (\<lambda>c. c \<noteq> CHR '' '') (rev s))) else - 1)"

definition peer_label :: "string \<Rightarrow> string result" where
  "peer_label raw =
     (if raw = [] then Inr []
      else if last raw \<noteq> NUL then Inl (Assertion ''label is null terminated'')
      else let l = butlast raw; pos = last_space l
           in Inr (if pos > 0 \<and> ends_with '')'' l \<and> l ! nat (pos + 1) = CHR ''('' then take (nat pos) l else l))"

text \<open>The reply of the bus daemon: an error, or the user id and the raw security label.\<close>

definition reply_credentials :: "bool \<Rightarrow> (int \<times> string) option \<Rightarrow> credentials result" where
  "reply_credentials aa_enabled reply =
     (case reply of
        None \<Rightarrow> Inr no_credentials
      | Some (user, raw) \<Rightarrow>
          if aa_enabled
          then rbind (peer_label raw) (\<lambda>l. Inr \<lparr>cr_valid = True, cr_user = user, cr_label = l\<rparr>)
          else Inr \<lparr>cr_valid = True, cr_user = user, cr_label = ''unconfined''\<rparr>)"

text \<open>\<open>std::map::emplace\<close> keeps an existing entry.\<close>

definition emplace :: "string \<Rightarrow> credentials \<Rightarrow> (string \<times> credentials) list \<Rightarrow> (string \<times> credentials) list" where
  "emplace peer cr m = (if map_of m peer = None then AList.update peer cr m else m)"

definition received_credentials ::
  "string \<Rightarrow> (int \<times> string) option \<Rightarrow> 'c creds_cache \<Rightarrow> ('c \<times> credentials) list result \<times> 'c creds_cache" where
  "received_credentials peer reply s =
     (case reply_credentials (apparmor_enabled s) reply of
        Inl e \<Rightarrow> (Inl e, s)
      | Inr cr \<Rightarrow>
          (let s1 = (if length (cur_cache s) \<ge> MAX_CACHE_SIZE
                     then s\<lparr>old_cache := cur_cache s, cur_cache := []\<rparr> else s);
               s2 = s1\<lparr>cur_cache := emplace peer cr (cur_cache s1)\<rparr>
           in case map_of (pending s2) peer of
                None \<Rightarrow> (Inl (Out_of_range ''map::at''), s2)
              | Some cbs \<Rightarrow> (Inr (map (\<lambda>cb. (cb, cr)) cbs), s2\<lparr>pending := AList.delete peer (pending s2)\<rparr>)))"

section \<open>Runs\<close>

text \<open>
  Events: a handler asks for a peer's credentials, or the bus daemon answers. The daemon answers only
  queries that are outstanding; other answers do not occur and leave the state alone in the model. A run returns the
  calls made, in order, and the final state.
\<close>

datatype 'c creds_event = Ask string 'c | Answer string "(int \<times> string) option"

fun creds_run ::
  "'c creds_event list \<Rightarrow> 'c creds_cache \<Rightarrow> (('c \<times> credentials) list \<times> 'c creds_cache) result" where
  "creds_run [] s = Inr ([], s)"
| "creds_run (Ask peer cb # es) s =
     (case creds_get peer cb s of
        (cs, s') \<Rightarrow> rbind (creds_run es s') (\<lambda>(later, s''). Inr (cs @ later, s'')))"
| "creds_run (Answer peer reply # es) s =
     (if map_of (pending s) peer = None then creds_run es s
      else case received_credentials peer reply s of
             (Inl e, s') \<Rightarrow> Inl e
           | (Inr cs, s') \<Rightarrow> rbind (creds_run es s') (\<lambda>(later, s''). Inr (cs @ later, s'')))"

text \<open>Callbacks passed to \<open>get\<close> in a run, and callbacks kept in \<open>pending_\<close>.\<close>

fun asked :: "'c creds_event list \<Rightarrow> 'c multiset" where
  "asked [] = {#}"
| "asked (Ask peer cb # es) = add_mset cb (asked es)"
| "asked (Answer peer reply # es) = asked es"

definition waiting :: "'c creds_cache \<Rightarrow> 'c multiset" where
  "waiting s = mset (concat (map snd (pending s)))"

text \<open>The D-Bus specification promises a \<open>NUL\<close>-terminated label.\<close>

fun terminated_answer :: "'c creds_event \<Rightarrow> bool" where
  "terminated_answer (Answer peer (Some (user, raw))) \<longleftrightarrow> raw = [] \<or> last raw = NUL"
| "terminated_answer _ \<longleftrightarrow> True"

text \<open>A peer has one outstanding query, and somebody waits for it.\<close>

definition creds_inv :: "'c creds_cache \<Rightarrow> bool" where
  "creds_inv s \<longleftrightarrow> distinct (map fst (pending s)) \<and> [] \<notin> snd ` set (pending s)"

lemma snd_update_subset: "snd ` set (AList.update k v al) \<subseteq> insert v (snd ` set al)"
  by (induction al) auto

lemma snd_delete_subset: "snd ` set (AList.delete k al) \<subseteq> snd ` set al"
  by (auto simp: AList.delete_eq)

lemma Nil_notin_update: "v \<noteq> [] \<Longrightarrow> [] \<notin> snd ` set al \<Longrightarrow> [] \<notin> snd ` set (AList.update k v al)"
  using snd_update_subset [of k v al] by auto

lemma waiting_append:
  assumes "distinct (map fst al)" and "map_of al k = Some xs"
  shows "mset (concat (map snd (AList.update k (xs @ ys) al))) = mset (concat (map snd al)) + mset ys"
  using assms
proof (induction al)
  case (Cons p al)
  then show ?case by (cases p) (auto split: if_splits)
qed simp

lemma waiting_new:
  assumes "map_of al k = None"
  shows "mset (concat (map snd (AList.update k xs al))) = mset (concat (map snd al)) + mset xs"
  using assms
proof (induction al)
  case (Cons p al)
  then show ?case by (cases p) (auto split: if_splits)
qed simp

lemma waiting_delete:
  assumes "distinct (map fst al)" and "map_of al k = Some xs"
  shows "mset (concat (map snd al)) = mset xs + mset (concat (map snd (AList.delete k al)))"
  using assms
proof (induction al)
  case (Cons p al)
  obtain k' v where p: "p = (k', v)" by (cases p)
  show ?case
  proof (cases "k' = k")
    case True
    with Cons.prems p have "k \<notin> fst ` set al" by simp
    then have "AList.delete k al = al" by (rule AList.delete_id)
    with True Cons.prems p show ?thesis by simp
  next
    case False
    with Cons p show ?thesis by simp
  qed
qed simp

section \<open>Every callback is called once\<close>

lemma creds_get_once:
  assumes "creds_inv s" and "creds_get peer cb s = (cs, s')"
  shows "creds_inv s'" and "add_mset cb (waiting s) = mset (map fst cs) + waiting s'"
proof -
  have inv: "distinct (map fst (pending s))" "[] \<notin> snd ` set (pending s)" using assms(1) by (simp_all add: creds_inv_def)
  have "pending s' = pending s \<or> (\<exists>cbs. cbs \<noteq> [] \<and> pending s' = AList.update peer cbs (pending s))"
    using assms(2) by (auto simp: creds_get_def split: option.splits)
  with inv show "creds_inv s'" by (metis creds_inv_def distinct_update Nil_notin_update)
  show "add_mset cb (waiting s) = mset (map fst cs) + waiting s'"
    using assms(2) inv(1) waiting_append [of "pending s" peer _ "[cb]"] waiting_new [of "pending s" peer "[cb]"]
    by (auto simp: creds_get_def waiting_def split: option.splits)
qed

lemma received_once:
  assumes "creds_inv s" and "received_credentials peer reply s = (Inr cs, s')"
  shows "creds_inv s'" and "waiting s = mset (map fst cs) + waiting s'"
proof -
  from assms(2) obtain cbs where cbs: "map_of (pending s) peer = Some cbs" and cs: "map fst cs = cbs"
      and s': "pending s' = AList.delete peer (pending s)"
    by (auto simp del: map_of_eq_Some_iff simp: received_credentials_def Let_def comp_def split: option.splits sum.splits if_splits)
  from assms(1) s' show "creds_inv s'"
    using snd_delete_subset [of peer "pending s"] by (auto simp: creds_inv_def distinct_delete)
  from assms(1) cbs cs s' show "waiting s = mset (map fst cs) + waiting s'"
    unfolding waiting_def s' cs creds_inv_def by (subst waiting_delete) (simp_all add: comp_def)
qed

lemma received_outstanding:
  assumes "map_of (pending s) peer \<noteq> None" and "terminated_answer (Answer peer reply)"
  shows "\<exists>cs s'. received_credentials peer reply s = (Inr cs, s')"
  using assms
  by (auto simp: received_credentials_def reply_credentials_def peer_label_def Let_def split: option.splits)

lemma creds_run_once:
  assumes "creds_inv s" and "\<forall>e \<in> set es. terminated_answer e"
  shows "\<exists>called s'. creds_run es s = Inr (called, s') \<and> asked es + waiting s = mset (map fst called) + waiting s'"
  using assms
proof (induction es s rule: creds_run.induct)
  case (2 peer cb es s)
  obtain cs s' where g: "creds_get peer cb s = (cs, s')" by (cases "creds_get peer cb s")
  note once = creds_get_once [OF \<open>creds_inv s\<close> g]
  from 2 g once(1) obtain later s'' where
    "creds_run es s' = Inr (later, s'')" "asked es + waiting s' = mset (map fst later) + waiting s''" by auto
  with g once(2) show ?case by (auto simp: ac_simps) (metis add.left_commute add_mset_add_single union_commute)
next
  case (3 peer reply es s)
  show ?case
  proof (cases "map_of (pending s) peer")
    case None
    with 3 show ?thesis by simp
  next
    case (Some cbs)
    with 3 received_outstanding [of s peer reply] obtain cs s' where
      g: "received_credentials peer reply s = (Inr cs, s')" by auto
    note once = received_once [OF \<open>creds_inv s\<close> g]
    from 3 Some g once(1) obtain later s'' where
      "creds_run es s' = Inr (later, s'')" "asked es + waiting s' = mset (map fst later) + waiting s''" by auto
    with Some g once(2) show ?thesis by (auto simp: ac_simps)
  qed
qed simp

section \<open>Properties\<close>

text \<open>
  Every callback is called exactly once: in any run of a new cache whose answers have terminated labels,
  nothing aborts, and the callbacks passed to \<open>get\<close> are, as a multiset, those called so far and those still waiting
  for an outstanding query.
\<close>

theorem credentials_exactly_once:
  assumes "\<forall>e \<in> set es. terminated_answer e"
  shows "\<exists>called s. creds_run es (CredentialsCache aa_enabled) = Inr (called, s) \<and>
           asked es = mset (map fst called) + waiting s"
  using creds_run_once [OF _ assms, of "CredentialsCache aa_enabled"]
  by (simp add: creds_inv_def CredentialsCache_def waiting_def)

theorem credentials_exactly_once_witness:
  "\<exists>called s. creds_run [Ask '':1.7'' (1::nat), Ask '':1.7'' 2, Answer '':1.7'' (Some (1000, ''unconfined'' @ [NUL])),
                         Ask '':1.7'' 3, Ask '':1.8'' 4] (CredentialsCache True) = Inr (called, s) \<and>
     {#1, 2, 3, 4#} = mset (map fst called) + waiting s"
  using credentials_exactly_once
    [of "[Ask '':1.7'' (1::nat), Ask '':1.7'' 2, Answer '':1.7'' (Some (1000, ''unconfined'' @ [NUL])),
          Ask '':1.7'' 3, Ask '':1.8'' 4]" True]
  by simp

text \<open>
  The label a confined peer is checked with has its mode trimmed: a label \<open>profile (mode)\<close>, with no space in the
  mode, gives \<open>profile\<close>.
\<close>

lemma last_space_append:
  assumes "CHR '' '' \<notin> set m"
  shows "last_space (p @ CHR '' '' # m) = int (length p)"
proof -
  have "takeWhile (\<lambda>c. c \<noteq> CHR '' '') (rev m @ CHR '' '' # rev p) = rev m"
    using assms by (subst takeWhile_append2) auto
  with assms show ?thesis by (simp add: last_space_def)
qed

theorem peer_label_trims_mode:
  assumes "p \<noteq> []" and "CHR '' '' \<notin> set mode"
  shows "peer_label (p @ '' ('' @ mode @ '')'' @ [NUL]) = Inr p"
proof -
  have b: "butlast (p @ '' ('' @ mode @ '')'' @ [NUL]) = p @ CHR '' '' # (''('' @ mode @ '')'')"
    by (simp add: butlast_append)
  have "last_space (p @ CHR '' '' # (''('' @ mode @ '')'')) = int (length p)"
    by (rule last_space_append) (use assms in simp)
  moreover have "ends_with '')'' (p @ CHR '' '' # (''('' @ mode @ '')''))"
    by (simp add: ends_with_def starts_with_iff)
  moreover have "nat (int (length p) + 1) = Suc (length p)" by simp
  ultimately show ?thesis
    unfolding peer_label_def b Let_def using assms(1) by (simp add: nth_append)
qed

theorem peer_label_trims_mode_witness:
  "peer_label (''/usr/bin/gallery'' @ '' ('' @ ''enforce'' @ '')'' @ [NUL]) = Inr ''/usr/bin/gallery''"
  by (rule peer_label_trims_mode) simp_all

end
