(* ===== verification/Request_Handler.thy ===== *)
theory Request_Handler
  imports Thumbnailer_Lookup Rate_Limiter Credentials Inactivity
begin

text \<open>
  Class \<open>Handler\<close> (\<open>src/service/handler.h\<close>, \<open>src/service/handler.cpp\<close>): one D-Bus request on its way
  through the stages credentials, cache check, download or extraction, creation of the thumbnail, reply. The
  record has the members of \<open>HandlerPrivate\<close>; a member that refers to a shared object (thumbnailer,
  limiter, credentials cache, inactivity handler) holds that object's state. \<open>owed\<close> is the one
  callback the Qt runtime still owes the handler: a job handed to a thread pool, a watcher's \<open>finished\<close>
  signal, a limiter slot, the end of a download. \<open>sent\<close> and \<open>signals\<close> record the replies on the bus and the
  emissions of \<open>finished\<close>. Time points are microseconds, \<open>0\<close> is the default time point.
\<close>

section \<open>State\<close>

text \<open>\<open>QString error\<close> is null for \<open>nullptr\<close>, which is not the same as empty.\<close>

record byte_array_or_error =
  ba :: string
  ba_error :: "string option"

datatype callback = Credentials_cb | Check_job | Check_watcher | Limiter_slot | Download_signal | Create_job | Create_watcher

datatype bus_reply = Reply string | Error_reply string string

record 'w handler =
  hp_id :: nat
  hp_service :: string
  hp_session :: "'w session"
  hp_limiter :: "nat limiter"
  hp_creds :: "nat creds_cache"
  hp_inactivity :: inactivity
  start_time :: int
  finish_time :: int
  schedule_start_time :: int
  download_start_time :: int
  download_finish_time :: int
  hp_details :: string
  hp_cancel_func :: "cancel_func option"
  cancelled :: bool
  checkWatcher :: "byte_array_or_error result option"
  createWatcher :: "byte_array_or_error result option"
  owed :: "callback option"
  sent :: "bus_reply list"
  signals :: nat
  warnings :: "string list"

definition ART_ERROR :: string where
  "ART_ERROR = ''com.canonical.Thumbnailer.Error.Failed''"

definition on_session :: "('w session, 'a) act \<Rightarrow> ('w handler, 'a) act" where
  "on_session = act_zoom hp_session (\<lambda>s h. h\<lparr>hp_session := s\<rparr>)"

abbreviation hp_status :: "'w handler \<Rightarrow> fetch_status" where
  "hp_status h \<equiv> status (rq (hp_session h))"

section \<open>Construction and destruction\<close>

definition Handler ::
  "nat \<Rightarrow> string \<Rightarrow> nat limiter \<Rightarrow> nat creds_cache \<Rightarrow> inactivity \<Rightarrow> 'w session \<Rightarrow> string \<Rightarrow> int \<Rightarrow> 'w handler result" where
  "Handler i service limiter creds inactivity_handler session details now =
     rbind (request_started inactivity_handler) (\<lambda>inactivity.
     Inr \<lparr>hp_id = i, hp_service = service, hp_session = session, hp_limiter = limiter, hp_creds = creds,
          hp_inactivity = inactivity, start_time = now, finish_time = 0, schedule_start_time = 0,
          download_start_time = 0, download_finish_time = 0, hp_details = details, hp_cancel_func = None,
          cancelled = False, checkWatcher = None, createWatcher = None, owed = None, sent = [], signals = 0,
          warnings = []\<rparr>)"

section \<open>Replies\<close>

definition sendThumbnail :: "int \<Rightarrow> string \<Rightarrow> ('w handler, unit) act" where
  "sendThumbnail now bytes =
     act_modify (\<lambda>h. h\<lparr>sent := sent h @ [Reply bytes], finish_time := now, signals := Suc (signals h)\<rparr>)"

definition sendError :: "int \<Rightarrow> string \<Rightarrow> ('w handler, unit) act" where
  "sendError now error = act_modify (\<lambda>h.
     let h1 = (if hp_status h = Hard_error \<or> hp_status h = Temporary_error
               then h\<lparr>warnings := warnings h @ [error]\<rparr> else h)
     in h1\<lparr>sent := sent h @ [Error_reply ART_ERROR error], finish_time := now, signals := Suc (signals h)\<rparr>)"

fun fetch_status_string :: "fetch_status \<Rightarrow> string" where
  "fetch_status_string Cache_hit = ''HIT''"
| "fetch_status_string Scaled_from_fullsize = ''FULL-SIZE HIT''"
| "fetch_status_string Cached_failure = ''FAILED PREVIOUSLY''"
| "fetch_status_string Needs_download = ''NEEDS DOWNLOAD''"
| "fetch_status_string Downloaded = ''MISS''"
| "fetch_status_string Not_found = ''NO ARTWORK''"
| "fetch_status_string Network_down = ''NETWORK DOWN''"
| "fetch_status_string Hard_error = ''ERROR''"
| "fetch_status_string Temporary_error = ''TEMPORARY ERROR''"
| "fetch_status_string Timed_out = ''TIMEOUT''"

definition status_as_string :: "'w handler \<Rightarrow> string" where
  "status_as_string h = fetch_status_string (hp_status h)"

section \<open>Stages\<close>

text \<open>\<open>owe cb\<close> registers the next callback with the runtime: \<open>setFuture(run(pool, f))\<close> owes the job first, then the watcher's signal.\<close>

definition owe :: "callback \<Rightarrow> ('w handler, unit) act" where
  "owe cb = act_modify (\<lambda>h. h\<lparr>owed := Some cb\<rparr>)"

definition gotCredentials :: "('p, 'l, 'w) env \<Rightarrow> int \<Rightarrow> credentials \<Rightarrow> ('w handler, unit) act" where
  "gotCredentials E now cr h =
     (if cancelled h then act_modify (\<lambda>h. h\<lparr>signals := Suc (signals h)\<rparr>)
      else if \<not> cr_valid cr
      then sendError now (''Handler::gotCredentials(): '' @ hp_details h @ '': could not retrieve peer credentials'')
      else act_bind
             (act_catch
               (act_bind (act_of (check_client_credentials E (cr_user cr) (cr_label cr) (rq (hp_session h)))) (\<lambda>_. act_ret True))
               (\<lambda>e. act_bind (sendError now (''Handler::gotCredentials(): '' @ hp_details h @ '': '' @ what e)) (\<lambda>_. act_ret False)))
             (\<lambda>go. if go then owe Check_job else act_ret ())) h"

definition begin_handler :: "('p, 'l, 'w) env \<Rightarrow> int \<Rightarrow> ('w handler, unit) act" where
  "begin_handler E now h =
     (case creds_get (hp_service h) (hp_id h) (hp_creds h) of
        ([], creds) \<Rightarrow> owe Credentials_cb (h\<lparr>hp_creds := creds\<rparr>)
      | ((_, cr) # _, creds) \<Rightarrow> gotCredentials E now cr (h\<lparr>hp_creds := creds\<rparr>))"

definition check :: "('p, 'l, 'w) env \<Rightarrow> int \<Rightarrow> ('w handler, string) act" where
  "check E now h = (if cancelled h then act_ret [] else on_session (thumbnail E now)) h"

text \<open>A job's wrapper: the result, or the text of the exception.\<close>

definition byte_array_or_error_of :: "('w handler, string) act \<Rightarrow> ('w handler, byte_array_or_error) act" where
  "byte_array_or_error_of job =
     act_catch (act_bind job (\<lambda>b. act_ret \<lparr>ba = b, ba_error = None\<rparr>))
       (\<lambda>e. act_ret \<lparr>ba = [], ba_error = Some (what e)\<rparr>)"

definition do_check :: "('p, 'l, 'w) env \<Rightarrow> int \<Rightarrow> ('w handler, unit) act" where
  "do_check E now =
     act_bind (byte_array_or_error_of (check E now)) (\<lambda>r.
     act_modify (\<lambda>h. h\<lparr>checkWatcher := Some (Inr r), owed := Some Check_watcher\<rparr>))"

text \<open>The job given to the limiter.\<close>

definition download_job :: "('p, 'l, 'w) env \<Rightarrow> int \<Rightarrow> ('w handler, unit) act" where
  "download_job E now h =
     (if cancelled h then act_ret ()
      else act_bind (act_modify (\<lambda>h. h\<lparr>download_start_time := now\<rparr>)) (\<lambda>_.
           act_bind (on_session (download E 0)) (\<lambda>_. owe Download_signal))) h"

text \<open>
  \<open>limiter->schedule(job)\<close>: when a slot is free the limiter calls the job, whose exception leaves \<open>schedule\<close>;
  otherwise the handler waits for its slot.
\<close>

definition schedule_download :: "('p, 'l, 'w) env \<Rightarrow> int \<Rightarrow> ('w handler, cancel_func) act" where
  "schedule_download E now h =
     (case download_job E now h of
        (r, h_ran) \<Rightarrow>
          case schedule (\<lambda>j. case r of Inl e \<Rightarrow> Some e | Inr _ \<Rightarrow> None) (hp_id h) (hp_limiter h) of
            (res, lim) \<Rightarrow>
              if started lim \<noteq> started (hp_limiter h) then (res, h_ran\<lparr>hp_limiter := lim\<rparr>)
              else (res, h\<lparr>hp_limiter := lim, owed := Some Limiter_slot\<rparr>))"

definition schedule_stage :: "('p, 'l, 'w) env \<Rightarrow> int \<Rightarrow> ('w handler, unit) act" where
  "schedule_stage E now h0 =
     (let h = h0\<lparr>schedule_start_time := now\<rparr>
      in if hp_status h = Needs_download
         then act_catch
                (act_bind (schedule_download E now) (\<lambda>cf. act_modify (\<lambda>h. h\<lparr>hp_cancel_func := Some cf\<rparr>)))
                (\<lambda>e. sendError now (''Handler::checkFinished(): download error: '' @ hp_details h @ what e)) h
         else sendError now (''Handler::checkFinished(): no artwork for '' @ hp_details h @ '': '' @ status_as_string h) h)"

definition checkFinished :: "('p, 'l, 'w) env \<Rightarrow> int \<Rightarrow> ('w handler, unit) act" where
  "checkFinished E now h =
     (if cancelled h then act_ret ()
      else case checkWatcher h of
             None \<Rightarrow> act_throw (Null_deref ''result() of a future that is not set'')
           | Some (Inl e) \<Rightarrow> sendError now (''Handler::checkFinished(): exception: '' @ hp_details h @ '': '' @ what e)
           | Some (Inr r) \<Rightarrow>
               (case ba_error r of
                  Some err \<Rightarrow> sendError now (''Handler::checkFinished(): result error: '' @ hp_details h @ '': '' @ err)
                | None \<Rightarrow> if length (ba r) \<noteq> 0 then sendThumbnail now (ba r) else schedule_stage E now)) h"

text \<open>\<open>done()\<close> may start the job of another handler; \<open>throws\<close> is what that job throws.\<close>

definition downloadFinished :: "(nat \<Rightarrow> exn option) \<Rightarrow> int \<Rightarrow> ('w handler, unit) act" where
  "downloadFinished throws now =
     act_bind (act_modify (\<lambda>h. h\<lparr>download_finish_time := now\<rparr>)) (\<lambda>_.
     act_bind (act_zoom hp_limiter (\<lambda>l h. h\<lparr>hp_limiter := l\<rparr>) (limiter_done throws)) (\<lambda>_ h.
     if cancelled h then (Inr (), h) else owe Create_job h))"

definition create :: "('p, 'l, 'w) env \<Rightarrow> int \<Rightarrow> ('w handler, string) act" where
  "create E now h =
     (if cancelled h then act_ret []
      else act_bind (on_session (thumbnail E now)) (\<lambda>art_image h.
           if length art_image = 0
           then (Inl (Runtime_error (''could not get thumbnail for '' @ hp_details h @ '': '' @ status_as_string h)), h)
           else (Inr art_image, h))) h"

definition do_create :: "('p, 'l, 'w) env \<Rightarrow> int \<Rightarrow> ('w handler, unit) act" where
  "do_create E now =
     act_bind (byte_array_or_error_of (create E now)) (\<lambda>r.
     act_modify (\<lambda>h. h\<lparr>createWatcher := Some (Inr r), owed := Some Create_watcher\<rparr>))"

definition createFinished :: "int \<Rightarrow> ('w handler, unit) act" where
  "createFinished now h =
     (if cancelled h then act_ret ()
      else case createWatcher h of
             None \<Rightarrow> act_throw (Null_deref ''result() of a future that is not set'')
           | Some (Inl e) \<Rightarrow> sendError now (''Handler::createFinished(): '' @ hp_details h @ '': '' @ what e)
           | Some (Inr r) \<Rightarrow>
               (case ba_error r of
                  Some (c # cs) \<Rightarrow> sendError now (''Handler::createFinished(): '' @ (c # cs))
                | _ \<Rightarrow> sendThumbnail now (ba r))) h"

text \<open>
  The destructor. A job that has not started yet when \<open>cancelled\<close> is set runs with it set, so that it
  returns an empty array and leaves the thumbnailer alone.
\<close>

definition waitForFinished :: "'w handler \<Rightarrow> 'w handler" where
  "waitForFinished h =
     (case owed h of
        Some Check_job \<Rightarrow> h\<lparr>checkWatcher := Some (Inr \<lparr>ba = [], ba_error = None\<rparr>), owed := None\<rparr>
      | Some Create_job \<Rightarrow> h\<lparr>createWatcher := Some (Inr \<lparr>ba = [], ba_error = None\<rparr>), owed := None\<rparr>
      | _ \<Rightarrow> h\<lparr>owed := None\<rparr>)"

definition Handler_destroy :: "('w handler, unit) act" where
  "Handler_destroy h0 =
     (let h = h0\<lparr>cancelled := True\<rparr>;
          h1 = (case hp_cancel_func h of
                  None \<Rightarrow> h
                | Some cf \<Rightarrow> h\<lparr>hp_limiter := snd (cancel cf (hp_limiter h))\<rparr>);
          h2 = waitForFinished h1
      in case request_completed (hp_inactivity h2) of
           Inl e \<Rightarrow> (Inl e, h2)
         | Inr i \<Rightarrow> (Inr (), h2\<lparr>hp_inactivity := i\<rparr>))"

section \<open>Times\<close>

definition completion_time :: "'w handler \<Rightarrow> int result" where
  "completion_time h =
     rbind (assert_r (finish_time h \<noteq> 0) ''finish_time != time_point()'') (\<lambda>_. Inr (finish_time h - start_time h))"

definition queued_time :: "'w handler \<Rightarrow> int" where
  "queued_time h = download_start_time h - schedule_start_time h"

definition download_time :: "'w handler \<Rightarrow> int result" where
  "download_time h =
     rbind (assert_r (finish_time h \<noteq> 0) ''finish_time != time_point()'') (\<lambda>_.
     Inr (if download_start_time h = 0 then 0 else download_finish_time h - download_start_time h))"

end
