(* ===== verification/DBus_Interface.thy ===== *)
theory DBus_Interface
  imports Request_Handler Settings "HOL-Library.AList"
begin

text \<open>
  Class \<open>DBusInterface\<close> (\<open>src/service/dbusinterface.h\<close>, \<open>src/service/dbusinterface.cpp\<close>): the method calls of the service,
  the limits on concurrent downloads and extractions, and the chaining of requests for the same
  key. A handler object is a number, \<open>hkey i\<close> is its \<open>key()\<close>. Starting a handler is an
  argument \<open>begin\<close> on the state \<open>world\<close> of all handlers: it says whether the handler emitted \<open>finished\<close> before \<open>begin()\<close>
  returned, as it does when the peer's credentials are cached and not accepted (\<open>begin_handler\<close>). \<open>finished\<close> is
  always emitted in tail position, so that its slots run as part of the call that emitted it.
\<close>

section \<open>State\<close>

record 's dbus =
  requests :: "nat list"
  request_keys :: "(string \<times> nat list) list"
  links :: "(nat \<times> nat) list"
  begun :: "nat list"
  delete_later :: "nat list"
  world :: 's

definition no_requests :: "'s \<Rightarrow> 's dbus" where
  "no_requests w = \<lparr>requests = [], request_keys = [], links = [], begun = [], delete_later = [], world = w\<rparr>"

type_synonym 's begin_fun = "nat \<Rightarrow> 's \<Rightarrow> bool \<times> 's"

section \<open>Construction\<close>

record config_values =
  cv_trace_client :: bool
  cv_max_backlog :: int

record dbus_config =
  download_limiter :: "nat limiter"
  extraction_limiter :: "nat limiter"
  db_log_level :: int
  db_config_values :: config_values

definition adjusted_limit :: "bool \<Rightarrow> int \<Rightarrow> int" where
  "adjusted_limit arm limit = (if arm \<and> limit = 0 then 1 else limit)"

definition extraction_limit :: "bool \<Rightarrow> int \<Rightarrow> int \<Rightarrow> int" where
  "extraction_limit arm hardware_concurrency max_extr =
     (let limit = adjusted_limit arm max_extr
      in if limit = 0 then (if hardware_concurrency = 0 then 1 else hardware_concurrency) else limit)"

definition DBusInterface :: "bool \<Rightarrow> int \<Rightarrow> string option \<Rightarrow> settings \<Rightarrow> dbus_config result" where
  "DBusInterface arm hardware_concurrency env_log_level S =
     rbind (max_downloads S) (\<lambda>downloads.
     rbind (RateLimiter downloads) (\<lambda>dl.
     rbind (max_extractions S) (\<lambda>extractions.
     rbind (RateLimiter (extraction_limit arm hardware_concurrency extractions)) (\<lambda>el.
     rbind (log_level env_log_level S) (\<lambda>level.
     rbind (max_backlog S) (\<lambda>backlog.
     Inr \<lparr>download_limiter = dl, extraction_limiter = el, db_log_level = level,
          db_config_values = \<lparr>cv_trace_client = trace_client S, cv_max_backlog = backlog\<rparr>\<rparr>))))))"

definition ClientConfig :: "dbus_config \<Rightarrow> config_values" where
  "ClientConfig c = db_config_values c"

section \<open>Method calls\<close>

text \<open>
  A method call queues a handler for the request, with the text \<open>details\<close> and one of the two limiters, or
  warns and sends an error reply at once.
\<close>

datatype limiter_ref = Download_limiter | Extraction_limiter

datatype call_outcome =
    New_handler limiter_ref request string
  | Call_error string string string

definition size_text :: "qsize \<Rightarrow> string" where
  "size_text sz = '' ('' @ int_to_string (width sz) @ '','' @ int_to_string (height sz) @ '')''"

definition art_details :: "string \<Rightarrow> string \<Rightarrow> string \<Rightarrow> qsize \<Rightarrow> string" where
  "art_details what_art artist album sz = what_art @ '': '' @ artist @ ''/'' @ album @ size_text sz"

text \<open>The third argument of \<open>Call_error\<close> is the warning that is logged.\<close>

definition GetAlbumArt :: "'w thumbnailer \<Rightarrow> string \<Rightarrow> string \<Rightarrow> qsize \<Rightarrow> call_outcome" where
  "GetAlbumArt t artist album requestedSize =
     (case get_album_art t artist album requestedSize of
        Inr r \<Rightarrow> New_handler Download_limiter r (art_details ''album'' artist album requestedSize)
      | Inl e \<Rightarrow> Call_error ART_ERROR (what e) (''DBusInterface::GetAlbumArt(): '' @ artist @ ''/'' @ album @ '': '' @ what e))"

definition GetArtistArt :: "'w thumbnailer \<Rightarrow> string \<Rightarrow> string \<Rightarrow> qsize \<Rightarrow> call_outcome" where
  "GetArtistArt t artist album requestedSize =
     (case get_artist_art t artist album requestedSize of
        Inr r \<Rightarrow> New_handler Download_limiter r (art_details ''artist'' artist album requestedSize)
      | Inl e \<Rightarrow> (let msg = ''DBusInterface::GetArtistArt(): '' @ artist @ ''/'' @ album @ '': '' @ what e
                 in Call_error ART_ERROR msg msg))"

definition GetThumbnail :: "('p, 'l, 'w) env \<Rightarrow> 'w thumbnailer \<Rightarrow> string \<Rightarrow> qsize \<Rightarrow> call_outcome" where
  "GetThumbnail E t filename requestedSize =
     (case get_thumbnail E t filename requestedSize of
        Inr r \<Rightarrow> New_handler Extraction_limiter r (''thumbnail: '' @ filename @ size_text requestedSize)
      | Inl e \<Rightarrow> (let msg = ''DBusInterface::GetThumbnail(): '' @ filename @ '': '' @ what e
                 in Call_error ART_ERROR msg msg))"

section \<open>Chaining\<close>

definition requests_for :: "string \<Rightarrow> 's dbus \<Rightarrow> nat list" where
  "requests_for k db = (case map_of (request_keys db) k of None \<Rightarrow> [] | Some v \<Rightarrow> v)"

definition run_begin :: "'s begin_fun \<Rightarrow> nat \<Rightarrow> 's dbus \<Rightarrow> bool \<times> 's dbus" where
  "run_begin begin_of i db = (case begin_of i (world db) of (fin, w) \<Rightarrow> (fin, db\<lparr>begun := begun db @ [i], world := w\<rparr>))"

text \<open>
  \<open>queueRequest\<close>. \<open>request_keys_[key]\<close> creates an empty entry. A handler that finishes inside \<open>begin()\<close> runs
  \<open>requestFinished\<close>, which erases that entry: the reference \<open>requests_for_key\<close> the code goes on to use then dangles.
\<close>

definition queueRequest :: "(nat \<Rightarrow> string) \<Rightarrow> 's begin_fun \<Rightarrow> nat \<Rightarrow> 's dbus \<Rightarrow> unit result \<times> 's dbus" where
  "queueRequest hkey begin_of i db0 =
     (let k = hkey i;
          v = requests_for k db0;
          db = db0\<lparr>requests := requests db0 @ [i], request_keys := AList.update k v (request_keys db0)\<rparr>
      in if v = []
         then case run_begin begin_of i db of
                (True, db1) \<Rightarrow> (Inl (Null_deref ''requests_for_key''), db1)
              | (False, db1) \<Rightarrow> (Inr (), db1\<lparr>request_keys := AList.update k [i] (request_keys db1)\<rparr>)
         else (Inr (), db\<lparr>links := links db @ [(last v, i)], request_keys := AList.update k (v @ [i]) (request_keys db)\<rparr>))"

definition requestFinished :: "(nat \<Rightarrow> string) \<Rightarrow> nat \<Rightarrow> 's dbus \<Rightarrow> 's dbus" where
  "requestFinished hkey i db =
     (let k = hkey i; v = removeAll i (requests_for k db)
      in db\<lparr>requests := removeAll i (requests db),
            request_keys := (if v = [] then AList.delete k (request_keys db) else AList.update k v (request_keys db)),
            delete_later := delete_later db @ [i]\<rparr>)"

text \<open>
  The emission of \<open>finished\<close> by handler \<open>i\<close>: \<open>requestFinished\<close>, then \<open>begin\<close> of every handler connected to it, whose own
  \<open>finished\<close> may be emitted in turn. The first argument of \<open>emit_finished\<close> bounds the depth; \<open>None\<close> is a deeper chain.
\<close>

definition successors :: "nat \<Rightarrow> 's dbus \<Rightarrow> nat list" where
  "successors i db = map snd (filter (\<lambda>l. fst l = i) (links db))"

fun begin_each :: "(nat \<Rightarrow> 's dbus \<Rightarrow> 's dbus option) \<Rightarrow> 's begin_fun \<Rightarrow> nat list \<Rightarrow> 's dbus \<Rightarrow> 's dbus option" where
  "begin_each emit begin_of [] db = Some db"
| "begin_each emit begin_of (j # js) db =
     (case run_begin begin_of j db of
        (True, db1) \<Rightarrow> (case emit j db1 of None \<Rightarrow> None | Some db2 \<Rightarrow> begin_each emit begin_of js db2)
      | (False, db1) \<Rightarrow> begin_each emit begin_of js db1)"

primrec emit_finished :: "(nat \<Rightarrow> string) \<Rightarrow> 's begin_fun \<Rightarrow> nat \<Rightarrow> nat \<Rightarrow> 's dbus \<Rightarrow> 's dbus option" where
  "emit_finished hkey begin_of 0 i db = None"
| "emit_finished hkey begin_of (Suc n) i db =
     (let db1 = requestFinished hkey i db
      in begin_each (emit_finished hkey begin_of n) begin_of (successors i db1) db1)"

section \<open>Logging\<close>

text \<open>A count of microseconds in seconds, in fixed notation with six decimals.\<close>

definition seconds_text :: "int \<Rightarrow> string" where
  "seconds_text us =
     (let f = int_to_string (\<bar>us\<bar> mod 1000000)
      in (if us < 0 then ''-'' else []) @ int_to_string (\<bar>us\<bar> div 1000000) @ ''.'' @ replicate (6 - length f) (CHR ''0'') @ f)"

definition write_log_message :: "'w handler \<Rightarrow> string result" where
  "write_log_message h =
     rbind (completion_time h) (\<lambda>total.
     rbind (download_time h) (\<lambda>dl.
     let q = queued_time h
     in Inr (hp_details h @ '': '' @ seconds_text total @
             (if q > 0 \<or> dl > 0 then '' ['' else []) @
             (if q > 0 then ''q: '' @ seconds_text q @ (if dl > 0 then '', '' else []) else []) @
             (if dl > 0 then ''d: '' @ seconds_text dl else []) @
             (if q > 0 \<or> dl > 0 then '']'' else []) @
             '' sec ('' @ status_as_string h @ '')'')))"

definition logs_message :: "int \<Rightarrow> fetch_status \<Rightarrow> bool" where
  "logs_message level st =
     (if level = 2 \<or> st = Hard_error then True
      else if level = 1 then st \<in> {Cached_failure, Downloaded, Not_found, Network_down, Temporary_error}
      else False)"

end
