(* ===== verification/Service_Main.thy ===== *)
theory Service_Main
  imports Thumbnailer_Lifecycle DBus_Interface Inactivity
begin

text \<open>
  The main program of the service (\<open>src/service/main.cpp\<close>): the lock file, the construction of the objects in their order, the
  registration on the bus, the event loop and the destruction of the objects in the opposite order, also while an exception is
  propagated. What the event loop does to the thumbnailer and to the request count is an argument; effects that other processes
  see are logged as events.
\<close>

section \<open>Environment\<close>

datatype svc_event = Lock_acquired | Caches_opened | Name_acquired | Loop_ended | Name_given_up | Caches_closed | Lock_given_up

record ('p, 'l, 'w) main_env =
  me_env :: "('p, 'l, 'w) env"
  me_settings :: settings
  me_release :: release
  me_writable :: "string \<Rightarrow> bool"
  me_cache_dir :: string
  me_start :: int
  me_end :: int
  me_open_file :: "string \<Rightarrow> int option"
  me_flock :: "flock_result list"
  me_max_idle :: "string option"
  me_arm :: bool
  me_cores :: int
  me_log_level :: "string option"
  me_register :: bool
  me_unregister :: bool
  me_loop :: "inactivity \<times> 'w thumbnailer \<Rightarrow> int \<times> inactivity \<times> 'w thumbnailer"

text \<open>What is left when the program is over: its exit status, the log, the data of the caches and the files.\<close>

record 'w ended =
  en_status :: "int result"
  en_events :: "svc_event list"
  en_stores :: "'w \<times> 'w \<times> 'w"
  en_files :: files

definition stores_of :: "'w thumbnailer \<Rightarrow> 'w \<times> 'w \<times> 'w" where
  "stores_of t = (store (full_size_cache t), store (thumbnail_cache t), store (failure_cache t))"

text \<open>The value of \<open>rc\<close> after the exception handler; \<open>rc\<close> is what it was before the exception.\<close>

definition caught :: "int \<Rightarrow> exn \<Rightarrow> int result" where
  "caught rc e = (if catchable e then Inr rc else Inl e)"

section \<open>The program\<close>

definition BUS_NAME :: string where
  "BUS_NAME = ''com.canonical.Thumbnailer''"

text \<open>Leaving the scope with a complete thumbnailer: its destructor, the one of the inactivity handler, then the lock.\<close>

definition leave_scope ::
  "('p, 'l, 'w) main_env \<Rightarrow> int result \<Rightarrow> svc_event list \<Rightarrow> inactivity \<Rightarrow> 'w thumbnailer \<Rightarrow> files \<Rightarrow> 'w ended" where
  "leave_scope M r evs i t fs =
     (case Thumbnailer_destroy (me_env M) (me_end M) t of
        (Inl e, t1) \<Rightarrow> \<lparr>en_status = Inl e, en_events = evs, en_stores = stores_of t1, en_files = fs\<rparr>
      | (Inr _, t1) \<Rightarrow>
          (case InactivityHandler_destroy i of
             Inl e \<Rightarrow> \<lparr>en_status = Inl e, en_events = evs @ [Caches_closed], en_stores = stores_of t1, en_files = fs\<rparr>
           | Inr _ \<Rightarrow> \<lparr>en_status = r, en_events = evs @ [Caches_closed, Lock_given_up], en_stores = stores_of t1, en_files = fs\<rparr>))"

definition serve ::
  "('p, 'l, 'w) main_env \<Rightarrow> svc_event list \<Rightarrow> inactivity \<Rightarrow> 'w thumbnailer \<Rightarrow> files \<Rightarrow> 'w ended" where
  "serve M evs i t fs =
     (if \<not> me_register M
      then leave_scope M (caught 1 (Runtime_error (''thumbnailer-service: Could not acquire DBus name '' @ BUS_NAME))) evs i t fs
      else case stats (me_env M) t of
             (Inl e, t1) \<Rightarrow>
               if catchable e then leave_scope M (Inr 1) (evs @ [Name_acquired]) i t1 fs
               else \<lparr>en_status = Inl e, en_events = evs @ [Name_acquired], en_stores = stores_of t1, en_files = fs\<rparr>
           | (Inr _, t1) \<Rightarrow>
               (case me_loop M (i, t1) of
                  (rc, i2, t2) \<Rightarrow>
                    leave_scope M (Inr rc)
                      (evs @ [Name_acquired, Loop_ended] @ (if me_unregister M then [Name_given_up] else [])) i2 t2 fs))"

definition locked_main :: "('p, 'l, 'w) main_env \<Rightarrow> 'w \<times> 'w \<times> 'w \<Rightarrow> files \<Rightarrow> 'w ended" where
  "locked_main M stores fs =
     (let idle = \<lambda>e. \<lparr>en_status = caught 1 e, en_events = [Lock_acquired, Lock_given_up], en_stores = stores, en_files = fs\<rparr>
      in case InactivityHandler (me_max_idle M) of
           Inl e \<Rightarrow> idle e
         | Inr i \<Rightarrow>
             (case Thumbnailer (me_env M) (me_settings M) (me_release M) (me_writable M) (me_cache_dir M) (me_start M) stores fs of
                (Inl e, t, fs1) \<Rightarrow>
                  if catchable e
                  then \<lparr>en_status = Inr 1, en_events = [Lock_acquired, Caches_opened, Caches_closed, Lock_given_up],
                        en_stores = stores_of t, en_files = fs1\<rparr>
                  else \<lparr>en_status = Inl e, en_events = [Lock_acquired, Caches_opened], en_stores = stores_of t, en_files = fs1\<rparr>
              | (Inr _, t, fs1) \<Rightarrow>
                  (case DBusInterface (me_arm M) (me_cores M) (me_log_level M) (me_settings M) of
                     Inl e \<Rightarrow>
                       if catchable e then leave_scope M (Inr 1) [Lock_acquired, Caches_opened] i t fs1
                       else \<lparr>en_status = Inl e, en_events = [Lock_acquired, Caches_opened], en_stores = stores_of t, en_files = fs1\<rparr>
                   | Inr _ \<Rightarrow> serve M [Lock_acquired, Caches_opened] i t fs1)))"

text \<open>\<open>None\<close>: the lock is never granted nor refused.\<close>

definition service_main :: "('p, 'l, 'w) main_env \<Rightarrow> 'w \<times> 'w \<times> 'w \<Rightarrow> files \<Rightarrow> 'w ended option" where
  "service_main M stores fs =
     (let stop = \<lambda>e. Some \<lparr>en_status = caught 1 e, en_events = [], en_stores = stores, en_files = fs\<rparr>
      in case AdvisoryFileLock (me_open_file M) (me_cache_dir M @ ''/thumbnailer-service.lock'') of
           Inl e \<Rightarrow> stop e
         | Inr l \<Rightarrow>
             (case file_lock_lock (me_flock M) 10000 l of
                None \<Rightarrow> None
              | Some (Inl e, _) \<Rightarrow> stop e
              | Some (Inr False, _) \<Rightarrow> stop (Runtime_error ''Could not acquire file lock within 10 seconds'')
              | Some (Inr True, _) \<Rightarrow> Some (locked_main M stores fs)))"

section \<open>Properties\<close>

text \<open>
  The discipline of the log: the lock comes first and goes last, the caches are open only in between, the bus name is taken only
  with open caches, and given up, if at all, before the caches are closed. Any part from the start may be all there is (the program
  may die), but nothing is out of order.
\<close>

definition life_cycle :: "svc_event list" where
  "life_cycle = [Lock_acquired, Caches_opened, Name_acquired, Loop_ended, Name_given_up, Caches_closed, Lock_given_up]"

fun in_order :: "svc_event list \<Rightarrow> svc_event list \<Rightarrow> bool" where
  "in_order [] ys = True"
| "in_order (x # xs) [] = False"
| "in_order (x # xs) (y # ys) = (if x = y then in_order xs ys else in_order (x # xs) ys)"

definition guarded :: "svc_event list \<Rightarrow> bool" where
  "guarded evs \<longleftrightarrow> in_order evs life_cycle \<and>
     (evs \<noteq> [] \<longrightarrow> hd evs = Lock_acquired) \<and>
     (Name_acquired \<in> set evs \<longrightarrow> Caches_opened \<in> set evs) \<and>
     (Lock_given_up \<in> set evs \<and> Caches_opened \<in> set evs \<longrightarrow> Caches_closed \<in> set evs)"

lemma leave_scope_guarded:
  assumes "in_order (evs @ [Caches_closed, Lock_given_up]) life_cycle" and "evs \<noteq> []" "hd evs = Lock_acquired"
    and "Name_acquired \<in> set evs \<longrightarrow> Caches_opened \<in> set evs" and "Lock_given_up \<notin> set evs"
    and "in_order evs life_cycle" "in_order (evs @ [Caches_closed]) life_cycle"
  shows "guarded (en_events (leave_scope M r evs i t fs))"
  using assms by (auto simp: leave_scope_def guarded_def split: prod.splits sum.splits)

lemma leave_scope_prefixes:
  "guarded (en_events (leave_scope M r [Lock_acquired, Caches_opened] i t fs))"
  "guarded (en_events (leave_scope M r [Lock_acquired, Caches_opened, Name_acquired] i t fs))"
  "guarded (en_events (leave_scope M r [Lock_acquired, Caches_opened, Name_acquired, Loop_ended] i t fs))"
  "guarded (en_events (leave_scope M r [Lock_acquired, Caches_opened, Name_acquired, Loop_ended, Name_given_up] i t fs))"
  by (rule leave_scope_guarded; simp add: life_cycle_def)+

lemma guarded_short:
  "guarded []" "guarded [Lock_acquired, Lock_given_up]" "guarded [Lock_acquired, Caches_opened]"
  "guarded [Lock_acquired, Caches_opened, Name_acquired]"
  "guarded [Lock_acquired, Caches_opened, Caches_closed, Lock_given_up]"
  by code_simp+

lemma serve_guarded: "guarded (en_events (serve M [Lock_acquired, Caches_opened] i t fs))"
  unfolding serve_def
  by (auto simp: leave_scope_prefixes guarded_short split: prod.splits sum.splits)

lemma locked_main_guarded: "guarded (en_events (locked_main M stores fs))"
  unfolding locked_main_def Let_def
  by (auto simp: guarded_short leave_scope_prefixes serve_guarded split: prod.splits sum.splits)

text \<open>
  Two instances never work on the caches at the same time: in every run, whatever fails, the caches are opened only
  after the lock was acquired, and the lock is given up only after they were closed; the bus name is taken only while the caches
  are open and given up before they are closed.
\<close>

theorem service_guards_caches:
  assumes "service_main M stores fs = Some e"
  shows "guarded (en_events e) \<and> (Caches_opened \<notin> set (en_events e) \<longrightarrow> en_stores e = stores \<and> en_files e = fs)"
proof -
  have unopened: "Caches_opened \<in> set (en_events (leave_scope M r (Lock_acquired # Caches_opened # evs) i t fs'))" for r evs i t fs'
    by (simp add: leave_scope_def split: prod.splits sum.splits)
  have served: "Caches_opened \<in> set (en_events (serve M [Lock_acquired, Caches_opened] i t fs'))" for i t fs'
    by (auto simp: serve_def unopened split: prod.splits sum.splits)
  have "Caches_opened \<notin> set (en_events (locked_main M stores fs)) \<longrightarrow>
      en_stores (locked_main M stores fs) = stores \<and> en_files (locked_main M stores fs) = fs"
    unfolding locked_main_def Let_def
    by (auto simp: unopened served split: prod.splits sum.splits if_splits)
  then show ?thesis
    using assms locked_main_guarded [of M stores fs]
    by (auto simp: service_main_def Let_def guarded_short split: sum.splits option.splits prod.splits bool.splits)
qed

lemma flock_loop_denied:
  "0 < msecs \<Longrightarrow> msecs \<le> sleep_interval * int n \<Longrightarrow> flock_loop (replicate n Would_block) msecs = Some (Inr False)"
  by (induction n arbitrary: msecs) (auto simp: sleep_interval_def)

text \<open>
  A second instance gives up: when the lock is held by another process for all of the 100 polls of ten seconds, the program ends
  with status 1 and has touched neither the caches nor the files.
\<close>

theorem second_instance_gives_up:
  assumes "me_open_file M (me_cache_dir M @ ''/thumbnailer-service.lock'') = None"
    and "me_flock M = replicate 100 Would_block"
  shows "service_main M stores fs = Some \<lparr>en_status = Inr 1, en_events = [], en_stores = stores, en_files = fs\<rparr>"
  using assms flock_loop_denied [of 10000 100]
  by (simp add: service_main_def AdvisoryFileLock_def file_lock_lock_def caught_def sleep_interval_def)

section \<open>Samples\<close>

definition sample_main :: "flock_result list \<Rightarrow> (raw_pixbuf, size_callback \<times> string, mem) main_env" where
  "sample_main polls =
     \<lparr>me_env = sample_env, me_settings = sample_settings,
      me_release = \<lparr>major = 3, minor = 0, micro = 0, cache_version = 2\<rparr>, me_writable = (\<lambda>_. True), me_cache_dir = ''/c'',
      me_start = 0, me_end = 0, me_open_file = (\<lambda>_. None), me_flock = polls, me_max_idle = Some ''10'', me_arm = False,
      me_cores = 4, me_log_level = None, me_register = True, me_unregister = True, me_loop = (\<lambda>(i, t). (0, i, t))\<rparr>"

theorem service_guards_caches_witness:
  "\<exists>e. service_main (sample_main [Flock_ok]) ((False, []), (False, []), (False, [])) Map.empty = Some e \<and>
       en_status e = Inr 1 \<and> guarded (en_events e)"
proof -
  have "stoi ''10'' = Inr 10" by code_simp
  then obtain e where e: "service_main (sample_main [Flock_ok]) ((False, []), (False, []), (False, [])) Map.empty = Some e" "en_status e = Inr 1"
    by (simp add: service_main_def sample_main_def AdvisoryFileLock_def file_lock_lock_def locked_main_def InactivityHandler_def
        get_env_inactivity_time_def caught_def)
  with service_guards_caches [OF e(1)] show ?thesis by blast
qed

theorem second_instance_gives_up_witness:
  "en_status (the (service_main (sample_main (replicate 100 Would_block)) ((True, []), (False, []), (False, [])) Map.empty)) = Inr 1"
  by (subst second_instance_gives_up) (simp_all add: sample_main_def)

end
