(* ===== verification/Stats_Summary.thy ===== *)
theory Stats_Summary
  imports Service_Main
begin

text \<open>
  The summary of the caches that the service logs when it starts (\<open>get_summary\<close>, \<open>show_stats\<close> in \<open>src/service/main.cpp\<close>). The text is
  made by eight calls of \<open>QString::arg\<close>, each of which replaces the place markers with the lowest number in what the previous
  one has left. Division and formatting of floating-point numbers are arguments.
\<close>

section \<open>Place markers\<close>

text \<open>A text as \<open>QString::arg\<close> reads it: characters, and markers of one or two digits with their spelling.\<close>

type_synonym arg_piece = "char + nat \<times> string"

fun arg_pieces :: "string \<Rightarrow> arg_piece list" where
  "arg_pieces [] = []"
| "arg_pieces [c] = [Inl c]"
| "arg_pieces [c, d] = (if c = CHR ''%'' \<and> is_digit d then [Inr (digit_value d, [c, d])] else Inl c # arg_pieces [d])"
| "arg_pieces (c # d # d' # s) =
     (if c = CHR ''%'' \<and> is_digit d
      then (if is_digit d' then Inr (10 * digit_value d + digit_value d', [c, d, d']) # arg_pieces s
            else Inr (digit_value d, [c, d]) # arg_pieces (d' # s))
      else Inl c # arg_pieces (d # d' # s))"

fun piece_text :: "arg_piece \<Rightarrow> string" where
  "piece_text (Inl c) = [c]"
| "piece_text (Inr (n, t)) = t"

definition render :: "arg_piece list \<Rightarrow> string" where
  "render ps = concat (map piece_text ps)"

definition markers :: "arg_piece list \<Rightarrow> nat list" where
  "markers ps = [n. Inr (n, t) \<leftarrow> ps]"

definition fill :: "nat \<Rightarrow> string \<Rightarrow> arg_piece \<Rightarrow> arg_piece list" where
  "fill n a p = (case p of Inr (k, t) \<Rightarrow> if k = n then map Inl a else [p] | Inl c \<Rightarrow> [p])"

definition fill_lowest :: "string \<Rightarrow> arg_piece list \<Rightarrow> arg_piece list" where
  "fill_lowest a ps = (case markers ps of [] \<Rightarrow> ps | n # ns \<Rightarrow> concat (map (fill (fold min ns n) a) ps))"

definition qstring_arg :: "string \<Rightarrow> string \<Rightarrow> string" where
  "qstring_arg s a = render (fill_lowest a (arg_pieces s))"

section \<open>The summary\<close>

definition summary_template :: string where
  "summary_template = ''%1 %2, %3 bytes, hit rate %5 (%6/%7), avg hit run %8, avg miss run %9''"

text \<open>\<open>double_div\<close> is the quotient as a \<open>double\<close>, \<open>fmt_2f\<close> its text with two decimals, of width four, padded with zeros.\<close>

definition get_summary :: "(int \<Rightarrow> int \<Rightarrow> 64 word) \<Rightarrow> (64 word \<Rightarrow> string) \<Rightarrow> cache_stats \<Rightarrow> string" where
  "get_summary double_div fmt_2f st =
     (let hits = st_hits st; misses = st_misses st;
          hit_rate = (if hits + misses = 0 then 0 else double_div hits (hits + misses));
          entry_str = (if st_size st = 1 then ''entry'' else ''entries'')
      in fold (\<lambda>a s. qstring_arg s a)
           [int_to_string (st_size st), entry_str, int_to_string (st_size_in_bytes st), fmt_2f hit_rate, int_to_string hits,
            int_to_string misses, fmt_2f (st_avg_hit_run_length st), fmt_2f (st_avg_miss_run_length st)]
           summary_template)"

definition show_stats :: "('p, 'l, 'w) env \<Rightarrow> (cache_stats \<Rightarrow> string) \<Rightarrow> ('w thumbnailer, string list) act" where
  "show_stats E summary =
     act_bind (stats E) (\<lambda>st. act_ret
       [''image cache:     '' @ summary (full_size_stats st), ''thumbnail cache: '' @ summary (thumbnail_stats st),
        ''failure cache:   '' @ summary (failure_stats st)])"

section \<open>Sequential filling\<close>

text \<open>
  Pieces that are read again as they were written: no per-cent sign outside markers, and a one-digit marker is not
  followed by a digit. Filling keeps this if the inserted text has no per-cent sign and no marker stands directly before another one.
\<close>

fun reread :: "arg_piece list \<Rightarrow> bool" where
  "reread [] \<longleftrightarrow> True"
| "reread (Inl c # ps) \<longleftrightarrow> c \<noteq> CHR ''%'' \<and> reread ps"
| "reread [Inr (n, t)] \<longleftrightarrow> (\<exists>d. is_digit d \<and> t = [CHR ''%'', d] \<and> n = digit_value d)"
| "reread (Inr (n, t) # Inl c # ps) \<longleftrightarrow>
     (\<exists>d. is_digit d \<and> t = [CHR ''%'', d] \<and> n = digit_value d) \<and> \<not> is_digit c \<and> c \<noteq> CHR ''%'' \<and> reread ps"
| "reread (Inr _ # Inr _ # ps) \<longleftrightarrow> False"

lemma render_simps [simp]: "render [] = []" "render (p # ps) = piece_text p @ render ps" "render (ps @ qs) = render ps @ render qs"
  by (simp_all add: render_def)

lemma render_text [simp]: "render (map Inl s) = s"
  by (induction s) simp_all

lemma arg_pieces_other: "c \<noteq> CHR ''%'' \<Longrightarrow> arg_pieces (c # s) = Inl c # arg_pieces s"
  by (cases s rule: list.exhaust; cases "tl s") auto

lemma arg_pieces_marker:
  assumes "is_digit d" and "c \<noteq> CHR ''%''" "\<not> is_digit c"
  shows "arg_pieces (CHR ''%'' # d # c # s) = Inr (digit_value d, [CHR ''%'', d]) # Inl c # arg_pieces s"
  using assms by (simp add: arg_pieces_other)

lemma arg_pieces_render: "reread ps \<Longrightarrow> arg_pieces (render ps) = ps"
  by (induction ps rule: reread.induct) (auto simp: arg_pieces_other arg_pieces_marker)

lemma reread_text [simp]: "reread (map Inl a @ ps) \<longleftrightarrow> CHR ''%'' \<notin> set a \<and> reread ps" "reread (map Inl a) \<longleftrightarrow> CHR ''%'' \<notin> set a"
  by (induction a) auto

lemma reread_fill:
  assumes "CHR ''%'' \<notin> set a"
  shows "reread ps \<Longrightarrow> reread (concat (map (fill n a) ps))"
  using assms by (induction ps rule: reread.induct) (auto simp: fill_def)

lemma reread_fill_lowest: "CHR ''%'' \<notin> set a \<Longrightarrow> reread ps \<Longrightarrow> reread (fill_lowest a ps)"
  by (simp add: fill_lowest_def reread_fill split: list.split)

text \<open>Hence a chain of \<open>arg\<close> calls fills the markers of the template in the order of their numbers.\<close>

lemma qstring_arg_chain:
  assumes "reread ps" and "\<And>a. a \<in> set as \<Longrightarrow> CHR ''%'' \<notin> set a"
  shows "fold (\<lambda>a s. qstring_arg s a) as (render ps) = render (fold fill_lowest as ps)"
  using assms
proof (induction as arbitrary: ps)
  case (Cons a as)
  then have "reread (fill_lowest a ps)" by (simp add: reread_fill_lowest)
  with Cons show ?case by (simp add: qstring_arg_def arg_pieces_render)
qed simp

lemma markers_simps [simp]:
  "markers [] = []" "markers (Inl c # ps) = markers ps" "markers (Inr (n, t) # ps) = n # markers ps"
  "markers (map Inl s @ ps) = markers ps"
  by (simp_all add: markers_def)

lemma fill_text [simp]: "fill n a (Inl c) = [Inl c]" "fill n a (Inr (k, t)) = (if k = n then map Inl a else [Inr (k, t)])"
  "concat (map (fill n a \<circ> Inl) s) = map Inl s"
  by (simp_all add: fill_def) (induction s; simp add: fill_def)

lemma template_pieces:
  "arg_pieces summary_template =
     [Inr (1, ''%1''), Inl CHR '' '', Inr (2, ''%2''), Inl CHR '','', Inl CHR '' '', Inr (3, ''%3'')] @ map Inl '' bytes, hit rate '' @
     [Inr (5, ''%5''), Inl CHR '' '', Inl CHR ''('', Inr (6, ''%6''), Inl CHR ''/'', Inr (7, ''%7'')] @ map Inl ''), avg hit run '' @
     [Inr (8, ''%8'')] @ map Inl '', avg miss run '' @ [Inr (9, ''%9'')]"
  by code_simp

lemma template_reread: "reread (arg_pieces summary_template)" "render (arg_pieces summary_template) = summary_template"
  by (simp_all add: template_pieces is_digit_def digit_value_def) (simp add: summary_template_def)

text \<open>
  The summary shows all eight values, each in its place, although the template skips the marker \<open>%4\<close>: the chain of calls numbers
  the markers by their order.
\<close>

theorem summary_shows_all:
  assumes "\<And>w. CHR ''%'' \<notin> set (fmt_2f w)"
  shows "get_summary double_div fmt_2f st =
     int_to_string (st_size st) @ '' '' @ (if st_size st = 1 then ''entry'' else ''entries'') @ '', '' @
     int_to_string (st_size_in_bytes st) @ '' bytes, hit rate '' @
     fmt_2f (if st_hits st + st_misses st = 0 then 0 else double_div (st_hits st) (st_hits st + st_misses st)) @
     '' ('' @ int_to_string (st_hits st) @ ''/'' @ int_to_string (st_misses st) @ ''), avg hit run '' @
     fmt_2f (st_avg_hit_run_length st) @ '', avg miss run '' @ fmt_2f (st_avg_miss_run_length st)"
proof -
  define hr where "hr = fmt_2f (if st_hits st + st_misses st = 0 then 0 else double_div (st_hits st) (st_hits st + st_misses st))"
  define es where "es = (if st_size st = 1 then ''entry'' else ''entries'')"
  define as where "as = [int_to_string (st_size st), es, int_to_string (st_size_in_bytes st), hr, int_to_string (st_hits st),
      int_to_string (st_misses st), fmt_2f (st_avg_hit_run_length st), fmt_2f (st_avg_miss_run_length st)]"
  have "CHR ''%'' \<notin> set (int_to_string i)" for i using int_to_string_chars [of "CHR ''%''" i] by (auto simp: is_digit_def)
  then have "\<forall>a \<in> set as. CHR ''%'' \<notin> set a" using assms by (simp add: as_def es_def hr_def)
  then have "fold (\<lambda>a s. qstring_arg s a) as summary_template = render (fold fill_lowest as (arg_pieces summary_template))"
    using qstring_arg_chain [OF template_reread(1), of as] by (simp add: template_reread(2))
  then have "get_summary double_div fmt_2f st = render (fold fill_lowest as (arg_pieces summary_template))"
    by (simp add: get_summary_def Let_def as_def hr_def es_def)
  then show ?thesis
    by (simp add: template_pieces as_def fill_lowest_def flip: hr_def es_def)
qed

end
