(* ===== verification/Service_Instances.thy ===== *)
theory Service_Instances
  imports Service_Main
begin

text \<open>
  Several instances of the service on one machine: the bus may start a new one while an old one is still shutting down. Each runs
  \<open>main\<close> of \<open>src/service/main.cpp\<close>; the lock file of \<open>src/file_lock.cpp\<close> is what they share. The kernel gives the exclusive lock to one
  open file at a time, and frees it when the descriptor is closed, by the destructor or at the end of the process.
\<close>

section \<open>Instances\<close>

text \<open>What an instance has done, and what it will still do; an empty pair is an instance that does not run.\<close>

type_synonym svc_instance = "svc_event list \<times> svc_event list"

definition holds_lock :: "svc_instance \<Rightarrow> bool" where
  "holds_lock p \<longleftrightarrow> Lock_acquired \<in> set (fst p) \<and> Lock_given_up \<notin> set (fst p)"

definition has_caches :: "svc_instance \<Rightarrow> bool" where
  "has_caches p \<longleftrightarrow> Caches_opened \<in> set (fst p) \<and> Caches_closed \<notin> set (fst p)"

text \<open>
  An instance is started, does its next event, or ends: normally, or by being killed at any time. The events are those of a run of
  \<open>service_main\<close> in an environment of the set \<open>Ms\<close>; the lock is granted only while no other instance holds it.
\<close>

inductive instance_step :: "('p, 'l, 'w) main_env set \<Rightarrow> (nat \<Rightarrow> svc_instance) \<Rightarrow> (nat \<Rightarrow> svc_instance) \<Rightarrow> bool" for Ms where
  Start: "P i = ([], []) \<Longrightarrow> M \<in> Ms \<Longrightarrow> service_main M stores fs = Some e \<Longrightarrow> instance_step Ms P (P(i := ([], en_events e)))"
| Next: "P i = (d, ev # t) \<Longrightarrow> (ev = Lock_acquired \<Longrightarrow> \<forall>j. j \<noteq> i \<longrightarrow> \<not> holds_lock (P j)) \<Longrightarrow> instance_step Ms P (P(i := (d @ [ev], t)))"
| Ends: "instance_step Ms P (P(i := ([], [])))"

definition no_instances :: "nat \<Rightarrow> svc_instance" where
  "no_instances = (\<lambda>_. ([], []))"

section \<open>Exclusion\<close>

text \<open>Runs stopped at any point: with open caches the lock is held.\<close>

fun lock_around :: "svc_event list \<Rightarrow> svc_event list \<Rightarrow> bool" where
  "lock_around d [] \<longleftrightarrow> (has_caches (d, []) \<longrightarrow> holds_lock (d, []))"
| "lock_around d (ev # t) \<longleftrightarrow> (has_caches (d, ev # t) \<longrightarrow> holds_lock (d, ev # t)) \<and> lock_around (d @ [ev]) t"

lemma lock_around_now: "lock_around d t \<Longrightarrow> has_caches (d, t) \<Longrightarrow> holds_lock (d, t)"
  by (cases t) auto

lemma in_order_subseqs: "in_order xs ys \<Longrightarrow> xs \<in> set (subseqs ys)"
proof (induction xs ys rule: in_order.induct)
  case (1 ys)
  then show ?case by (induction ys) (auto simp: Let_def)
next
  case (3 x xs y ys)
  then show ?case by (auto simp: Let_def split: if_splits)
qed auto

lemma life_cycle_locks: "list_all (\<lambda>evs. guarded evs \<longrightarrow> lock_around [] evs) (subseqs life_cycle)"
  by code_simp

lemma guarded_locks: "guarded evs \<Longrightarrow> lock_around [] evs"
  using life_cycle_locks in_order_subseqs [of evs life_cycle] by (auto simp: guarded_def list_all_iff)

lemma service_main_guarded:
  assumes "service_main M stores fs = Some e"
  shows "guarded (en_events e)"
  using assms locked_main_guarded [of M stores fs]
  by (auto simp: service_main_def Let_def guarded_short split: sum.splits option.splits prod.splits bool.splits)

definition instances_inv :: "(nat \<Rightarrow> svc_instance) \<Rightarrow> bool" where
  "instances_inv P \<longleftrightarrow> (\<forall>i. lock_around (fst (P i)) (snd (P i))) \<and> (\<forall>i j. holds_lock (P i) \<and> holds_lock (P j) \<longrightarrow> i = j)"

lemma instance_step_inv:
  assumes "instance_step Ms P P'" and "instances_inv P"
  shows "instances_inv P'"
  using assms(1)
proof cases
  case (Start i M stores fs e)
  have "lock_around [] (en_events e)" by (rule guarded_locks [OF service_main_guarded [OF Start(4)]])
  with Start(1) assms(2) show ?thesis by (auto simp: instances_inv_def holds_lock_def)
next
  case (Next i d ev t)
  have "lock_around (fst (P i)) (snd (P i))" using assms(2) by (simp add: instances_inv_def)
  then have "lock_around (d @ [ev]) t" using Next(2) by simp
  moreover have "holds_lock (P i) \<or> ev = Lock_acquired" if "holds_lock (d @ [ev], t)" using that Next(2) by (auto simp: holds_lock_def)
  ultimately show ?thesis using assms(2) Next(1,3) by (auto simp: instances_inv_def)
next
  case (Ends i)
  then show ?thesis using assms(2) by (auto simp: instances_inv_def holds_lock_def has_caches_def)
qed

lemma instances_reach_inv:
  assumes "(instance_step Ms)\<^sup>*\<^sup>* no_instances P"
  shows "instances_inv P"
  using assms
proof (induction rule: rtranclp_induct)
  case base
  then show ?case by (simp add: instances_inv_def no_instances_def holds_lock_def has_caches_def)
qed (rule instance_step_inv)

text \<open>
  C24. The caches have one owner: however many instances are started, overlap, fail or are killed, at no moment do two of them have the
  caches open, and one that has them open holds the lock.
\<close>

theorem caches_have_one_owner:
  assumes "(instance_step Ms)\<^sup>*\<^sup>* no_instances P"
  shows "(has_caches (P i) \<longrightarrow> holds_lock (P i)) \<and> (has_caches (P i) \<and> has_caches (P j) \<longrightarrow> i = j)"
proof -
  have inv: "instances_inv P" by (rule instances_reach_inv [OF assms])
  then have "has_caches (P k) \<longrightarrow> holds_lock (P k)" for k
    using lock_around_now [of "fst (P k)" "snd (P k)"] by (auto simp: instances_inv_def)
  with inv show ?thesis by (auto simp: instances_inv_def)
qed

section \<open>A sample\<close>

definition sample_main_run :: "(raw_pixbuf, size_callback \<times> string, mem) main_env" where
  "sample_main_run = (sample_main [Flock_ok])\<lparr>me_max_idle := None\<rparr>"

lemma leave_scope_starts: "\<exists>t. en_events (leave_scope M r (a # b # evs) i th fs) = a # b # t"
  by (auto simp: leave_scope_def split: prod.splits sum.splits)

lemma serve_starts: "\<exists>t. en_events (serve M [a, b] i th fs) = a # b # t"
  using leave_scope_starts [of M _ a b _ i] by (auto simp: serve_def leave_scope_def split: prod.splits sum.splits)

lemma sample_main_run_events:
  "\<exists>e t. service_main sample_main_run ((False, []), (False, []), (False, [])) Map.empty = Some e \<and>
     en_events e = Lock_acquired # Caches_opened # t"
  using serve_starts leave_scope_starts
  by (auto simp: service_main_def sample_main_run_def sample_main_def AdvisoryFileLock_def file_lock_lock_def locked_main_def
      InactivityHandler_def get_env_inactivity_time_def MAX_INACTIVITY_TIME_def split: prod.splits sum.splits)

lemma sample_two_instances:
  "\<exists>P. (instance_step {sample_main_run})\<^sup>*\<^sup>* no_instances P \<and> has_caches (P 0) \<and> snd (P 1) \<noteq> []"
proof -
  obtain e t where e: "service_main sample_main_run ((False, []), (False, []), (False, [])) Map.empty = Some e"
    and ev: "en_events e = Lock_acquired # Caches_opened # t" using sample_main_run_events by blast
  let ?P1 = "no_instances(0 := ([], en_events e))"
  let ?P2 = "?P1(1 := ([], en_events e))"
  let ?P3 = "?P2(0 := ([] @ [Lock_acquired], Caches_opened # t))"
  let ?P4 = "?P3(0 := ([Lock_acquired] @ [Caches_opened], t))"
  have "instance_step {sample_main_run} no_instances ?P1" by (rule instance_step.Start [OF _ _ e]) (simp_all add: no_instances_def)
  moreover have "instance_step {sample_main_run} ?P1 ?P2" by (rule instance_step.Start [OF _ _ e]) (simp_all add: no_instances_def)
  moreover have "instance_step {sample_main_run} ?P2 ?P3"
    by (rule instance_step.Next) (auto simp: no_instances_def holds_lock_def ev)
  moreover have "instance_step {sample_main_run} ?P3 ?P4" by (rule instance_step.Next) auto
  ultimately have "(instance_step {sample_main_run})\<^sup>*\<^sup>* no_instances ?P4" by (meson converse_rtranclp_into_rtranclp rtranclp.rtrancl_refl)
  then show ?thesis by (intro exI [of _ ?P4]) (simp add: has_caches_def ev)
qed

theorem caches_have_one_owner_witness:
  "\<exists>P. (instance_step {sample_main_run})\<^sup>*\<^sup>* no_instances P \<and> has_caches (P 0) \<and> holds_lock (P 0) \<and> \<not> has_caches (P 1)"
proof -
  obtain P where P: "(instance_step {sample_main_run})\<^sup>*\<^sup>* no_instances P" "has_caches (P 0)" using sample_two_instances by blast
  from caches_have_one_owner [OF P(1), of 0 1] P show ?thesis by auto
qed

end
