(* ===== verification/Request_Contract.thy ===== *)
theory Request_Contract
  imports Client_Slots
begin

text \<open>
  The public classes \<open>Request\<close> and \<open>Thumbnailer\<close> of the client library (\<open>include/unity/thumbnailer/qt/thumbnailer-qt.h\<close>, with the forwarding
  functions of \<open>src/libthumbnailer-qt/libthumbnailer-qt.cpp\<close>), and what an application sees through them: a request is a
  small state machine whose results are final. The library's operations are shown to refine it.
\<close>

section \<open>The public interface\<close>

text \<open>Class \<open>Request\<close> forwards to the \<open>RequestImpl\<close> behind \<open>p_\<close>; calls on a destroyed request use a null pointer.\<close>

definition forward :: "('i request_impl \<Rightarrow> 'a) \<Rightarrow> nat \<Rightarrow> 'i client \<Rightarrow> 'a result" where
  "forward f i c = (case get_req i c of None \<Rightarrow> Inl (Null_deref ''p_'') | Some r \<Rightarrow> Inr (f r))"

definition Request_isFinished :: "nat \<Rightarrow> 'i client \<Rightarrow> bool result" where
  "Request_isFinished = forward ri_finished"

definition Request_image :: "nat \<Rightarrow> 'i client \<Rightarrow> 'i option result" where
  "Request_image = forward ri_image"

definition Request_errorMessage :: "nat \<Rightarrow> 'i client \<Rightarrow> string result" where
  "Request_errorMessage = forward ri_error_message"

definition Request_isValid :: "nat \<Rightarrow> 'i client \<Rightarrow> bool result" where
  "Request_isValid = forward ri_is_valid"

definition Request_isCancelled :: "nat \<Rightarrow> 'i client \<Rightarrow> bool result" where
  "Request_isCancelled = forward ri_cancelled"

definition Request_waitForFinished :: "(string \<Rightarrow> 'i option) \<Rightarrow> string + string \<Rightarrow> nat \<Rightarrow> ('i client, unit) act" where
  "Request_waitForFinished fromData reply i = waitForFinished_request fromData reply i"

definition Request_cancel :: "nat \<Rightarrow> ('i client, unit) act" where
  "Request_cancel i = cancel_request i"

definition Request_destroy :: "nat \<Rightarrow> 'i client \<Rightarrow> 'i client" where
  "Request_destroy i c = RequestImpl_destroy i c"

text \<open>Class \<open>Thumbnailer\<close>; the bus connection plays no part here, so that the two constructors are one.\<close>

definition Thumbnailer_client :: "int \<Rightarrow> int option \<Rightarrow> 'i client result" where
  "Thumbnailer_client max_backlog_default config = ThumbnailerImpl max_backlog_default config"

definition Thumbnailer_getAlbumArt :: "nat \<Rightarrow> string \<Rightarrow> string \<Rightarrow> qsize \<Rightarrow> ('i client, dbus_call) act" where
  "Thumbnailer_getAlbumArt i artist album requestedSize = getAlbumArt i artist album requestedSize"

definition Thumbnailer_getArtistArt :: "nat \<Rightarrow> string \<Rightarrow> string \<Rightarrow> qsize \<Rightarrow> ('i client, dbus_call) act" where
  "Thumbnailer_getArtistArt i artist album requestedSize = getArtistArt i artist album requestedSize"

definition Thumbnailer_getThumbnail :: "(string \<Rightarrow> string result) \<Rightarrow> nat \<Rightarrow> string \<Rightarrow> qsize \<Rightarrow> ('i client, dbus_call) act" where
  "Thumbnailer_getThumbnail canonical i filePath requestedSize = getThumbnail canonical i filePath requestedSize"

text \<open>
  What can happen to a client: the events of \<open>Client_Slots\<close>, and the queued \<open>finished\<close> signal of a request that was refused for its size.
\<close>

datatype api_event = Library client_event | Finished_call nat

fun api_possible :: "api_event \<Rightarrow> 'i client \<Rightarrow> bool" where
  "api_possible (Library e) c \<longleftrightarrow> possible e c"
| "api_possible (Finished_call i) c \<longleftrightarrow> i \<in> set (cl_finished_calls c)"

fun api_step :: "(string \<Rightarrow> 'i option) \<Rightarrow> api_event \<Rightarrow> ('i client, unit) act" where
  "api_step fromData (Library e) c = client_step fromData e c"
| "api_step fromData (Finished_call i) c =
     (Inr (), upd_req i (\<lambda>r. r\<lparr>ri_signals := Suc (ri_signals r)\<rparr>) (c\<lparr>cl_finished_calls := remove1 i (cl_finished_calls c)\<rparr>))"

inductive api_run :: "(string \<Rightarrow> 'i option) \<Rightarrow> 'i client \<Rightarrow> 'i client \<Rightarrow> bool" for fromData c0 where
  Api_start: "api_run fromData c0 c0"
| Api_event: "api_run fromData c0 c \<Longrightarrow> api_possible e c \<Longrightarrow> api_step fromData e c = (Inr (), c') \<Longrightarrow> api_run fromData c0 c'"

section \<open>The documented state machine\<close>

text \<open>The last argument of \<open>Failed\<close>: whether the request was cancelled.\<close>

datatype 'i phase = In_progress | Cancelling | Succeeded "'i option" | Failed string bool

inductive phase_step :: "'i phase \<Rightarrow> 'i phase \<Rightarrow> bool" where
  "phase_step In_progress Cancelling"
| "phase_step In_progress (Succeeded im)"
| "m \<noteq> [] \<Longrightarrow> phase_step In_progress (Failed m False)"
| "phase_step Cancelling (Failed ''Request cancelled'' True)"

inductive_simps phase_step_simps [simp]:
  "phase_step In_progress p" "phase_step Cancelling p" "phase_step (Succeeded im) p" "phase_step (Failed m b) p"

text \<open>What the accessors show: finished, image, error message, valid, cancelled.\<close>

fun phase_view :: "'i phase \<Rightarrow> bool \<times> 'i option \<times> string \<times> bool \<times> bool" where
  "phase_view In_progress = (False, None, [], False, False)"
| "phase_view Cancelling = (False, None, [], False, True)"
| "phase_view (Succeeded im) = (True, im, [], True, False)"
| "phase_view (Failed m b) = (True, None, m, False, b)"

definition accessors :: "'i request_impl \<Rightarrow> bool \<times> 'i option \<times> string \<times> bool \<times> bool" where
  "accessors r = (ri_finished r, ri_image r, ri_error_message r, ri_is_valid r, ri_cancelled r)"

definition phase_of :: "'i request_impl \<Rightarrow> 'i phase" where
  "phase_of r =
     (if ri_is_valid r then Succeeded (ri_image r)
      else if ri_finished r then Failed (ri_error_message r) (ri_cancelled r)
      else if ri_cancelled r then Cancelling else In_progress)"

text \<open>A request that looks like its phase.\<close>

definition in_phase :: "'i request_impl \<Rightarrow> bool" where
  "in_phase r \<longleftrightarrow> accessors r = phase_view (phase_of r) \<and> (\<forall>m b. phase_of r = Failed m b \<longrightarrow> m \<noteq> [])"

section \<open>What operations change\<close>

text \<open>The visible members; sending a request and the limiter's bookkeeping do not change them.\<close>

definition visible :: "'i request_impl \<Rightarrow> (bool \<times> 'i option \<times> string \<times> bool \<times> bool) \<times> qsize \<times> nat" where
  "visible r = (accessors r, ri_size r, ri_signals r)"

definition seen :: "'i client \<Rightarrow> (nat \<Rightarrow> ((bool \<times> 'i option \<times> string \<times> bool \<times> bool) \<times> qsize \<times> nat) option) \<times> nat list" where
  "seen c = ((\<lambda>i. map_option visible (get_req i c)), cl_finished_calls c)"

lemma seen_send: "seen (send_request j c) = seen c"
  by (auto simp: seen_def send_request_def get_upd_req fun_eq_iff visible_def accessors_def option.map_comp comp_def
      intro!: option.map_cong)

lemma seen_fold_send: "seen (fold send_request js c) = seen c"
  by (induction js arbitrary: c) (simp_all add: seen_send)

lemma seen_fields [simp]:
  "seen (c\<lparr>cl_limiter := l\<rparr>) = seen c" "seen (c\<lparr>cl_fakes := fs\<rparr>) = seen c" "seen (c\<lparr>cl_pumps := n\<rparr>) = seen c"
  by (simp_all add: seen_def)

lemma leaves_on_limiter: "leaves seen (on_limiter f)"
  by (auto simp: leaves_def on_limiter_def seen_fold_send split: prod.splits)

lemma leaves_call_cancel: "leaves seen (call_cancel r)"
  by (auto simp: leaves_def call_cancel_def split: option.splits prod.splits)

lemma seen_upd:
  assumes "get_req i c = Some r"
  shows "seen (upd_req i f c) = ((fst (seen c))(i \<mapsto> visible (f r)), cl_finished_calls c)"
  using assms by (auto simp: seen_def get_upd_req fun_eq_iff)

text \<open>One operation moves the request \<open>i\<close> at most one step on, and leaves what is visible of the others alone.\<close>

definition advance :: "'i request_impl \<Rightarrow> 'i request_impl \<Rightarrow> bool" where
  "advance r r' \<longleftrightarrow>
     visible r' = visible r \<or>
     phase_step (phase_of r) (phase_of r') \<and> in_phase r' \<and> ri_size r' = ri_size r \<and>
     ri_signals r' = ri_signals r + of_bool (ri_finished r')"

definition moves :: "nat \<Rightarrow> 'i client \<Rightarrow> 'i client \<Rightarrow> bool" where
  "moves i c c' \<longleftrightarrow>
     cl_finished_calls c' = cl_finished_calls c \<and>
     (\<forall>j. j \<noteq> i \<longrightarrow> map_option visible (get_req j c') = map_option visible (get_req j c)) \<and>
     (\<exists>r r'. get_req i c = Some r \<and> get_req i c' = Some r' \<and> advance r r')"

lemma visible_eqD:
  "visible r' = visible r \<Longrightarrow> accessors r' = accessors r \<and> phase_of r' = phase_of r \<and> in_phase r' = in_phase r \<and>
     ri_size r' = ri_size r \<and> ri_signals r' = ri_signals r \<and> ri_finished r' = ri_finished r \<and> ri_cancelled r' = ri_cancelled r"
  by (auto simp: visible_def accessors_def phase_of_def in_phase_def)

lemma seen_eqD:
  assumes "seen c' = seen c"
  shows "cl_finished_calls c' = cl_finished_calls c" "map_option visible (get_req j c') = map_option visible (get_req j c)"
  using assms by (auto simp: seen_def fun_eq_iff)

lemma same_visible: "map_option visible x = map_option visible y \<Longrightarrow> y = Some r \<Longrightarrow> \<exists>r'. x = Some r' \<and> visible r' = visible r"
  by (cases x) auto

lemma moves_seen:
  assumes "seen c1 = seen c" and "moves i c1 c'"
  shows "moves i c c'"
proof -
  obtain r1 r' where r1: "get_req i c1 = Some r1" "get_req i c' = Some r'" "advance r1 r'" using assms(2) by (auto simp: moves_def)
  with seen_eqD(2) [OF assms(1), of i] obtain r where r: "get_req i c = Some r" "visible r1 = visible r" by (cases "get_req i c") auto
  with r1 visible_eqD [OF r(2)] have "advance r r'" by (auto simp: advance_def)
  with assms(2) seen_eqD [OF assms(1)] r(1) r1(2) show ?thesis by (auto simp: moves_def)
qed

lemma moves_then_seen:
  assumes "moves i c c1" and "seen c' = seen c1"
  shows "moves i c c'"
proof -
  obtain r r1 where r: "get_req i c = Some r" "get_req i c1 = Some r1" "advance r r1" using assms(1) by (auto simp: moves_def)
  with seen_eqD(2) [OF assms(2), of i] obtain r' where r': "get_req i c' = Some r'" "visible r' = visible r1"
    by (cases "get_req i c'") auto
  with r visible_eqD [OF r'(2)] have "advance r r'" by (auto simp: advance_def)
  with assms(1) seen_eqD [OF assms(2)] r(1) r'(1) show ?thesis by (auto simp: moves_def)
qed

lemma moves_stay:
  assumes "seen c' = seen c" and "get_req i c = Some r"
  shows "moves i c c'"
  by (rule moves_then_seen [OF _ assms(1)]) (use assms(2) in \<open>simp add: moves_def advance_def\<close>)

lemma moves_upd:
  assumes "get_req i c = Some r" and "advance r (f r)"
  shows "moves i c (upd_req i f c)"
  using assms by (auto simp: moves_def get_upd_req)

text \<open>An unfinished request, as its phase says, ends with an error or an image, or begins to be cancelled.\<close>

lemma advance_error:
  assumes "in_phase r" "\<not> ri_finished r" "m \<noteq> []" "ri_cancelled r \<longrightarrow> m = ''Request cancelled''"
  shows "advance r (r\<lparr>ri_error_message := m, ri_finished := True, ri_is_valid := False, ri_image := None, ri_watcher := False,
           ri_signals := Suc (ri_signals r)\<rparr>)"
  using assms by (auto simp: advance_def phase_of_def in_phase_def accessors_def split: if_splits)

lemma advance_image:
  assumes "in_phase r" "\<not> ri_finished r" "\<not> ri_cancelled r"
  shows "advance r (r\<lparr>ri_image := im, ri_finished := True, ri_is_valid := True, ri_error_message := [],
           ri_signals := Suc (ri_signals r), ri_watcher := False\<rparr>)"
  using assms by (auto simp: advance_def phase_of_def in_phase_def accessors_def split: if_splits)

lemma dbusCallFinished_moves:
  assumes "dbusCallFinished fromData reply i c = (Inr (), c')" and "get_req i c = Some r" "in_phase r"
  shows "moves i c c'"
proof -
  obtain c1 where c1: "seen c1 = seen c"
      "(if ri_cancelled r then finishWithError ''Request cancelled'' i
        else if \<not> ri_watcher r then act_throw (Assertion ''watcher_'')
        else case reply of
               Inl err \<Rightarrow> finishWithError (''Thumbnailer: RequestImpl::dbusCallFinished(): D-Bus error: '' @ err) i
             | Inr bytes \<Rightarrow>
                 act_modify (upd_req i (\<lambda>r. r\<lparr>ri_image := fromData bytes, ri_finished := True, ri_is_valid := True,
                   ri_error_message := [], ri_signals := Suc (ri_signals r), ri_watcher := False\<rparr>))) c1 = (Inr (), c')"
    and nf: "\<not> ri_finished r"
    using assms(1,2) leavesD [OF leaves_on_limiter, of "limiter_done sends" c]
    by (auto simp: dbusCallFinished_def act_bind_def split: if_splits prod.splits sum.splits)
  obtain r1 where r1: "get_req i c1 = Some r1" "visible r1 = visible r"
    using seen_eqD(2) [OF c1(1), of i] assms(2) by (cases "get_req i c1") auto
  note v = visible_eqD [OF r1(2)]
  have "moves i c1 c'"
    using c1(2) advance_error [of r1] advance_image [of r1] v nf assms(3)
    by (auto simp: finishWithError_def split: if_splits sum.splits intro!: moves_upd [OF r1(1)])
  with c1(1) show ?thesis by (rule moves_seen)
qed

lemma cancel_request_moves:
  assumes "cancel_request i c = (Inr (), c')" and "get_req i c = Some r" "in_phase r"
  shows "moves i c c'"
proof (cases "ri_finished r \<or> ri_cancelled r")
  case True
  with assms show ?thesis by (simp add: cancel_request_def moves_stay)
next
  case False
  let ?c1 = "upd_req i (\<lambda>r. r\<lparr>ri_cancelled := True\<rparr>) c"
  obtain b c2 where c2: "call_cancel r ?c1 = (Inr b, c2)"
      "c' = (let c3 = upd_req i (\<lambda>r. r\<lparr>ri_cancelled_while_waiting := b\<rparr>) c2 in if b then c3\<lparr>cl_fakes := cl_fakes c3 @ [i]\<rparr> else c3)"
    using assms(1,2) False by (auto simp: cancel_request_def act_bind_def split: prod.splits sum.splits)
  have s2: "seen c2 = seen ?c1" using leavesD [OF leaves_call_cancel c2(1)] .
  have "seen (upd_req i (\<lambda>r. r\<lparr>ri_cancelled_while_waiting := b\<rparr>) c2) = seen c2"
    by (auto simp: seen_def get_upd_req fun_eq_iff visible_def accessors_def option.map_comp comp_def intro!: option.map_cong)
  then have "seen c' = seen ?c1" using c2(2) s2 by (cases b) (simp_all add: Let_def)
  moreover have "moves i c ?c1"
    using False assms(3) by (intro moves_upd [OF assms(2)]) (auto simp: advance_def phase_of_def in_phase_def accessors_def)
  ultimately show ?thesis by (blast intro: moves_then_seen)
qed

lemma wait_moves:
  assumes "waitForFinished_request fromData reply i c = (Inr (), c')" and "get_req i c = Some r" "in_phase r"
  shows "moves i c c'"
proof (cases "ri_finished r \<or> ri_cancelled r")
  case True
  with assms show ?thesis by (simp add: waitForFinished_request_def moves_stay)
next
  case False
  then obtain b c1 where c1: "call_cancel r c = (Inr b, c1)"
      "act_bind (if b then (if ri_watcher r then act_throw (Assertion ''!watcher_'')
                            else act_bind (on_limiter (schedule_now sends i)) (\<lambda>_. act_ret ()))
                 else if ri_watcher r then act_ret () else act_throw (Null_deref ''watcher_'')) (\<lambda>_.
       dbusCallFinished fromData reply i) c1 = (Inr (), c')"
    using assms(1,2) by (auto simp: waitForFinished_request_def act_bind_def split: prod.splits sum.splits)
  have "leaves seen (if b then (if ri_watcher r then act_throw (Assertion ''!watcher_'')
                            else act_bind (on_limiter (schedule_now sends i)) (\<lambda>_. act_ret ()))
                 else if ri_watcher r then act_ret () else act_throw (Null_deref ''watcher_''))"
    by (intro leaves_intros leaves_on_limiter)
  with c1(2) obtain c2 where c2: "seen c2 = seen c1" "dbusCallFinished fromData reply i c2 = (Inr (), c')"
    by (auto simp: act_bind_Inr_iff dest: leavesD)
  with leavesD [OF leaves_call_cancel c1(1)] have s: "seen c2 = seen c" by simp
  obtain r2 where r2: "get_req i c2 = Some r2" "visible r2 = visible r"
    using seen_eqD(2) [OF s, of i] assms(2) by (cases "get_req i c2") auto
  from dbusCallFinished_moves [OF c2(2) r2(1)] visible_eqD [OF r2(2)] assms(3) have "moves i c2 c'" by simp
  with s show ?thesis by (rule moves_seen)
qed

section \<open>The invariant\<close>

definition contract :: "'i client \<Rightarrow> bool" where
  "contract c \<longleftrightarrow>
     (\<forall>i r. get_req i c = Some r \<longrightarrow>
        in_phase r \<and> (\<not> isValid (ri_size r) \<longrightarrow> ri_signals r + count_list (cl_finished_calls c) i = 1)) \<and>
     (\<forall>i \<in> set (cl_finished_calls c). \<exists>r. get_req i c = Some r \<and> \<not> isValid (ri_size r))"

lemma contractD:
  assumes "contract c" and "get_req i c = Some r"
  shows "in_phase r" "\<not> isValid (ri_size r) \<Longrightarrow> ri_signals r + count_list (cl_finished_calls c) i = 1"
    "isValid (ri_size r) \<Longrightarrow> i \<notin> set (cl_finished_calls c)"
proof -
  show "in_phase r" "\<not> isValid (ri_size r) \<Longrightarrow> ri_signals r + count_list (cl_finished_calls c) i = 1"
    using assms by (simp_all add: contract_def)
  show "i \<notin> set (cl_finished_calls c)" if "isValid (ri_size r)"
    using assms that by (force simp: contract_def)
qed

lemma contract_moves:
  assumes ct: "contract c" and mv: "moves i c c'" and fin: "\<And>r. get_req i c = Some r \<Longrightarrow> \<not> isValid (ri_size r) \<Longrightarrow> ri_finished r"
  shows "contract c'"
proof -
  have calls: "cl_finished_calls c' = cl_finished_calls c" using mv by (simp add: moves_def)
  have prev: "\<exists>r. get_req j c = Some r \<and> (advance r r')" if "get_req j c' = Some r'" for j r'
  proof (cases "j = i")
    case False
    with mv that have "map_option visible (Some r') = map_option visible (get_req j c)" by (auto simp: moves_def dest: spec [of _ j])
    then show ?thesis by (cases "get_req j c") (auto simp: advance_def)
  qed (use mv that in \<open>auto simp: moves_def\<close>)
  have size: "ri_size r' = ri_size r" if "advance r r'" for r r' :: "'a request_impl" using that by (auto simp: advance_def dest: visible_eqD)
  have "in_phase r' \<and> (\<not> isValid (ri_size r') \<longrightarrow> ri_signals r' + count_list (cl_finished_calls c') j = 1)"
    if g: "get_req j c' = Some r'" for j r'
  proof -
    obtain r where r: "get_req j c = Some r" "advance r r'" using prev [OF g] by blast
    have "visible r' = visible r" if "\<not> isValid (ri_size r)"
    proof (cases "j = i")
      case True
      with fin r(1) that have "ri_finished r" by simp
      with contractD(1) [OF ct r(1)] r(2) show ?thesis
        by (auto simp: advance_def phase_of_def in_phase_def accessors_def split: if_splits)
    next
      case False
      with mv r(1) g show ?thesis by (auto simp: moves_def dest: spec [of _ j])
    qed
    with contractD [OF ct r(1)] r(2) size [OF r(2)] calls visible_eqD [of r' r] show ?thesis
      by (cases "isValid (ri_size r)") (auto simp: advance_def)
  qed
  moreover have "\<exists>r'. get_req j c' = Some r' \<and> \<not> isValid (ri_size r')" if j: "j \<in> set (cl_finished_calls c')" for j
  proof -
    obtain r where r: "get_req j c = Some r" "\<not> isValid (ri_size r)" using ct j calls by (auto simp: contract_def)
    have "\<exists>r'. get_req j c' = Some r'" using mv r(1) same_visible [of "get_req j c'" "get_req j c" r] by (cases "j = i") (auto simp: moves_def)
    then obtain r' where "get_req j c' = Some r'" by blast
    with prev [OF this] size r show ?thesis by fastforce
  qed
  ultimately show ?thesis by (simp add: contract_def)
qed

definition refused_request :: "string \<Rightarrow> qsize \<Rightarrow> 'i request_impl" where
  "refused_request details sz = (new_request details sz)\<lparr>ri_error_message := details @ '': invalid QSize'', ri_finished := True\<rparr>"

lemma seen_add: "seen (c\<lparr>cl_reqs := (i, r) # cl_reqs c\<rparr>) = ((fst (seen c))(i \<mapsto> visible r), cl_finished_calls c)"
  by (auto simp: seen_def get_req_add fun_eq_iff)

lemma createRequest_seen:
  assumes "createRequest i details sz c = (Inr (), c')"
  shows "seen c' =
     ((fst (seen c))(i \<mapsto> visible (if isValid sz then new_request details sz else refused_request details sz)),
      cl_finished_calls c @ (if isValid sz then [] else [i]))"
proof (cases "isValid sz")
  case False
  let ?c1 = "c\<lparr>cl_reqs := (i, refused_request details sz) # cl_reqs c\<rparr>"
  have "c' = ?c1\<lparr>cl_finished_calls := cl_finished_calls c @ [i]\<rparr>"
    using assms False
    by (simp add: createRequest_def RequestImpl_def act_bind_def get_req_add Let_def refused_request_def new_request_def)
  then show ?thesis using False seen_add [of i "refused_request details sz" c] by (simp add: seen_def)
next
  case True
  let ?c1 = "c\<lparr>cl_reqs := (i, new_request details sz) # cl_reqs c\<rparr>"
  obtain cf c2 where c2: "on_limiter (schedule sends i) ?c1 = (Inr cf, c2)"
      "createRequest i details sz c =
         (let c3 = upd_req i (\<lambda>r. r\<lparr>ri_cancel_func := Some cf\<rparr>) c2
          in case get_req i c3 of
               Some r \<Rightarrow> (Inr (), if ri_finished r \<and> \<not> ri_is_valid r then c3\<lparr>cl_finished_calls := cl_finished_calls c3 @ [i]\<rparr> else c3)
             | None \<Rightarrow> (Inl (Null_deref ''request''), c3))"
    using assms True by (auto simp: createRequest_def RequestImpl_def act_bind_def split: prod.splits sum.splits)
  define c3 where "c3 = upd_req i (\<lambda>r. r\<lparr>ri_cancel_func := Some cf\<rparr>) c2"
  have "seen c2 = seen ?c1" by (rule leavesD [OF leaves_on_limiter c2(1)])
  moreover have "seen c3 = seen c2"
    by (auto simp: c3_def seen_def get_upd_req fun_eq_iff visible_def accessors_def option.map_comp comp_def intro!: option.map_cong)
  ultimately have s3: "seen c3 = seen ?c1" by simp
  then have "map_option visible (get_req i c3) = Some (visible (new_request details sz))"
    by (auto simp: seen_def get_req_add fun_eq_iff dest: spec [of _ i])
  then obtain r where "get_req i c3 = Some r" "visible r = visible (new_request details sz)" by auto
  with assms c2(2) visible_eqD [of r "new_request details sz"] have "c' = c3"
    by (auto simp: new_request_def Let_def simp flip: c3_def split: if_splits)
  with s3 True show ?thesis by (simp add: seen_add)
qed

lemma contract_new:
  assumes ct: "contract c" and new: "get_req i c = None" and step: "createRequest i details sz c = (Inr (), c')"
  shows "contract c'"
proof -
  define r0 :: "'a request_impl" where "r0 = (if isValid sz then new_request details sz else refused_request details sz)"
  note s = createRequest_seen [OF step, folded r0_def]
  have calls: "cl_finished_calls c' = cl_finished_calls c @ (if isValid sz then [] else [i])" using s by (simp add: seen_def)
  have vis: "map_option visible (get_req j c') = (if j = i then Some (visible r0) else map_option visible (get_req j c))" for j
    using s by (auto simp: seen_def fun_eq_iff)
  have "i \<notin> set (cl_finished_calls c)" using ct new by (auto simp: contract_def)
  then have i0: "count_list (cl_finished_calls c) i = 0" by (simp add: count_list_0_iff)
  have r0: "in_phase r0" "ri_size r0 = sz" "ri_signals r0 = 0"
    by (auto simp: r0_def refused_request_def new_request_def in_phase_def phase_of_def accessors_def)
  have get: "if j = i then visible r' = visible r0 else (\<exists>r. get_req j c = Some r \<and> visible r' = visible r)" if "get_req j c' = Some r'" for j r'
    using vis [of j] that by (cases "get_req j c") (auto split: if_splits)
  have "in_phase r' \<and> (\<not> isValid (ri_size r') \<longrightarrow> ri_signals r' + count_list (cl_finished_calls c') j = 1)"
    if g: "get_req j c' = Some r'" for j r'
  proof (cases "j = i")
    case True
    with get [OF g] visible_eqD [of r' r0] r0 calls i0 show ?thesis by simp
  next
    case False
    with get [OF g] obtain r where "get_req j c = Some r" "visible r' = visible r" by auto
    with contractD [OF ct, of j r] visible_eqD [of r' r] calls False show ?thesis by auto
  qed
  moreover have "\<exists>r'. get_req j c' = Some r' \<and> \<not> isValid (ri_size r')" if j: "j \<in> set (cl_finished_calls c')" for j
  proof (cases "j = i")
    case True
    with vis [of i] obtain r' where "get_req i c' = Some r'" "visible r' = visible r0" by auto
    moreover have "\<not> isValid sz" using True j calls i0 by (auto simp: count_list_0_iff split: if_splits)
    ultimately show ?thesis using True visible_eqD [of r' r0] r0(2) by auto
  next
    case False
    with j calls have "j \<in> set (cl_finished_calls c)" by (auto split: if_splits)
    with ct obtain r where "get_req j c = Some r" "\<not> isValid (ri_size r)" by (auto simp: contract_def)
    with vis [of j] False visible_eqD same_visible [of "get_req j c'" "get_req j c" r] show ?thesis by fastforce
  qed
  ultimately show ?thesis by (simp add: contract_def)
qed

lemma count_list_removeAll: "j \<noteq> i \<Longrightarrow> count_list (removeAll i xs) j = count_list xs j"
  by (induction xs) auto

lemma count_list_remove1: "count_list (remove1 i xs) j = count_list xs j - (if j = i then 1 else 0)"
  by (induction xs) (auto simp: count_list_0_iff)

lemma destroy_get:
  assumes "get_req i c \<noteq> None"
  shows "get_req j (RequestImpl_destroy i c) = (if j = i then None else get_req j c)"
    "cl_finished_calls (RequestImpl_destroy i c) = removeAll i (cl_finished_calls c)"
proof -
  have "map_of (filter (\<lambda>p. fst p \<noteq> i) rs) j = (if j = i then None else map_of rs j)" for rs :: "(nat \<times> 'a request_impl) list"
    by (induction rs) auto
  with assms show "get_req j (RequestImpl_destroy i c) = (if j = i then None else get_req j c)"
    "cl_finished_calls (RequestImpl_destroy i c) = removeAll i (cl_finished_calls c)"
    by (auto simp: RequestImpl_destroy_def get_req_def Let_def split: option.splits prod.splits)
qed

lemma contract_destroy:
  assumes "contract c" and "get_req i c \<noteq> None"
  shows "contract (RequestImpl_destroy i c)"
  using assms by (auto simp: contract_def destroy_get count_list_removeAll split: if_splits)

lemma contract_finished_call:
  assumes ct: "contract c" and i: "i \<in> set (cl_finished_calls c)"
  shows "contract (upd_req i (\<lambda>r. r\<lparr>ri_signals := Suc (ri_signals r)\<rparr>) (c\<lparr>cl_finished_calls := remove1 i (cl_finished_calls c)\<rparr>))"
proof -
  have "count_list (cl_finished_calls c) i \<noteq> 0" using i by (simp add: count_list_0_iff)
  moreover have "in_phase (r\<lparr>ri_signals := n\<rparr>) = in_phase r" for r :: "'a request_impl" and n
    by (simp add: in_phase_def accessors_def phase_of_def)
  ultimately show ?thesis using ct
    by (fastforce simp: contract_def get_upd_req count_list_remove1 dest: notin_set_remove1)
qed

lemma finished_call_inv:
  assumes inv: "client_inv {} 0 c" and g: "get_req i c = Some r" and r: "\<not> isValid (ri_size r)"
  shows "client_inv {} 0 (upd_req i (\<lambda>r. r\<lparr>ri_signals := Suc (ri_signals r)\<rparr>) (c\<lparr>cl_finished_calls := fc\<rparr>))"
proof -
  note D = client_invD [OF inv]
  have ok: "req_ok {} (queue (cl_limiter c)) (cl_fakes c) i r" by (rule D(4) [OF g])
  with r have fin: "ri_finished r" by (simp add: req_ok_def)
  have "client_inv {} 0 (upd_req i (\<lambda>r. r\<lparr>ri_signals := Suc (ri_signals r)\<rparr>) (c\<lparr>cl_limiter := cl_limiter c, cl_fakes := cl_fakes c\<rparr>))"
    using D(1,6) ok r fin not_queued [OF inv g]
    by (intro client_inv_change [OF inv g]) (auto simp: req_ok_def req_waiting_def)
  moreover have "client_inv {} 0 (upd_req i f (c\<lparr>cl_finished_calls := fc\<rparr>)) = client_inv {} 0 (upd_req i f c)" for f
    by (simp add: client_inv_def queue_ok_def get_upd_req outstanding_def upd_req_def get_req_def distinct_reqs_def)
  ultimately show ?thesis by simp
qed

section \<open>Refinement\<close>

definition api_inv :: "'i client \<Rightarrow> bool" where
  "api_inv c \<longleftrightarrow> client_inv {} 0 c \<and> contract c"

text \<open>Every live request keeps its phase or makes one step of the state machine; only its destructor removes it.\<close>

definition phases_refine :: "api_event \<Rightarrow> 'i client \<Rightarrow> 'i client \<Rightarrow> bool" where
  "phases_refine e c c' \<longleftrightarrow>
     (\<forall>i r. get_req i c = Some r \<longrightarrow>
        (case get_req i c' of
           None \<Rightarrow> e = Library (Destroy_call i)
         | Some r' \<Rightarrow> phase_of r' = phase_of r \<or> phase_step (phase_of r) (phase_of r')))"

lemma moves_refine: "moves i c c' \<Longrightarrow> phases_refine e c c'"
  unfolding phases_refine_def
proof (intro allI impI)
  fix j r assume mv: "moves i c c'" and g: "get_req j c = Some r"
  show "case get_req j c' of None \<Rightarrow> e = Library (Destroy_call j) | Some r' \<Rightarrow> phase_of r' = phase_of r \<or> phase_step (phase_of r) (phase_of r')"
  proof (cases "j = i")
    case True
    with mv g show ?thesis by (auto simp: moves_def advance_def dest: visible_eqD)
  next
    case False
    with mv g same_visible [of "get_req j c'" "get_req j c" r] show ?thesis by (auto simp: moves_def dest: visible_eqD)
  qed
qed

lemma visible_refine:
  assumes "\<And>j. get_req j c \<noteq> None \<Longrightarrow> map_option visible (get_req j c') = map_option visible (get_req j c)"
  shows "phases_refine e c c'"
  unfolding phases_refine_def
proof (intro allI impI)
  fix i r assume g: "get_req i c = Some r"
  from same_visible [OF assms g] g obtain r' where "get_req i c' = Some r'" "visible r' = visible r" by auto
  with visible_eqD show "case get_req i c' of None \<Rightarrow> e = Library (Destroy_call i)
      | Some r' \<Rightarrow> phase_of r' = phase_of r \<or> phase_step (phase_of r) (phase_of r')" by auto
qed

lemma seen_moves_refine: "seen c' = seen c \<Longrightarrow> phases_refine e c c'"
  by (rule visible_refine) (rule seen_eqD(2))

lemma contract_seen:
  assumes s: "seen c' = seen c" and ct: "contract c"
  shows "contract c'"
proof -
  have "in_phase r' \<and> (\<not> isValid (ri_size r') \<longrightarrow> ri_signals r' + count_list (cl_finished_calls c') j = 1)"
    if g: "get_req j c' = Some r'" for j r'
  proof -
    obtain r where "get_req j c = Some r" "visible r = visible r'"
      using same_visible [OF seen_eqD(2) [OF s, symmetric] g] by blast
    with contractD [OF ct, of j r] visible_eqD [of r r'] seen_eqD(1) [OF s] show ?thesis by simp
  qed
  moreover have "\<exists>r'. get_req j c' = Some r' \<and> \<not> isValid (ri_size r')" if j: "j \<in> set (cl_finished_calls c')" for j
  proof -
    obtain r where r: "get_req j c = Some r" "\<not> isValid (ri_size r)" using ct j seen_eqD(1) [OF s] by (auto simp: contract_def)
    from same_visible [OF seen_eqD(2) [OF s] r(1)] obtain r' where "get_req j c' = Some r'" "visible r' = visible r" by blast
    with r(2) visible_eqD [of r' r] show ?thesis by auto
  qed
  ultimately show ?thesis by (simp add: contract_def)
qed

lemma moves_refine_contract:
  assumes "client_inv {} 0 c" and "contract c" and "moves i c c'"
  shows "contract c' \<and> phases_refine e c c'"
proof
  have "ri_finished r" if "get_req i c = Some r" "\<not> isValid (ri_size r)" for r
    using client_invD(4) [OF assms(1) that(1)] that(2) by (simp add: req_ok_def)
  then show "contract c'" by (rule contract_moves [OF assms(2,3)])
  show "phases_refine e c c'" by (rule moves_refine [OF assms(3)])
qed

lemma api_step_refines:
  assumes inv: "api_inv c" and p: "api_possible e c"
  obtains c' where "api_step fromData e c = (Inr (), c')" "api_inv c'" "phases_refine e c c'"
proof -
  have ci: "client_inv {} 0 c" and ct: "contract c" using inv by (simp_all add: api_inv_def)
  show thesis
  proof (cases e)
    case (Finished_call i)
    with p ct obtain r where r: "get_req i c = Some r" "\<not> isValid (ri_size r)" by (auto simp: contract_def)
    let ?c = "upd_req i (\<lambda>r. r\<lparr>ri_signals := Suc (ri_signals r)\<rparr>) (c\<lparr>cl_finished_calls := remove1 i (cl_finished_calls c)\<rparr>)"
    have "phases_refine e c ?c" by (simp add: phases_refine_def get_upd_req phase_of_def)
    with Finished_call p finished_call_inv [OF ci r] contract_finished_call [OF ct, of i] that show thesis
      by (simp add: api_inv_def)
  next
    case (Library e0)
    with p have "possible e0 c" by simp
    from client_step_inv [OF ci this, of fromData] obtain c' where c': "client_step fromData e0 c = (Inr (), c')" "client_inv {} 0 c'" .
    have "contract c' \<and> phases_refine e c c'"
    proof (cases e0)
      case (New_request i details sz)
      with p Library have new: "get_req i c = None" by simp
      have step: "createRequest i details sz c = (Inr (), c')" using c'(1) New_request by simp
      have "map_option visible (get_req j c') = map_option visible (get_req j c)" if "j \<noteq> i" for j
        using createRequest_seen [OF step] that by (auto simp: seen_def fun_eq_iff)
      then have "phases_refine e c c'" using new by (intro visible_refine) metis
      with contract_new [OF ct new step] show ?thesis by simp
    next
      case (Reply_received i reply)
      with p Library obtain r where r: "get_req i c = Some r" by auto
      have "moves i c c'" using dbusCallFinished_moves [OF _ r contractD(1) [OF ct r]] c'(1) Reply_received by simp
      then show ?thesis by (rule moves_refine_contract [OF ci ct])
    next
      case (Fake_reply i)
      let ?c = "c\<lparr>cl_fakes := removeAll i (cl_fakes c)\<rparr>"
      have "i \<in> set (cl_fakes c)" using p Library Fake_reply by simp
      with client_invD(5) [OF ci] obtain r where r: "get_req i c = Some r" by auto
      have "moves i ?c c'" using dbusCallFinished_moves [of fromData "Inl []" i ?c c' r] r contractD(1) [OF ct r] c'(1) Fake_reply by simp
      then have "moves i c c'" by (rule moves_seen [rotated]) simp
      then show ?thesis by (rule moves_refine_contract [OF ci ct])
    next
      case Pump_call
      then have "seen c' = seen c"
        using c'(1) leavesD [OF leaves_on_limiter, of "limiter_done sends" "c\<lparr>cl_pumps := cl_pumps c - 1\<rparr>"] by (simp add: pump_limiter_def)
      with contract_seen [OF this ct] seen_moves_refine show ?thesis by blast
    next
      case (Cancel_call i)
      with p Library obtain r where r: "get_req i c = Some r" by auto
      have "moves i c c'" using cancel_request_moves [OF _ r contractD(1) [OF ct r]] c'(1) Cancel_call by simp
      then show ?thesis by (rule moves_refine_contract [OF ci ct])
    next
      case (Wait_call i reply)
      with p Library obtain r where r: "get_req i c = Some r" by auto
      have "moves i c c'" using wait_moves [OF _ r contractD(1) [OF ct r]] c'(1) Wait_call by simp
      then show ?thesis by (rule moves_refine_contract [OF ci ct])
    next
      case (Destroy_call i)
      with p Library c'(1) contract_destroy [OF ct, of i] destroy_get(1) [of i c] show ?thesis
        by (auto simp: phases_refine_def)
    qed
    with c' Library that show thesis by (simp add: api_inv_def)
  qed
qed

lemma api_run_inv:
  assumes "api_run fromData c0 c" and "ThumbnailerImpl d config = Inr c0"
  shows "api_inv c"
  using assms(1)
proof (induction rule: api_run.induct)
  case Api_start
  have "cl_reqs c0 = []" "cl_finished_calls c0 = []" using assms(2) by (auto simp: ThumbnailerImpl_def rbind_Inr_iff)
  then show ?case using client_inv_init [OF assms(2)] by (simp add: api_inv_def contract_def get_req_def)
next
  case (Api_event c e c')
  from api_step_refines [OF Api_event.IH Api_event.hyps(2), of fromData] Api_event.hyps(3) show ?case by force
qed

section \<open>Properties\<close>

text \<open>
  C10. Requests behave as documented. In every reachable state the accessors of a live request show exactly one of the
  phases in progress, being cancelled, succeeded or failed, a failed request has an error message, and \<open>finished\<close> was signalled once if
  the request is finished and never before (for a refused size, once the queued signal is delivered); every possible event
  succeeds, and takes each request at most one step along the state machine, so that a result, once there, never changes
  while the request lives.
\<close>

theorem request_contract:
  assumes "Thumbnailer_client max_backlog_default config = Inr c0" and "api_run fromData c0 c"
  shows "(\<forall>i r. get_req i c = Some r \<longrightarrow>
            (case phase_view (phase_of r) of (fin, im, msg, valid, canc) \<Rightarrow>
               Request_isFinished i c = Inr fin \<and> Request_image i c = Inr im \<and> Request_errorMessage i c = Inr msg \<and>
               Request_isValid i c = Inr valid \<and> Request_isCancelled i c = Inr canc) \<and>
            (\<forall>m b. phase_of r = Failed m b \<longrightarrow> m \<noteq> []) \<and>
            ri_signals r + count_list (cl_finished_calls c) i = of_bool (ri_finished r)) \<and>
         (\<forall>e. api_possible e c \<longrightarrow> (\<exists>c'. api_step fromData e c = (Inr (), c') \<and> phases_refine e c c'))"
proof -
  have "ThumbnailerImpl max_backlog_default config = Inr c0" using assms(1) by (simp add: Thumbnailer_client_def)
  then have inv: "api_inv c" by (rule api_run_inv [OF assms(2)])
  then have ci: "client_inv {} 0 c" and ct: "contract c" by (simp_all add: api_inv_def)
  have signals: "ri_signals r + count_list (cl_finished_calls c) i = of_bool (ri_finished r)" if g: "get_req i c = Some r" for i r
  proof (cases "isValid (ri_size r)")
    case True
    then have "count_list (cl_finished_calls c) i = 0" using contractD(3) [OF ct g] by (simp add: count_list_0_iff)
    moreover have "ri_signals r = of_bool (ri_finished r)" using True client_invD(4) [OF ci g] unfolding req_ok_def by blast
    ultimately show ?thesis by simp
  next
    case False
    then have "ri_finished r" using client_invD(4) [OF ci g] unfolding req_ok_def by blast
    with contractD(2) [OF ct g False] show ?thesis by simp
  qed
  show ?thesis
  proof (intro conjI allI impI)
    fix i r assume g: "get_req i c = Some r"
    have p: "accessors r = phase_view (phase_of r)" "\<forall>m b. phase_of r = Failed m b \<longrightarrow> m \<noteq> []"
      using contractD(1) [OF ct g] by (simp_all add: in_phase_def)
    show "case phase_view (phase_of r) of (fin, im, msg, valid, canc) \<Rightarrow>
            Request_isFinished i c = Inr fin \<and> Request_image i c = Inr im \<and> Request_errorMessage i c = Inr msg \<and>
            Request_isValid i c = Inr valid \<and> Request_isCancelled i c = Inr canc"
      by (simp add: accessors_def g Request_isFinished_def Request_image_def Request_errorMessage_def Request_isValid_def
          Request_isCancelled_def forward_def flip: p(1))
    show "m \<noteq> []" if "phase_of r = Failed m b" for m b using p(2) that by blast
    show "ri_signals r + count_list (cl_finished_calls c) i = of_bool (ri_finished r)" by (rule signals [OF g])
  next
    fix e assume "api_possible e c"
    then show "\<exists>c'. api_step fromData e c = (Inr (), c') \<and> phases_refine e c c'" using api_step_refines [OF inv, of e fromData] by blast
  qed
qed

text \<open>A refused request: finished at once, with a message, and signalled when the event loop runs.\<close>

theorem request_contract_witness:
  "\<exists>c :: unit client. api_run (\<lambda>_. None) demo_client c \<and> Request_isFinished 1 c = Inr True \<and> Request_isValid 1 c = Inr False \<and>
     map_option ri_signals (get_req 1 c) = Some 1 \<and> cl_finished_calls c = []"
proof -
  let ?e1 = "Library (New_request 1 ''a'' (QSize (- 1) 5))" and ?e2 = "Finished_call 1"
  let ?c1 = "snd (api_step (\<lambda>_. None) ?e1 demo_client)" let ?c2 = "snd (api_step (\<lambda>_. None) ?e2 ?c1)"
  note defs = demo_client_def createRequest_def RequestImpl_def new_request_def act_bind_def upd_req_def get_req_def isValid_def
  have s: "api_step (\<lambda>_. None) ?e1 demo_client = (Inr (), ?c1)" "api_step (\<lambda>_. None) ?e2 ?c1 = (Inr (), ?c2)"
    and p: "api_possible ?e1 demo_client" "api_possible ?e2 ?c1" by (simp_all add: defs)
  have "api_run (\<lambda>_. None) demo_client ?c2"
    by (rule api_run.Api_event [OF api_run.Api_event [OF api_run.Api_start p(1) s(1)] p(2) s(2)])
  moreover have "\<exists>r. get_req 1 ?c2 = Some r \<and> ri_finished r \<and> \<not> ri_is_valid r \<and> cl_finished_calls ?c2 = []" by (simp add: defs)
  ultimately obtain c and r :: "unit request_impl" where run: "api_run (\<lambda>_. None) demo_client c" and
    r: "get_req 1 c = Some r" "ri_finished r" "\<not> ri_is_valid r" "cl_finished_calls c = []" by blast
  have "Thumbnailer_client 10 (Some 1) = Inr demo_client" by (simp add: Thumbnailer_client_def demo_client_new)
  from request_contract [OF this run, THEN conjunct1, THEN spec, THEN spec, THEN mp, OF r(1)] r have "ri_signals r = 1" by simp
  with run r show ?thesis
    by (intro exI [of _ c]) (simp add: Request_isFinished_def Request_isValid_def forward_def)
qed

end
