(* ===== verification/Client_Sends.thy ===== *)
theory Client_Sends
  imports Request_Contract
begin

text \<open>
  Which requests the client library sends, and when: every event of \<open>Client_Slots\<close> other than a blocking wait sends the new
  request or the next waiting one, at most once, and a request waits only while all slots are taken. This is what the bus
  between client and service carries.
\<close>

section \<open>The limiter\<close>

text \<open>Jobs wait only while all slots are taken.\<close>

definition full_ok :: "'j limiter \<Rightarrow> bool" where
  "full_ok l \<longleftrightarrow> (live (queue l) \<noteq> [] \<longrightarrow> concurrency l \<le> running l)"

text \<open>\<open>lim_step ns js l l'\<close>: the jobs \<open>ns\<close> came in and the jobs \<open>js\<close> were started; cancelled jobs may disappear.\<close>

definition lim_step :: "'j list \<Rightarrow> 'j list \<Rightarrow> 'j limiter \<Rightarrow> 'j limiter \<Rightarrow> bool" where
  "lim_step ns js l l' \<longleftrightarrow>
     started l' = started l @ js \<and> mset (live (queue l')) + mset js \<subseteq># mset (live (queue l)) + mset ns \<and>
     (full_ok l \<longrightarrow> full_ok l')"

lemma lim_step_refl: "lim_step [] [] l l"
  by (simp add: lim_step_def)

lemma lim_step_schedule:
  assumes "schedule sends i l = (Inr cf, l')"
  shows "\<exists>js. lim_step [i] js l l'"
  using assms by (auto simp: schedule_def schedule_now_def lim_step_def full_ok_def Let_def split: if_splits
      intro: exI [of _ "[i]"] exI [of _ "[]"])

lemma lim_step_done:
  assumes "limiter_done sends l = (Inr (), l')"
  shows "\<exists>js. lim_step [] js l l'"
proof -
  have "0 < running l" using assms by (auto simp: limiter_done_def split: if_splits)
  then show ?thesis
  proof (cases rule: limiter_done_cases [of l sends])
    case (idle q)
    with assms show ?thesis by (auto simp: lim_step_def full_ok_def intro!: exI [of _ "[]"])
  next
    case (started_next js j q)
    with assms show ?thesis by (auto simp: lim_step_def full_ok_def intro!: exI [of _ "[j]"])
  qed
qed

lemma lim_step_cancel: "cancel cf l = (b, l') \<Longrightarrow> lim_step [] [] l l'"
proof (cases cf)
  case (Queued h)
  assume "cancel cf l = (b, l')"
  moreover have "live (clear_job h (queue l)) \<noteq> [] \<Longrightarrow> live (queue l) \<noteq> []"
    using live_clear_job_subseteq [of h "queue l"] by (metis mset_subset_eq_add_right mset.simps(1) mset_zero_iff subset_mset.le_zero_eq)
  ultimately show ?thesis using Queued live_clear_job_subseteq [of h "queue l"]
    by (auto simp: lim_step_def full_ok_def split: if_splits)
qed (simp add: lim_step_refl)

section \<open>The client\<close>

definition awaiting :: "'i client \<Rightarrow> nat set" where
  "awaiting c = {i. \<exists>r. get_req i c = Some r \<and> ri_watcher r}"

definition waiting_reqs :: "'i client \<Rightarrow> nat set" where
  "waiting_reqs c = set (live (queue (cl_limiter c)))"

definition alive_reqs :: "'i client \<Rightarrow> nat set" where
  "alive_reqs c = {i. get_req i c \<noteq> None}"

text \<open>What an event adds, and whom it takes out of the requests that await a reply.\<close>

fun comes_in :: "client_event \<Rightarrow> nat list" where
  "comes_in (New_request i details sz) = (if isValid sz then [i] else [])"
| "comes_in _ = []"

fun taken_out :: "client_event \<Rightarrow> nat set" where
  "taken_out (Reply_received i reply) = {i}"
| "taken_out (Destroy_call i) = {i}"
| "taken_out _ = {}"

fun is_wait :: "client_event \<Rightarrow> bool" where
  "is_wait (Wait_call i reply) = True"
| "is_wait _ = False"

definition sends_ok :: "client_event \<Rightarrow> nat list \<Rightarrow> 'i client \<Rightarrow> 'i client \<Rightarrow> bool" where
  "sends_ok e js c c' \<longleftrightarrow>
     lim_step (comes_in e) js (cl_limiter c) (cl_limiter c') \<and> awaiting c' \<subseteq> (awaiting c - taken_out e) \<union> set js"

lemma get_fold_send: "get_req i (fold send_request js c) = map_option (\<lambda>r. if i \<in> set js then r\<lparr>ri_watcher := True\<rparr> else r) (get_req i c)"
  by (induction js arbitrary: c) (auto simp: send_request_def get_upd_req option.map_comp comp_def option.map_ident intro!: option.map_cong)

lemma fold_send_fields [simp]:
  "cl_limiter (fold send_request js c) = cl_limiter c" "cl_pumps (fold send_request js c) = cl_pumps c"
  "cl_fakes (fold send_request js c) = cl_fakes c"
  by (induction js arbitrary: c) (simp_all add: send_request_def)

lemma on_limiter_sends:
  assumes "on_limiter f c = (x, c')" and "lim_step ns js (cl_limiter c) (snd (f (cl_limiter c)))"
  shows "cl_limiter c' = snd (f (cl_limiter c))" "awaiting c' \<subseteq> awaiting c \<union> set js"
    "get_req i c' = map_option (\<lambda>r. if i \<in> set js then r\<lparr>ri_watcher := True\<rparr> else r) (get_req i c)" "fst (f (cl_limiter c)) = x"
    "cl_pumps c' = cl_pumps c" "cl_fakes c' = cl_fakes c"
proof -
  obtain y l where f: "f (cl_limiter c) = (y, l)" by (cases "f (cl_limiter c)")
  have "started l = started (cl_limiter c) @ js" using assms(2) f by (simp add: lim_step_def)
  with assms(1) f have c': "x = y" "c' = fold send_request js (c\<lparr>cl_limiter := l\<rparr>)" by (auto simp: on_limiter_def)
  with f show "cl_limiter c' = snd (f (cl_limiter c))" "fst (f (cl_limiter c)) = x" "cl_pumps c' = cl_pumps c" "cl_fakes c' = cl_fakes c"
    by simp_all
  show get: "get_req i c' = map_option (\<lambda>r. if i \<in> set js then r\<lparr>ri_watcher := True\<rparr> else r) (get_req i c)" for i
    by (simp add: c' get_fold_send)
  show "awaiting c' \<subseteq> awaiting c \<union> set js" by (auto simp: awaiting_def get split: if_splits)
qed

lemma awaiting_upd:
  "(\<And>r. ri_watcher (f r) \<Longrightarrow> ri_watcher r) \<Longrightarrow> awaiting (upd_req i f c) \<subseteq> awaiting c"
  "(\<And>r. \<not> ri_watcher (f r)) \<Longrightarrow> awaiting (upd_req i f c) \<subseteq> awaiting c - {i}"
  by (auto simp: awaiting_def get_upd_req split: if_splits)

lemma awaiting_fields [simp]:
  "awaiting (c\<lparr>cl_limiter := l\<rparr>) = awaiting c" "awaiting (c\<lparr>cl_fakes := fs\<rparr>) = awaiting c" "awaiting (c\<lparr>cl_pumps := n\<rparr>) = awaiting c"
  "awaiting (c\<lparr>cl_finished_calls := fc\<rparr>) = awaiting c"
  by (simp_all add: awaiting_def)

lemma dbusCallFinished_sends:
  assumes "dbusCallFinished fromData reply i c = (Inr (), c')" and "get_req i c = Some r"
  shows "\<exists>js. lim_step [] js (cl_limiter c) (cl_limiter c') \<and> awaiting c' \<subseteq> (awaiting c - {i}) \<union> (set js - {i}) \<and>
           (ri_cancelled r \<and> ri_cancelled_while_waiting r \<longrightarrow> js = [])"
proof -
  obtain js c1 where c1: "lim_step [] js (cl_limiter c) (cl_limiter c1)" "awaiting c1 \<subseteq> awaiting c \<union> set js"
      "ri_cancelled r \<and> ri_cancelled_while_waiting r \<longrightarrow> js = []"
      "(if ri_cancelled r then finishWithError ''Request cancelled'' i
        else if \<not> ri_watcher r then act_throw (Assertion ''watcher_'')
        else case reply of
               Inl err \<Rightarrow> finishWithError (''Thumbnailer: RequestImpl::dbusCallFinished(): D-Bus error: '' @ err) i
             | Inr bytes \<Rightarrow>
                 act_modify (upd_req i (\<lambda>r. r\<lparr>ri_image := fromData bytes, ri_finished := True, ri_is_valid := True,
                   ri_error_message := [], ri_signals := Suc (ri_signals r), ri_watcher := False\<rparr>))) c1 = (Inr (), c')"
  proof (cases "\<not> ri_cancelled r \<or> \<not> ri_cancelled_while_waiting r")
    case False
    with assms that [of "[]" c] lim_step_refl show thesis by (auto simp: dbusCallFinished_def split: if_splits)
  next
    case True
    then obtain c1 where c1: "on_limiter (limiter_done sends) c = (Inr (), c1)"
      "(if ri_cancelled r then finishWithError ''Request cancelled'' i
        else if \<not> ri_watcher r then act_throw (Assertion ''watcher_'')
        else case reply of
               Inl err \<Rightarrow> finishWithError (''Thumbnailer: RequestImpl::dbusCallFinished(): D-Bus error: '' @ err) i
             | Inr bytes \<Rightarrow>
                 act_modify (upd_req i (\<lambda>r. r\<lparr>ri_image := fromData bytes, ri_finished := True, ri_is_valid := True,
                   ri_error_message := [], ri_signals := Suc (ri_signals r), ri_watcher := False\<rparr>))) c1 = (Inr (), c')"
      using assms by (auto simp: dbusCallFinished_def act_bind_Inr_iff split: if_splits)
    obtain l where l: "limiter_done sends (cl_limiter c) = (Inr (), l)"
      using c1(1) by (auto simp: on_limiter_def split: prod.splits)
    then obtain js where js: "lim_step [] js (cl_limiter c) (snd (limiter_done sends (cl_limiter c)))" using lim_step_done [OF l] by auto
    from on_limiter_sends [OF c1(1) js] js that [of js c1] c1(2) True show thesis by auto
  qed
  have "cl_limiter c' = cl_limiter c1" using c1(4) by (auto simp: finishWithError_def split: if_splits sum.splits)
  moreover have "awaiting c' \<subseteq> awaiting c1 - {i}"
    using c1(4) by (auto simp: finishWithError_def split: if_splits sum.splits dest!: subsetD [OF awaiting_upd(2), rotated])
  ultimately show ?thesis using c1(1-3) by (intro exI [of _ js]) auto
qed

lemma createRequest_sends:
  assumes "createRequest i details sz c = (Inr (), c')" and "get_req i c = None"
  shows "\<exists>js. sends_ok (New_request i details sz) js c c'"
proof (cases "isValid sz")
  case False
  have new: "ri_is_valid (new_request details sz :: 'a request_impl) = False" by (simp add: new_request_def)
  let ?r = "(new_request details sz)\<lparr>ri_error_message := details @ '': invalid QSize'', ri_finished := True\<rparr>"
  have "cl_limiter c' = cl_limiter c" "awaiting c' = awaiting (c\<lparr>cl_reqs := (i, ?r) # cl_reqs c\<rparr>)"
    using assms(1) False new by (auto simp: createRequest_def RequestImpl_def act_bind_def get_req_add Let_def simp del: not_None_eq)
  moreover have "awaiting (c\<lparr>cl_reqs := (i, ?r) # cl_reqs c\<rparr>) \<subseteq> awaiting c"
    by (auto simp: awaiting_def get_req_add new_request_def split: if_splits)
  ultimately show ?thesis using False lim_step_refl by (auto simp: sends_ok_def)
next
  case True
  let ?c1 = "c\<lparr>cl_reqs := (i, new_request details sz) # cl_reqs c\<rparr>"
  obtain cf c2 where c2: "on_limiter (schedule sends i) ?c1 = (Inr cf, c2)"
      "c' = (let c3 = upd_req i (\<lambda>r. r\<lparr>ri_cancel_func := Some cf\<rparr>) c2
             in case get_req i c3 of
                  Some r \<Rightarrow> (if ri_finished r \<and> \<not> ri_is_valid r then c3\<lparr>cl_finished_calls := cl_finished_calls c3 @ [i]\<rparr> else c3)
                | None \<Rightarrow> c3)"
    using assms(1) True by (auto simp: createRequest_def RequestImpl_def act_bind_def Let_def split: prod.splits sum.splits option.splits)
  obtain l where l: "schedule sends i (cl_limiter ?c1) = (Inr cf, l)"
    using c2(1) by (auto simp: on_limiter_def split: prod.splits)
  from lim_step_schedule [OF l] obtain js where js: "lim_step [i] js (cl_limiter ?c1) (snd (schedule sends i (cl_limiter ?c1)))" using l by auto
  note o = on_limiter_sends [OF c2(1) js]
  have "awaiting c' \<subseteq> awaiting c2" "cl_limiter c' = cl_limiter c2"
    using c2(2) awaiting_upd(1) [of "\<lambda>r. r\<lparr>ri_cancel_func := Some cf\<rparr>" i c2] by (auto simp: Let_def split: option.splits if_splits)
  moreover have "awaiting ?c1 \<subseteq> awaiting c" by (auto simp: awaiting_def get_req_add new_request_def split: if_splits)
  ultimately show ?thesis using o js True by (auto simp: sends_ok_def)
qed

lemma cancel_request_sends:
  assumes "cancel_request i c = (Inr (), c')" and "get_req i c = Some r"
  shows "sends_ok (Cancel_call i) [] c c'"
proof (cases "ri_finished r \<or> ri_cancelled r")
  case True
  with assms show ?thesis by (simp add: cancel_request_def sends_ok_def lim_step_refl)
next
  case False
  let ?c1 = "upd_req i (\<lambda>r. r\<lparr>ri_cancelled := True\<rparr>) c"
  obtain b c2 where c2: "call_cancel r ?c1 = (Inr b, c2)"
      "c' = (let c3 = upd_req i (\<lambda>r. r\<lparr>ri_cancelled_while_waiting := b\<rparr>) c2 in if b then c3\<lparr>cl_fakes := cl_fakes c3 @ [i]\<rparr> else c3)"
    using assms False by (auto simp: cancel_request_def act_bind_def split: prod.splits sum.splits)
  obtain cf l where l: "cancel cf (cl_limiter c) = (b, l)" "c2 = ?c1\<lparr>cl_limiter := l\<rparr>"
    using c2(1) by (auto simp: call_cancel_def split: option.splits prod.splits)
  have "awaiting c' \<subseteq> awaiting c2" "cl_limiter c' = cl_limiter c2"
    using c2(2) awaiting_upd(1) [of "\<lambda>r. r\<lparr>ri_cancelled_while_waiting := b\<rparr>" i c2] by (auto simp: Let_def split: if_splits)
  moreover have "awaiting c2 \<subseteq> awaiting c" using l(2) awaiting_upd(1) [of "\<lambda>r. r\<lparr>ri_cancelled := True\<rparr>" i c] by auto
  ultimately show ?thesis using lim_step_cancel [OF l(1)] l(2) by (auto simp: sends_ok_def)
qed

lemma destroy_sends:
  assumes "get_req i c = Some r"
  shows "sends_ok (Destroy_call i) [] c (RequestImpl_destroy i c)"
proof -
  have "awaiting (RequestImpl_destroy i c) \<subseteq> awaiting c - {i}" using assms by (auto simp: awaiting_def destroy_get(1) split: if_splits)
  moreover have "lim_step [] [] (cl_limiter c) (cl_limiter (RequestImpl_destroy i c))"
    using assms by (auto simp: RequestImpl_destroy_def Let_def lim_step_refl split: option.splits prod.splits intro: lim_step_cancel)
  ultimately show ?thesis by (simp add: sends_ok_def)
qed

lemma pump_sends:
  assumes "pump_limiter (c\<lparr>cl_pumps := n\<rparr>) = (Inr (), c')"
  shows "\<exists>js. sends_ok Pump_call js c c' \<and> cl_pumps c' = n"
proof -
  obtain l where l: "limiter_done sends (cl_limiter c) = (Inr (), l)"
    using assms by (auto simp: pump_limiter_def on_limiter_def split: prod.splits)
  then obtain js where js: "lim_step [] js (cl_limiter (c\<lparr>cl_pumps := n\<rparr>)) (snd (limiter_done sends (cl_limiter (c\<lparr>cl_pumps := n\<rparr>))))"
    using lim_step_done [OF l] by auto
  from on_limiter_sends [OF assms [unfolded pump_limiter_def] js] js show ?thesis by (auto simp: sends_ok_def)
qed

lemma client_step_sends:
  assumes inv: "client_inv {} 0 c" and p: "possible e c" and s: "client_step fromData e c = (Inr (), c')" and "\<not> is_wait e"
  shows "\<exists>js. sends_ok e js c c'"
proof (cases e)
  case (New_request i details sz)
  with p s createRequest_sends [of i details sz c c'] show ?thesis by simp
next
  case (Reply_received i reply)
  with p obtain r where "get_req i c = Some r" by auto
  with dbusCallFinished_sends [of fromData reply i c c'] s Reply_received show ?thesis by (auto simp: sends_ok_def)
next
  case (Fake_reply i)
  with p client_invD(5) [OF inv] obtain r where "get_req i c = Some r" by auto
  with dbusCallFinished_sends [of fromData "Inl []" i "c\<lparr>cl_fakes := removeAll i (cl_fakes c)\<rparr>" c'] s Fake_reply show ?thesis
    by (fastforce simp: sends_ok_def)
next
  case Pump_call
  with s pump_sends show ?thesis by fastforce
next
  case (Cancel_call i)
  with p obtain r where "get_req i c = Some r" by auto
  with cancel_request_sends s Cancel_call show ?thesis by fastforce
next
  case (Wait_call i reply)
  with assms(4) show ?thesis by simp
next
  case (Destroy_call i)
  with p obtain r where "get_req i c = Some r" by auto
  with destroy_sends s Destroy_call show ?thesis by fastforce
qed

section \<open>Sent once\<close>

lemma set_live: "j \<in> set (live q) \<longleftrightarrow> (\<exists>h. (h, Some j) \<in> set q)"
  by (induction q rule: live.induct) auto

lemma distinct_live:
  "distinct (map fst q) \<Longrightarrow> (\<And>h h' j. (h, Some j) \<in> set q \<Longrightarrow> (h', Some j) \<in> set q \<Longrightarrow> h = h') \<Longrightarrow> distinct (live q)"
proof (induction q rule: live.induct)
  case (3 h j q)
  have "j \<notin> set (live q)"
  proof
    assume "j \<in> set (live q)"
    then obtain h' where h': "(h', Some j) \<in> set q" by (auto simp: set_live)
    then have "h = h'" using 3(3) [of h j h'] by simp
    with h' 3(2) show False by (force simp: image_iff)
  qed
  moreover have "distinct (live q)" using 3(2,3) by (intro 3(1)) auto
  ultimately show ?case by simp
qed auto

lemma client_live_distinct:
  assumes "client_inv ex k c"
  shows "distinct (live (queue (cl_limiter c)))"
proof (rule distinct_live)
  show "distinct (map fst (queue (cl_limiter c)))" using client_invD(1) [OF assms] by (simp add: wf_limiter_def)
  show "h = h'" if "(h, Some j) \<in> set (queue (cl_limiter c))" "(h', Some j) \<in> set (queue (cl_limiter c))" for h h' j
    using queue_okD(1) [OF client_invD(3) [OF assms] that(1)] queue_okD(1) [OF client_invD(3) [OF assms] that(2)] by auto
qed

lemma waiting_reqsD:
  assumes "client_inv ex k c" and "i \<in> waiting_reqs c"
  obtains r where "get_req i c = Some r" "req_waiting r"
  using assms(2) queue_okD(1) [OF client_invD(3) [OF assms(1)]] by (auto simp: waiting_reqs_def set_live)

text \<open>The requests an event sends are different ones that waited or just came in, and they do not wait any more.\<close>

lemma client_sends_once:
  assumes inv: "client_inv {} 0 c" and p: "possible e c \<or> comes_in e = []" and s: "sends_ok e js c c'"
  shows "distinct js" "set js \<subseteq> waiting_reqs c \<union> set (comes_in e)" "waiting_reqs c' \<subseteq> waiting_reqs c \<union> set (comes_in e) - set js"
    "length (live (queue (cl_limiter c'))) + length js \<le> length (live (queue (cl_limiter c))) + length (comes_in e)"
proof -
  let ?q = "live (queue (cl_limiter c))" and ?q' = "live (queue (cl_limiter c'))"
  have sub: "mset ?q' + mset js \<subseteq># mset ?q + mset (comes_in e)" using s by (simp add: sends_ok_def lim_step_def)
  have "distinct (?q @ comes_in e)"
  proof -
    have "set (comes_in e) \<inter> set ?q = {}"
    proof (cases e)
      case (New_request i details sz)
      have "i \<notin> waiting_reqs c" if "get_req i c = None" using that waiting_reqsD [OF inv] by (metis option.distinct(1))
      with p New_request show ?thesis by (auto simp: waiting_reqs_def)
    qed simp_all
    moreover have "distinct (comes_in e)" by (cases e) simp_all
    ultimately show ?thesis using client_live_distinct [OF inv] by auto
  qed
  then have cnt: "count (mset ?q' + mset js) j \<le> 1" for j
    using mset_subset_eq_count [OF sub, of j] distinct_count_atmost_1 [of "?q @ comes_in e"] by (metis (full_types) mset_append order.trans le_numeral_extra(4) zero_le)
  show "length ?q' + length js \<le> length ?q + length (comes_in e)" using size_mset_mono [OF sub] by simp
  show "distinct js"
    unfolding distinct_count_atmost_1
  proof
    fix a
    have "count (mset js) a \<noteq> 0 \<longleftrightarrow> a \<in> set js" by (simp add: count_mset_0_iff)
    moreover have "count (mset js) a \<le> 1" using cnt [of a] by simp
    moreover have "n = (if b then 1 else 0)" if "n \<noteq> 0 \<longleftrightarrow> b" "n \<le> 1" for n :: nat and b using that by (cases b) auto
    ultimately show "count (mset js) a = (if a \<in> set js then 1 else 0)" by blast
  qed
  have "set ?q' \<union> set js \<subseteq> set ?q \<union> set (comes_in e)" using set_mset_mono [OF sub] by simp
  moreover have "set ?q' \<inter> set js = {}"
  proof (rule equals0I)
    fix a assume "a \<in> set ?q' \<inter> set js"
    then have "0 < count (mset ?q') a" "0 < count (mset js) a" by auto
    with cnt [of a] show False by simp
  qed
  ultimately show "set js \<subseteq> waiting_reqs c \<union> set (comes_in e)" "waiting_reqs c' \<subseteq> waiting_reqs c \<union> set (comes_in e) - set js"
    by (auto simp: waiting_reqs_def)
qed

section \<open>Results\<close>

text \<open>Whether a request is finished, whether it succeeded, and its image.\<close>

definition results :: "'i client \<Rightarrow> nat \<Rightarrow> (bool \<times> bool \<times> 'i option) option" where
  "results c i = map_option (\<lambda>r. (ri_finished r, ri_is_valid r, ri_image r)) (get_req i c)"

definition reply_outcome :: "(string \<Rightarrow> 'i option) \<Rightarrow> bool \<Rightarrow> string + string \<Rightarrow> bool \<times> bool \<times> 'i option" where
  "reply_outcome fromData canc reply =
     (if canc then (True, False, None) else case reply of Inl err \<Rightarrow> (True, False, None) | Inr bytes \<Rightarrow> (True, True, fromData bytes))"

lemma results_visible:
  "results c i = map_option (\<lambda>((fin, im, msg, valid, canc), sz, n). (fin, valid, im)) (map_option visible (get_req i c))"
  by (simp add: results_def visible_def accessors_def option.map_comp comp_def)

lemma results_seen: "seen c' = seen c \<Longrightarrow> results c' = results c"
  using seen_eqD(2) [of c' c] by (simp add: results_visible fun_eq_iff)

lemma results_upd: "results (upd_req i f c) = (\<lambda>j. if j = i then map_option (\<lambda>r. (ri_finished (f r), ri_is_valid (f r), ri_image (f r))) (get_req i c) else results c j)"
  by (auto simp: results_def get_upd_req fun_eq_iff option.map_comp comp_def)

lemma dbusCallFinished_results:
  assumes "dbusCallFinished fromData reply i c = (Inr (), c')" and "get_req i c = Some r"
  shows "\<not> ri_finished r" "results c' = (results c)(i \<mapsto> reply_outcome fromData (ri_cancelled r) reply)"
proof -
  obtain c1 where c1: "seen c1 = seen c"
      "(if ri_cancelled r then finishWithError ''Request cancelled'' i
        else if \<not> ri_watcher r then act_throw (Assertion ''watcher_'')
        else case reply of
               Inl err \<Rightarrow> finishWithError (''Thumbnailer: RequestImpl::dbusCallFinished(): D-Bus error: '' @ err) i
             | Inr bytes \<Rightarrow>
                 act_modify (upd_req i (\<lambda>r. r\<lparr>ri_image := fromData bytes, ri_finished := True, ri_is_valid := True,
                   ri_error_message := [], ri_signals := Suc (ri_signals r), ri_watcher := False\<rparr>))) c1 = (Inr (), c')"
    and nf: "\<not> ri_finished r"
    using assms(1,2) leavesD [OF leaves_on_limiter, of "limiter_done sends" c]
    by (auto simp: dbusCallFinished_def act_bind_def split: if_splits prod.splits sum.splits)
  show "\<not> ri_finished r" by (rule nf)
  obtain r1 where "get_req i c1 = Some r1" using seen_eqD(2) [OF c1(1), of i] assms(2) by (cases "get_req i c1") auto
  then show "results c' = (results c)(i \<mapsto> reply_outcome fromData (ri_cancelled r) reply)"
    using c1(2) results_seen [OF c1(1)]
    by (auto simp: reply_outcome_def finishWithError_def results_upd fun_eq_iff split: if_splits sum.splits)
qed

lemma cancel_request_results:
  fixes c :: "'i client"
  assumes "cancel_request i c = (Inr (), c')"
  shows "results c' = results c"
proof -
  have 1: "leaves (results :: 'i client \<Rightarrow> _) (act_modify (upd_req i (\<lambda>r. r\<lparr>ri_cancelled := True\<rparr>)))"
    by (auto simp: leaves_def results_def get_upd_req fun_eq_iff option.map_comp comp_def intro!: option.map_cong)
  have 2: "leaves (results :: 'i client \<Rightarrow> _) (act_modify (\<lambda>c. let c1 = upd_req i (\<lambda>r. r\<lparr>ri_cancelled_while_waiting := b\<rparr>) c
      in if b then c1\<lparr>cl_fakes := cl_fakes c1 @ [i]\<rparr> else c1))" for b
    by (auto simp: leaves_def Let_def results_def get_upd_req fun_eq_iff option.map_comp comp_def intro!: option.map_cong)
  have 3: "leaves (results :: 'i client \<Rightarrow> _) (call_cancel r)" for r
    using leaves_call_cancel [of r] by (auto simp: leaves_def intro!: results_seen)
  have "leaves (results :: 'i client \<Rightarrow> _) (cancel_request i)"
    unfolding cancel_request_def [abs_def] by (rule leaves_dep, intro leaves_intros 1 2 3)
  from leavesD [OF this assms] show ?thesis .
qed

section \<open>A step of the client\<close>

text \<open>The steps of a client that never blocks, and what they do to results: only a reply makes a request succeed.\<close>

fun nonblocking :: "api_event \<Rightarrow> bool" where
  "nonblocking (Library e) \<longleftrightarrow> \<not> is_wait e"
| "nonblocking (Finished_call i) \<longleftrightarrow> True"

fun library_event :: "api_event \<Rightarrow> client_event" where
  "library_event (Library e) = e"
| "library_event (Finished_call i) = Pump_call"

definition newly_sent :: "'i client \<Rightarrow> 'i client \<Rightarrow> nat list" where
  "newly_sent c c' = drop (length (started (cl_limiter c))) (started (cl_limiter c'))"

definition results_step :: "(string \<Rightarrow> 'i option) \<Rightarrow> api_event \<Rightarrow> 'i client \<Rightarrow> 'i client \<Rightarrow> bool" where
  "results_step fromData e c c' \<longleftrightarrow>
     (case e of
        Library (Reply_received i reply) \<Rightarrow>
          (\<exists>r. get_req i c = Some r \<and> \<not> ri_finished r \<and> results c' = (results c)(i \<mapsto> reply_outcome fromData (ri_cancelled r) reply))
      | Library (Fake_reply i) \<Rightarrow> (\<exists>r. get_req i c = Some r \<and> \<not> ri_finished r \<and> results c' = (results c)(i \<mapsto> (True, False, None)))
      | Library (New_request i details sz) \<Rightarrow> results c' = (results c)(i \<mapsto> (\<not> isValid sz, False, None))
      | Library (Destroy_call i) \<Rightarrow> results c' = (results c)(i := None)
      | _ \<Rightarrow> results c' = results c)"

lemma createRequest_results:
  assumes "createRequest i details sz c = (Inr (), c')"
  shows "results c' = (results c)(i \<mapsto> (\<not> isValid sz, False, None))"
proof -
  let ?r = "if isValid sz then new_request details sz else refused_request details sz"
  have "map_option visible (get_req j c') = (if j = i then Some (visible ?r) else map_option visible (get_req j c))" for j
    using createRequest_seen [OF assms] by (auto simp: seen_def fun_eq_iff)
  then show ?thesis
    by (auto simp: results_visible fun_eq_iff visible_def accessors_def new_request_def refused_request_def)
qed

lemma api_step_results:
  assumes inv: "api_inv c" and p: "api_possible e c" and s: "api_step fromData e c = (Inr (), c')" and "nonblocking e"
  shows "results_step fromData e c c'"
proof (cases e)
  case (Finished_call i)
  with s have "results c' = results c"
    by (auto simp: results_def get_upd_req fun_eq_iff option.map_comp comp_def)
  with Finished_call show ?thesis by (simp add: results_step_def)
next
  case (Library e0)
  have ci: "client_inv {} 0 c" using inv by (simp add: api_inv_def)
  show ?thesis
  proof (cases e0)
    case (New_request i details sz)
    with Library s createRequest_results [of i details sz c c'] show ?thesis by (simp add: results_step_def)
  next
    case (Reply_received i reply)
    with Library p obtain r where "get_req i c = Some r" by auto
    with dbusCallFinished_results [of fromData reply i c c' r] Library Reply_received s show ?thesis by (simp add: results_step_def)
  next
    case (Fake_reply i)
    let ?c = "c\<lparr>cl_fakes := removeAll i (cl_fakes c)\<rparr>"
    have "i \<in> set (cl_fakes c)" using p Library Fake_reply by simp
    with client_invD(5) [OF ci] obtain r where r: "get_req i c = Some r" by auto
    then have "get_req i ?c = Some r" by simp
    moreover have "results ?c = results c" by (simp add: results_def fun_eq_iff)
    moreover have "reply_outcome fromData b (Inl []) = (True, False, None)" for b by (simp add: reply_outcome_def)
    ultimately show ?thesis using dbusCallFinished_results [of fromData "Inl []" i ?c c' r] r Library Fake_reply s by (simp add: results_step_def)
  next
    case Pump_call
    then have "seen c' = seen c"
      using s Library leavesD [OF leaves_on_limiter, of "limiter_done sends" "c\<lparr>cl_pumps := cl_pumps c - 1\<rparr>"] by (simp add: pump_limiter_def)
    from results_seen [OF this] Library Pump_call show ?thesis by (simp add: results_step_def)
  next
    case (Cancel_call i)
    with Library s cancel_request_results [of i c c'] show ?thesis by (simp add: results_step_def)
  next
    case (Wait_call i reply)
    with Library assms(4) show ?thesis by simp
  next
    case (Destroy_call i)
    with Library s p show ?thesis by (auto simp: results_step_def results_def destroy_get(1) fun_eq_iff)
  qed
qed

lemma finished_call_sends:
  assumes "c' = upd_req i (\<lambda>r. r\<lparr>ri_signals := Suc (ri_signals r)\<rparr>) (c\<lparr>cl_finished_calls := fc\<rparr>)"
  shows "sends_ok Pump_call [] c c'"
  using assms awaiting_upd(1) [of "\<lambda>r. r\<lparr>ri_signals := Suc (ri_signals r)\<rparr>" i "c\<lparr>cl_finished_calls := fc\<rparr>"] lim_step_refl
  by (auto simp: sends_ok_def)

text \<open>What one step means for the bus.\<close>

lemma api_step_sends:
  assumes inv: "api_inv c" and p: "api_possible e c" and s: "api_step fromData e c = (Inr (), c')" and nb: "nonblocking e"
    and full: "full_ok (cl_limiter c)"
  defines "js \<equiv> newly_sent c c'" and "new \<equiv> comes_in (library_event e)"
  shows "full_ok (cl_limiter c')" "distinct js" "set js \<subseteq> waiting_reqs c \<union> set new" "waiting_reqs c' \<subseteq> waiting_reqs c \<union> set new - set js"
    "awaiting c' \<subseteq> (awaiting c - taken_out (library_event e)) \<union> set js"
    "length (live (queue (cl_limiter c'))) + length js \<le> length (live (queue (cl_limiter c))) + length new"
proof -
  have ci: "client_inv {} 0 c" using inv by (simp add: api_inv_def)
  obtain ks where ks: "sends_ok (library_event e) ks c c'"
  proof (cases e)
    case (Library e0)
    with client_step_sends [OF ci, of e0 fromData c'] p s nb that show thesis by auto
  next
    case (Finished_call i)
    with s finished_call_sends [of c' i "remove1 i (cl_finished_calls c)" c] that show thesis by simp
  qed
  have poss: "possible (library_event e) c \<or> comes_in (library_event e) = []" by (cases e) (use p in auto)
  have "started (cl_limiter c') = started (cl_limiter c) @ ks" using ks by (simp add: sends_ok_def lim_step_def)
  then have js: "js = ks" by (simp add: js_def newly_sent_def)
  show "full_ok (cl_limiter c')" "awaiting c' \<subseteq> (awaiting c - taken_out (library_event e)) \<union> set js"
    using ks full js by (simp_all add: sends_ok_def lim_step_def)
  note once = client_sends_once [OF ci _ ks]
  show "distinct js" "set js \<subseteq> waiting_reqs c \<union> set new" "waiting_reqs c' \<subseteq> waiting_reqs c \<union> set new - set js"
    "length (live (queue (cl_limiter c'))) + length js \<le> length (live (queue (cl_limiter c))) + length new"
    using once [OF poss] by (simp_all add: new_def js)
qed

end
