(* ===== verification/Request_Chain.thy ===== *)
theory Request_Chain
  imports DBus_Interface "HOL-Library.Sublist"
begin

text \<open>
  The chaining of requests for one key by \<open>DBusInterface\<close>: of the requests for a key exactly the oldest one runs, so that
  the later ones find its result or its failure in the caches, and the end of one request starts the next.
\<close>

section \<open>Invariant\<close>

text \<open>Each handler of a chain is connected to the next one and to no other.\<close>

fun linked :: "'s dbus \<Rightarrow> nat list \<Rightarrow> bool" where
  "linked db [] \<longleftrightarrow> True"
| "linked db [i] \<longleftrightarrow> successors i db = []"
| "linked db (i # j # v) \<longleftrightarrow> successors i db = [j] \<and> linked db (j # v)"

definition chain_ok :: "(nat \<Rightarrow> string) \<Rightarrow> 's dbus \<Rightarrow> string \<Rightarrow> nat list \<Rightarrow> bool" where
  "chain_ok hkey db k v \<longleftrightarrow>
     v \<noteq> [] \<and> distinct v \<and> (\<forall>i \<in> set v. hkey i = k) \<and> linked db v \<and>
     hd v \<in> set (begun db) \<and> set (tl v) \<inter> set (begun db) = {}"

definition chain_inv :: "(nat \<Rightarrow> string) \<Rightarrow> 's dbus \<Rightarrow> bool" where
  "chain_inv hkey db \<longleftrightarrow>
     distinct (map fst (request_keys db)) \<and>
     (\<forall>k v. map_of (request_keys db) k = Some v \<longrightarrow> chain_ok hkey db k v) \<and>
     (\<forall>i. i \<in> set (requests db) \<longleftrightarrow> i \<in> set (requests_for (hkey i) db)) \<and>
     distinct (begun db)"

text \<open>A new \<open>Handler\<close> object is none of those the interface has seen.\<close>

definition fresh_handler :: "nat \<Rightarrow> 's dbus \<Rightarrow> bool" where
  "fresh_handler i db \<longleftrightarrow> i \<notin> set (requests db) \<and> i \<notin> set (begun db) \<and> i \<notin> fst ` set (links db) \<and> i \<notin> snd ` set (links db)"

lemma successors_simps [simp]:
  "successors i (db\<lparr>requests := r\<rparr>) = successors i db" "successors i (db\<lparr>request_keys := k\<rparr>) = successors i db"
  "successors i (db\<lparr>begun := b\<rparr>) = successors i db" "successors i (db\<lparr>delete_later := d\<rparr>) = successors i db"
  "successors i (db\<lparr>world := w\<rparr>) = successors i db"
  by (simp_all add: successors_def)

lemma linked_cong: "(\<And>i. i \<in> set v \<Longrightarrow> successors i db' = successors i db) \<Longrightarrow> linked db' v = linked db v"
  by (induction db v rule: linked.induct) auto

lemma successors_requestFinished [simp]: "successors j (requestFinished hkey i db) = successors j db"
  by (simp add: requestFinished_def Let_def successors_def)

lemma requests_for_Some: "map_of (request_keys db) k = Some v \<Longrightarrow> requests_for k db = v"
  by (simp add: requests_for_def)

lemma linked_Cons: "linked db (i # v) \<Longrightarrow> linked db v"
  by (cases v) auto

lemma successors_snoc: "successors i (db\<lparr>links := links db @ [(a, b)]\<rparr>) = successors i db @ (if a = i then [b] else [])"
  by (simp add: successors_def)

lemma linked_snoc:
  assumes "linked db v" and "v \<noteq> []" and "distinct v" and "i \<notin> set v" and "successors i db = []"
  shows "linked (db\<lparr>links := links db @ [(last v, i)]\<rparr>) (v @ [i])"
  using assms
proof (induction v rule: induct_list012)
  case (3 a b v)
  then have "last (b # v) \<noteq> a" by (metis distinct.simps(2) last_in_set list.distinct(1))
  with 3 show ?case by (simp add: successors_snoc split: if_splits)
qed (simp_all add: successors_snoc)

section \<open>Finishing\<close>

lemma map_of_requestFinished:
  assumes "chain_inv hkey db" and "map_of (request_keys db) k = Some (i # v)"
  shows "map_of (request_keys (requestFinished hkey i db)) k' =
           (if k' = k then (if v = [] then None else Some v) else map_of (request_keys db) k')"
proof -
  from assms have ok: "chain_ok hkey db k (i # v)" by (simp add: chain_inv_def)
  then have "hkey i = k" "i \<notin> set v" by (simp_all add: chain_ok_def)
  with assms show ?thesis
    by (simp add: requestFinished_def Let_def requests_for_Some AList.update_conv AList.delete_conv)
qed

lemma distinct_keys_requestFinished:
  "distinct (map fst (request_keys db)) \<Longrightarrow> distinct (map fst (request_keys (requestFinished hkey i db)))"
  by (simp add: requestFinished_def Let_def distinct_update distinct_delete)

lemma requests_requestFinished:
  assumes "chain_inv hkey db" and "map_of (request_keys db) k = Some (i # v)"
  shows "j \<in> set (requests (requestFinished hkey i db)) \<longleftrightarrow> j \<in> set (requests_for (hkey j) (requestFinished hkey i db))"
proof -
  let ?db = "requestFinished hkey i db"
  from assms have ok: "chain_ok hkey db k (i # v)" by (simp add: chain_inv_def)
  then have i: "hkey i = k" "i \<notin> set v" by (simp_all add: chain_ok_def)
  have rq: "set (requests ?db) = set (requests db) - {i}" by (simp add: requestFinished_def Let_def)
  have j: "j \<in> set (requests db) \<longleftrightarrow> j \<in> set (requests_for (hkey j) db)" using assms(1) by (simp add: chain_inv_def)
  show ?thesis
  proof (cases "hkey j = k")
    case True
    with map_of_requestFinished [OF assms] have "requests_for (hkey j) ?db = v" by (simp add: requests_for_def)
    with rq j True requests_for_Some [OF assms(2)] i show ?thesis by auto
  next
    case False
    with map_of_requestFinished [OF assms] have "requests_for (hkey j) ?db = requests_for (hkey j) db"
      by (simp add: requests_for_def)
    with rq j False i show ?thesis by auto
  qed
qed

lemma chain_inv_last:
  assumes "chain_inv hkey db" and "map_of (request_keys db) k = Some [i]"
  shows "chain_inv hkey (requestFinished hkey i db)"
proof -
  let ?db = "requestFinished hkey i db"
  have "chain_ok hkey ?db k' v" if "map_of (request_keys ?db) k' = Some v" for k' v
  proof -
    have "map_of (request_keys db) k' = Some v"
      using that map_of_requestFinished [OF assms, of k'] by (simp split: if_splits)
    with assms(1) have "chain_ok hkey db k' v" by (simp add: chain_inv_def)
    moreover have "linked ?db v = linked db v" by (rule linked_cong) simp
    ultimately show ?thesis by (simp add: chain_ok_def requestFinished_def Let_def)
  qed
  moreover have "distinct (map fst (request_keys ?db))"
    using assms(1) by (simp add: chain_inv_def distinct_keys_requestFinished)
  moreover have "begun ?db = begun db" by (simp add: requestFinished_def Let_def)
  ultimately show ?thesis
    using assms(1) requests_requestFinished [OF assms] unfolding chain_inv_def by simp
qed

lemma chain_inv_next:
  assumes "chain_inv hkey db" and "map_of (request_keys db) k = Some (i # j # v)"
    and db'_def: "db' = (requestFinished hkey i db)\<lparr>begun := begun db @ [j], world := w\<rparr>"
  shows "chain_inv hkey db'" and "map_of (request_keys db') k = Some (j # v)"
proof -
  let ?db = "requestFinished hkey i db"
  have keys: "map_of (request_keys db') k' = (if k' = k then Some (j # v) else map_of (request_keys db) k')" for k'
    using map_of_requestFinished [OF assms(1,2), of k'] by (simp add: db'_def)
  then show "map_of (request_keys db') k = Some (j # v)" by simp
  have ok: "chain_ok hkey db k (i # j # v)" using assms(1,2) by (simp add: chain_inv_def)
  have links: "linked db' u = linked db u" for u
    by (rule linked_cong) (simp add: db'_def)
  have "chain_ok hkey db' k' u" if "map_of (request_keys db') k' = Some u" for k' u
  proof (cases "k' = k")
    case True
    with that keys have u: "u = j # v" by simp
    from ok have "linked db (j # v)" by (simp add: chain_ok_def)
    with ok True u links show ?thesis by (auto simp: chain_ok_def db'_def)
  next
    case False
    with that keys have "map_of (request_keys db) k' = Some u" by simp
    with assms(1) have *: "chain_ok hkey db k' u" by (simp add: chain_inv_def)
    moreover have "j \<notin> set (tl u)"
      using * ok False by (auto simp: chain_ok_def dest: list.set_sel(2))
    ultimately show ?thesis using links by (auto simp: chain_ok_def db'_def)
  qed
  moreover have "distinct (map fst (request_keys db'))"
    using assms(1) by (simp add: chain_inv_def distinct_keys_requestFinished db'_def)
  moreover have "distinct (begun db')"
    using assms(1) ok by (simp add: chain_inv_def chain_ok_def db'_def)
  moreover have "requests db' = requests ?db" "requests_for k' db' = requests_for k' ?db" for k'
    by (simp_all add: db'_def requests_for_def)
  ultimately show "chain_inv hkey db'"
    using requests_requestFinished [OF assms(1,2)] by (simp add: chain_inv_def)
qed

text \<open>
  The emission in a chain: the last handler ends it, any other one starts its successor and goes on with it only if
  that one finished inside \<open>begin()\<close>.
\<close>

lemma emit_finished_last:
  assumes "chain_inv hkey db" and "map_of (request_keys db) k = Some [i]"
  shows "emit_finished hkey begin_of (Suc n) i db = Some (requestFinished hkey i db)"
proof -
  have "chain_ok hkey db k [i]" using assms by (simp add: chain_inv_def)
  then show ?thesis by (simp add: chain_ok_def)
qed

lemma emit_finished_next:
  assumes "chain_inv hkey db" and "map_of (request_keys db) k = Some (i # j # v)"
    and "run_begin begin_of j (requestFinished hkey i db) = (fin, db')"
  shows "emit_finished hkey begin_of (Suc n) i db = (if fin then emit_finished hkey begin_of n j db' else Some db')"
proof -
  have "chain_ok hkey db k (i # j # v)" using assms(1,2) by (simp add: chain_inv_def)
  with assms(3) show ?thesis by (cases fin) (simp_all add: chain_ok_def split: option.split)
qed

lemma run_begin_chain:
  assumes "chain_inv hkey db" and "map_of (request_keys db) k = Some (i # j # v)"
    and "run_begin begin_of j (requestFinished hkey i db) = (fin, db')"
  shows "chain_inv hkey db'" and "map_of (request_keys db') k = Some (j # v)"
    and "begun db' = begun db @ [j]" and "requests db' = removeAll i (requests db)"
proof -
  from assms(3) obtain w where db': "db' = (requestFinished hkey i db)\<lparr>begun := begun db @ [j], world := w\<rparr>"
    by (auto simp: run_begin_def requestFinished_def Let_def split: prod.splits)
  from chain_inv_next [OF assms(1,2) db'] show "chain_inv hkey db'" "map_of (request_keys db') k = Some (j # v)" .
  from db' show "begun db' = begun db @ [j]" "requests db' = removeAll i (requests db)"
    by (simp_all add: requestFinished_def Let_def)
qed

text \<open>
  One level of depth per waiting request is enough. \<open>P i db\<close> is what holds when handler \<open>i\<close> emits \<open>finished\<close>, \<open>Q db\<close>
  what holds when the emission is over.
\<close>

lemma emit_finished_induct:
  assumes "chain_inv hkey db" and "map_of (request_keys db) k = Some (i # v)" and "length v < n" and "P i db"
    and "\<And>i db. chain_inv hkey db \<Longrightarrow> map_of (request_keys db) k = Some [i] \<Longrightarrow> P i db \<Longrightarrow> Q (requestFinished hkey i db)"
    and "\<And>i j v db fin db'. chain_inv hkey db \<Longrightarrow> map_of (request_keys db) k = Some (i # j # v) \<Longrightarrow> P i db \<Longrightarrow>
           run_begin begin_of j (requestFinished hkey i db) = (fin, db') \<Longrightarrow> if fin then P j db' else Q db'"
  shows "\<exists>db'. emit_finished hkey begin_of n i db = Some db' \<and> chain_inv hkey db' \<and> Q db'"
  using assms(1-4)
proof (induction v arbitrary: n i db)
  case Nil
  then obtain m where "n = Suc m" by (cases n) auto
  with emit_finished_last [OF Nil.prems(1,2)] chain_inv_last [OF Nil.prems(1,2)] assms(5) [OF Nil.prems(1,2,4)]
  show ?case by simp
next
  case (Cons j v)
  then obtain m where n: "n = Suc m" "length v < m" by (cases n) auto
  obtain fin db' where b: "run_begin begin_of j (requestFinished hkey i db) = (fin, db')"
    by (cases "run_begin begin_of j (requestFinished hkey i db)")
  note emit = emit_finished_next [OF Cons.prems(1,2) b, of m]
    and chain = run_begin_chain [OF Cons.prems(1,2) b]
    and pq = assms(6) [OF Cons.prems(1,2,4) b]
  show ?case
  proof (cases fin)
    case False
    with emit n chain(1) pq show ?thesis by simp
  next
    case True
    with Cons.IH [OF chain(1,2) n(2)] pq emit n show ?thesis by simp
  qed
qed

lemma emit_finished_chain:
  fixes db :: "'s dbus"
  assumes "chain_inv hkey db" and "map_of (request_keys db) k = Some (i # v)" and "length v < n"
  shows "\<exists>db'. emit_finished hkey begin_of n i db = Some db' \<and> chain_inv hkey db' \<and>
           i \<notin> set (requests db') \<and> (\<exists>u. suffix u v \<and> requests_for k db' = u) \<and>
           (v \<noteq> [] \<longrightarrow> hd v \<in> set (begun db')) \<and> set (begun db) \<subseteq> set (begun db')"
proof -
  define P where "P = (\<lambda>i' (db' :: 's dbus). \<exists>u. map_of (request_keys db') k = Some (i' # u) \<and> suffix u v \<and>
      (i' = i \<or> i \<notin> set (requests db')) \<and> (u = v \<or> v \<noteq> [] \<and> hd v \<in> set (begun db')) \<and> set (begun db) \<subseteq> set (begun db'))"
  define Q where "Q = (\<lambda>db' :: 's dbus. \<exists>u. requests_for k db' = u \<and> suffix u v \<and> i \<notin> set (requests db') \<and>
      (v \<noteq> [] \<longrightarrow> hd v \<in> set (begun db')) \<and> set (begun db) \<subseteq> set (begun db'))"
  have "P i db" using assms(2) by (simp add: P_def)
  moreover have "Q (requestFinished hkey i' db')"
    if "chain_inv hkey db'" "map_of (request_keys db') k = Some [i']" "P i' db'" for i' db'
    using that(3) map_of_requestFinished [OF that(1,2), of k] that(2)
    by (auto simp: P_def Q_def requests_for_def requestFinished_def Let_def)
  moreover have "if fin then P j db2 else Q db2"
    if "chain_inv hkey db'" "map_of (request_keys db') k = Some (i' # j # u)" "P i' db'"
      "run_begin begin_of j (requestFinished hkey i' db') = (fin, db2)" for i' j u db' fin db2
    using that(2,3) run_begin_chain [OF that(1,2,4)]
    by (auto simp: P_def Q_def requests_for_def dest: suffix_ConsD)
  ultimately have "\<exists>db'. emit_finished hkey begin_of n i db = Some db' \<and> chain_inv hkey db' \<and> Q db'"
    by (rule emit_finished_induct [OF assms])
  then show ?thesis by (auto simp: Q_def)
qed

section \<open>Queueing\<close>

lemma chain_inv_queue:
  assumes inv: "chain_inv hkey db" and new: "fresh_handler i db" and q: "queueRequest hkey begin_of i db = (Inr (), db')"
  shows "chain_inv hkey db'"
proof -
  let ?k = "hkey i" and ?v = "requests_for (hkey i) db"
  have succ_i: "successors i db = []" using new by (force simp: successors_def fresh_handler_def filter_empty_conv)
  have i_new: "i \<notin> set ?v" using inv new by (auto simp: chain_inv_def fresh_handler_def)
  from q have keys: "map_of (request_keys db') k' = (if k' = ?k then Some (?v @ [i]) else map_of (request_keys db) k')"
    and dk: "distinct (map fst (request_keys db'))" and rq: "requests db' = requests db @ [i]"
    and bg: "begun db' = begun db @ (if ?v = [] then [i] else [])"
    and lk: "links db' = links db @ (if ?v = [] then [] else [(last ?v, i)])" for k'
    using inv
    by (auto simp: queueRequest_def Let_def run_begin_def AList.update_conv distinct_update chain_inv_def
        split: if_splits prod.splits bool.splits)
  have succ: "successors a db' = successors a db @ (if ?v \<noteq> [] \<and> a = last ?v then [i] else [])" for a
    using lk by (simp add: successors_def)
  have "chain_ok hkey db' k v" if "map_of (request_keys db') k = Some v" for k v
  proof (cases "k = ?k")
    case True
    with that keys have v: "v = ?v @ [i]" by simp
    show ?thesis
    proof (cases "?v = []")
      case True
      with v \<open>k = ?k\<close> bg succ succ_i show ?thesis by (simp add: chain_ok_def)
    next
      case False
      then have "map_of (request_keys db) ?k = Some ?v" by (auto simp: requests_for_def split: option.splits)
      with inv have ok: "chain_ok hkey db ?k ?v" by (simp add: chain_inv_def)
      have "linked (db\<lparr>links := links db @ [(last ?v, i)]\<rparr>) (?v @ [i])"
        by (rule linked_snoc) (use ok False i_new succ_i in \<open>simp_all add: chain_ok_def\<close>)
      moreover have "linked db' (?v @ [i]) = linked (db\<lparr>links := links db @ [(last ?v, i)]\<rparr>) (?v @ [i])"
        by (rule linked_cong) (use False succ in \<open>simp add: successors_snoc\<close>)
      ultimately show ?thesis
        using ok v \<open>k = ?k\<close> bg False i_new new by (auto simp: chain_ok_def fresh_handler_def)
    qed
  next
    case False
    with that keys have old: "map_of (request_keys db) k = Some v" by simp
    with inv have ok: "chain_ok hkey db k v" by (simp add: chain_inv_def)
    have "last ?v \<notin> set v" if "?v \<noteq> []"
    proof -
      from that have "map_of (request_keys db) ?k = Some ?v" by (auto simp: requests_for_def split: option.splits)
      with inv have "\<forall>a \<in> set ?v. hkey a = ?k" by (simp add: chain_inv_def chain_ok_def)
      with that have "hkey (last ?v) = ?k" by simp
      with ok False show ?thesis by (auto simp: chain_ok_def)
    qed
    then have "linked db' v = linked db v" by (intro linked_cong) (use succ in auto)
    moreover have "i \<notin> set (tl v)"
      using ok False by (auto simp: chain_ok_def dest: list.set_sel(2))
    ultimately show ?thesis using ok bg by (auto simp: chain_ok_def)
  qed
  moreover have "a \<in> set (requests db') \<longleftrightarrow> a \<in> set (requests_for (hkey a) db')" for a
    using inv keys [of "hkey a"] rq by (auto simp: chain_inv_def requests_for_def)
  moreover have "distinct (begun db')" using inv new bg by (simp add: chain_inv_def fresh_handler_def)
  ultimately show ?thesis using dk by (simp add: chain_inv_def)
qed

section \<open>Runs\<close>

text \<open>
  The event loop: a method call queues a new handler, the running handler of a key emits \<open>finished\<close>, or handlers work on
  without finishing.
\<close>

inductive chain_step :: "(nat \<Rightarrow> string) \<Rightarrow> 's begin_fun \<Rightarrow> 's dbus \<Rightarrow> 's dbus \<Rightarrow> bool" for hkey begin_of where
  Queue: "fresh_handler i db \<Longrightarrow> queueRequest hkey begin_of i db = (Inr (), db') \<Longrightarrow> chain_step hkey begin_of db db'"
| Finish: "i \<in> set (requests db) \<Longrightarrow> i \<in> set (begun db) \<Longrightarrow>
    emit_finished hkey begin_of (length (requests_for (hkey i) db)) i db = Some db' \<Longrightarrow> chain_step hkey begin_of db db'"
| Work: "chain_step hkey begin_of db (db\<lparr>world := w\<rparr>)"

inductive_cases chain_stepE: "chain_step hkey begin_of db db'"

lemma chain_of_request:
  assumes "chain_inv hkey db" and "i \<in> set (requests db)" and "i \<in> set (begun db)"
  obtains v where "map_of (request_keys db) (hkey i) = Some (i # v)"
proof -
  from assms have "i \<in> set (requests_for (hkey i) db)" by (simp add: chain_inv_def)
  then obtain u where u: "map_of (request_keys db) (hkey i) = Some u" "i \<in> set u"
    by (cases "map_of (request_keys db) (hkey i)") (simp_all add: requests_for_def)
  with assms(1) have ok: "chain_ok hkey db (hkey i) u" by (simp add: chain_inv_def)
  then obtain a v where "u = a # v" by (cases u) (auto simp: chain_ok_def)
  with ok u(2) assms(3) have "a = i" by (auto simp: chain_ok_def)
  with u(1) \<open>u = a # v\<close> that show thesis by simp
qed

lemma chain_step_inv: "chain_step hkey begin_of db db' \<Longrightarrow> chain_inv hkey db \<Longrightarrow> chain_inv hkey db'"
proof (induction rule: chain_step.induct)
  case (Queue i db db')
  then show ?case by (blast intro: chain_inv_queue)
next
  case (Finish i db db')
  obtain v where v: "map_of (request_keys db) (hkey i) = Some (i # v)"
    using chain_of_request [OF Finish.prems Finish.hyps(1,2)] .
  have len: "length v < length (requests_for (hkey i) db)" using requests_for_Some [OF v] by simp
  from emit_finished_chain [OF Finish.prems v len, of begin_of] Finish.hyps(3) show ?case by auto
next
  case (Work db w)
  have "linked (db\<lparr>world := w\<rparr>) v = linked db v" for v by (rule linked_cong) simp
  with Work show ?case by (simp add: chain_inv_def chain_ok_def requests_for_def)
qed

lemma chain_inv_init: "chain_inv hkey (no_requests w)"
  by (simp add: chain_inv_def no_requests_def requests_for_def)

lemma chain_reachable_inv: "(chain_step hkey begin_of)\<^sup>*\<^sup>* (no_requests w) db \<Longrightarrow> chain_inv hkey db"
  by (induction rule: rtranclp_induct) (auto intro: chain_step_inv chain_inv_init)

section \<open>Properties\<close>

text \<open>
  C15. One request at a time per key: in every reachable state, of the handlers registered for a key exactly the one
  queued first has been started, all registered handlers have that key, every unfinished handler is
  registered under its key, and no handler is started twice.
\<close>

theorem one_request_per_key:
  assumes "(chain_step hkey begin_of)\<^sup>*\<^sup>* (no_requests w) db"
  shows "distinct (begun db) \<and> (\<forall>i \<in> set (requests db). i \<in> set (requests_for (hkey i) db)) \<and>
         (requests_for k db \<noteq> [] \<longrightarrow>
            (\<forall>i \<in> set (requests_for k db). hkey i = k \<and> i \<in> set (requests db)) \<and>
            filter (\<lambda>i. i \<in> set (begun db)) (requests_for k db) = [hd (requests_for k db)])"
proof -
  have inv: "chain_inv hkey db" using chain_reachable_inv [OF assms] .
  have "filter (\<lambda>i. i \<in> set (begun db)) v = [hd v] \<and> (\<forall>i \<in> set v. hkey i = k)"
    if "map_of (request_keys db) k = Some v" for v
  proof -
    from inv that have "chain_ok hkey db k v" by (simp add: chain_inv_def)
    moreover then obtain a u where "v = a # u" by (cases v) (auto simp: chain_ok_def)
    ultimately show ?thesis by (auto simp: chain_ok_def filter_empty_conv)
  qed
  moreover have "map_of (request_keys db) k = Some (requests_for k db)" if "requests_for k db \<noteq> []"
    using that by (auto simp: requests_for_def split: option.splits)
  ultimately show ?thesis using inv by (auto simp: chain_inv_def)
qed

text \<open>
  C23. The chain moves on: when the running handler of a key finishes, the emission ends (at a depth of one per
  registered handler), the handler is no longer registered, the handlers left are the last ones of the queue in
  their order, and the handler queued next has been started.
\<close>

theorem finish_starts_next:
  assumes "(chain_step hkey begin_of)\<^sup>*\<^sup>* (no_requests w) db"
    and "i \<in> set (requests db)" and "i \<in> set (begun db)"
  shows "\<exists>db' rest. requests_for (hkey i) db = i # rest \<and>
           emit_finished hkey begin_of (length (requests_for (hkey i) db)) i db = Some db' \<and>
           i \<notin> set (requests db') \<and> suffix (requests_for (hkey i) db') rest \<and>
           (rest \<noteq> [] \<longrightarrow> hd rest \<in> set (begun db'))"
proof -
  have inv: "chain_inv hkey db" using chain_reachable_inv [OF assms(1)] .
  obtain v where v: "map_of (request_keys db) (hkey i) = Some (i # v)" using chain_of_request [OF inv assms(2,3)] .
  have len: "length v < length (requests_for (hkey i) db)" using requests_for_Some [OF v] by simp
  from emit_finished_chain [OF inv v len, of begin_of] requests_for_Some [OF v] show ?thesis by auto
qed

text \<open>Two requests for one key: the second waits for the first.\<close>

definition two_requests :: "unit dbus" where
  "two_requests =
     \<lparr>requests = [1, 2], request_keys = [(''k'', [1, 2])], links = [(1, 2)], begun = [1], delete_later = [], world = ()\<rparr>"

lemma two_requests_reachable:
  "(chain_step (\<lambda>_. ''k'') (\<lambda>_ w. (False, w)))\<^sup>*\<^sup>* (no_requests ()) two_requests"
proof -
  let ?one = "\<lparr>requests = [1], request_keys = [(''k'', [1])], links = [], begun = [1], delete_later = [], world = ()\<rparr>"
  have "chain_step (\<lambda>_. ''k'') (\<lambda>_ w. (False, w)) (no_requests ()) ?one"
    by (rule chain_step.Queue [of 1]) (simp_all add: fresh_handler_def no_requests_def queueRequest_def requests_for_def run_begin_def)
  moreover have "chain_step (\<lambda>_. ''k'') (\<lambda>_ w. (False, w)) ?one two_requests"
    by (rule chain_step.Queue [of 2]) (simp_all add: fresh_handler_def two_requests_def queueRequest_def requests_for_def)
  ultimately show ?thesis by simp
qed

theorem one_request_per_key_witness:
  "filter (\<lambda>i. i \<in> set (begun two_requests)) (requests_for ''k'' two_requests) = [1]"
  using one_request_per_key [OF two_requests_reachable, of "''k''"] by (simp add: two_requests_def requests_for_def)

theorem finish_starts_next_witness:
  "\<exists>db'. emit_finished (\<lambda>_. ''k'') (\<lambda>_ w. (False, w)) 2 1 two_requests = Some db' \<and> 2 \<in> set (begun db')"
proof -
  have two: "requests_for ''k'' two_requests = [1, 2]" "requests two_requests = [1, 2]" "begun two_requests = [1]"
    by (simp_all add: two_requests_def requests_for_def)
  have "\<exists>db' rest. [1, 2] = 1 # rest \<and> emit_finished (\<lambda>_. ''k'') (\<lambda>_ w. (False, w)) (length [1, 2::nat]) 1 two_requests = Some db' \<and>
      1 \<notin> set (requests db') \<and> suffix (requests_for ''k'' db') rest \<and> (rest \<noteq> [] \<longrightarrow> hd rest \<in> set (begun db'))"
    using finish_starts_next [OF two_requests_reachable, of 1] unfolding two by simp
  then show ?thesis by (auto simp del: emit_finished.simps simp: numeral_2_eq_2)
qed

lemma extraction_limit_positive: "0 \<le> hw \<Longrightarrow> 0 \<le> n \<Longrightarrow> 0 < extraction_limit arm hw n"
  by (simp add: extraction_limit_def adjusted_limit_def Let_def)

lemma RateLimiter_positive: "0 < c \<Longrightarrow> \<exists>l. RateLimiter c = Inr l \<and> concurrency l = c \<and> running l = 0"
  by (simp add: RateLimiter_def)

text \<open>
  The limits on concurrent work: when the settings can be read, the constructor succeeds (the limiters' assertion
  on a positive limit holds) with at least one slot for downloads and for extractions; \<open>max-extractions = 0\<close> stands for
  the number of cores, and for one slot when that is unknown or on an ARM device.
\<close>

theorem dbus_limits:
  assumes "max_downloads S = Inr d" and "max_extractions S = Inr x" and "log_level env S = Inr level"
    and "max_backlog S = Inr b" and "0 \<le> hw"
  shows "\<exists>c. DBusInterface arm hw env S = Inr c \<and> concurrency (download_limiter c) = d \<and> 0 < d \<and>
           concurrency (extraction_limiter c) = extraction_limit arm hw x \<and> 0 < extraction_limit arm hw x \<and>
           ClientConfig c = \<lparr>cv_trace_client = trace_client S, cv_max_backlog = b\<rparr>"
proof -
  have d: "0 < d" using assms(1) by (rule positive_settings)
  have "0 \<le> x" using assms(2) by (simp add: max_extractions_def get_positive_or_zero_int_def Let_def split: if_splits)
  then have x: "0 < extraction_limit arm hw x" using extraction_limit_positive assms(5) by blast
  obtain dl el :: "nat limiter" where "RateLimiter d = Inr dl" "concurrency dl = d"
      "RateLimiter (extraction_limit arm hw x) = Inr el" "concurrency el = extraction_limit arm hw x"
    using RateLimiter_positive [OF d] RateLimiter_positive [OF x] by blast
  with assms d x show ?thesis by (simp add: DBusInterface_def ClientConfig_def)
qed

theorem dbus_limits_witness:
  "\<exists>c. DBusInterface False 0 None sample_settings = Inr c \<and> concurrency (extraction_limiter c) = 1 \<and>
       concurrency (download_limiter c) = 8"
proof -
  have *: "max_downloads sample_settings = Inr 8" "max_extractions sample_settings = Inr 0"
      "log_level None sample_settings = Inr 1" "max_backlog sample_settings = Inr 10"
    by (simp_all add: max_downloads_def max_extractions_def log_level_def max_backlog_def get_positive_int_def
        get_positive_or_zero_int_def sample_settings_simps)
  from dbus_limits [OF *, of 0 False] show ?thesis by (auto simp: extraction_limit_def adjusted_limit_def)
qed

section \<open>A handler that finishes inside begin\<close>

text \<open>\<open>Handler::begin\<close> as the interface calls it, on the family of all handlers.\<close>

definition begin_handlers :: "('p, 'l, 'w) env \<Rightarrow> int \<Rightarrow> (nat \<Rightarrow> 'w handler) begin_fun" where
  "begin_handlers E now i hs = (case begin_handler E now (hs i) of (_, h) \<Rightarrow> (signals (hs i) < signals h, hs(i := h)))"

text \<open>
  A refusal at once: when the credentials of the peer are cached as invalid (a look-up that failed once is
  cached so for good), the first request for a key is answered with an error inside \<open>begin()\<close>; \<open>requestFinished\<close> then erases
  the entry of \<open>request_keys_\<close> that \<open>queueRequest\<close> still appends to.
\<close>

theorem refused_request_dangles:
  assumes "requests_for (hkey i) db = []" and "\<not> cancelled (world db i)"
    and "map_of (cur_cache (hp_creds (world db i))) (hp_service (world db i)) = Some cr" and "\<not> cr_valid cr"
  shows "\<exists>db'. queueRequest hkey (begin_handlers E now) i db = (Inl (Null_deref ''requests_for_key''), db') \<and>
          sent (world db' i) = sent (world db i) @
            [Error_reply ART_ERROR (''Handler::gotCredentials(): '' @ hp_details (world db i) @ '': could not retrieve peer credentials'')]"
proof -
  have "creds_get (hp_service (world db i)) (hp_id (world db i)) (hp_creds (world db i)) =
      ([(hp_id (world db i), cr)], hp_creds (world db i))"
    using assms(3) by (simp add: creds_get_def)
  with assms show ?thesis
    by (simp add: queueRequest_def run_begin_def begin_handlers_def begin_handler_def gotCredentials_def sendError_def Let_def)
qed

definition refused_handler :: "mem handler" where
  "refused_handler =
     \<lparr>hp_id = 0, hp_service = '':1.5'', hp_session = sample_session ''/p'', hp_limiter = \<lparr>concurrency = 1, running = 0, queue = [], next_handle = 0, started = []\<rparr>,
      hp_creds = (CredentialsCache False)\<lparr>cur_cache := [('':1.5'', no_credentials)]\<rparr>,
      hp_inactivity = \<lparr>num_active = 1, idle_timer = False, interval = 30000, expirations = 0\<rparr>, start_time = 1, finish_time = 0,
      schedule_start_time = 0, download_start_time = 0, download_finish_time = 0, hp_details = ''thumbnail: /p'',
      hp_cancel_func = None, cancelled = False, checkWatcher = None, createWatcher = None, owed = None, sent = [],
      signals = 0, warnings = []\<rparr>"

theorem refused_request_dangles_witness:
  "\<exists>db'. queueRequest (\<lambda>_. ''k'') (begin_handlers sample_env 5) 1 (no_requests (\<lambda>_. refused_handler)) =
     (Inl (Null_deref ''requests_for_key''), db') \<and> length (sent (world db' 1)) = 1"
  using refused_request_dangles [of "\<lambda>_. ''k''" 1 "no_requests (\<lambda>_. refused_handler)" no_credentials sample_env 5]
  by (auto simp: no_requests_def requests_for_def refused_handler_def CredentialsCache_def no_credentials_def)

end
