(* ===== verification/Handler_Protocol.thy ===== *)
theory Handler_Protocol
  imports Request_Handler
begin

text \<open>
  What a request handler does on the bus, over all interleavings with the other handlers: the runtime
  delivers the callback a handler is owed, other handlers change the shared objects, and the handler
  may be cancelled or destroyed at any time. Every request gets exactly one reply.
\<close>

section \<open>Callbacks\<close>

text \<open>The arguments a delivery takes from outside: the time, the peer's credentials, what other handlers' jobs throw.\<close>

record delivery =
  at_time :: int
  peer_creds :: credentials
  others_throw :: "nat \<Rightarrow> exn option"

fun run_callback :: "('p, 'l, 'w) env \<Rightarrow> delivery \<Rightarrow> callback \<Rightarrow> ('w handler, unit) act" where
  "run_callback E d Credentials_cb = gotCredentials E (at_time d) (peer_creds d)"
| "run_callback E d Check_job = do_check E (at_time d)"
| "run_callback E d Check_watcher = checkFinished E (at_time d)"
| "run_callback E d Limiter_slot = download_job E (at_time d)"
| "run_callback E d Download_signal = downloadFinished (others_throw d) (at_time d)"
| "run_callback E d Create_job = do_create E (at_time d)"
| "run_callback E d Create_watcher = createFinished (at_time d)"

definition deliver :: "('p, 'l, 'w) env \<Rightarrow> delivery \<Rightarrow> callback \<Rightarrow> ('w handler, unit) act" where
  "deliver E d cb h = run_callback E d cb (h\<lparr>owed := None\<rparr>)"

inductive h_step :: "('p, 'l, 'w) env \<Rightarrow> 'w handler \<Rightarrow> 'w handler \<Rightarrow> bool" for E where
  Deliver: "owed h = Some cb \<Longrightarrow> deliver E d cb h = (Inr (), h') \<Longrightarrow> h_step E h h'"
| Others: "rq s = (rq (hp_session h))\<lparr>kind := k\<rparr> \<Longrightarrow>
    h_step E h (h\<lparr>hp_session := s, hp_limiter := l, hp_creds := c, hp_inactivity := i\<rparr>)"
| Cancel: "h_step E h (h\<lparr>cancelled := True\<rparr>)"
| Destroy: "Handler_destroy h = (Inr (), h') \<Longrightarrow> h_step E h h'"

inductive_cases h_stepE: "h_step E h h'"

fun owed_rank :: "callback option \<Rightarrow> nat" where
  "owed_rank None = 0"
| "owed_rank (Some Create_watcher) = 1"
| "owed_rank (Some Create_job) = 2"
| "owed_rank (Some Download_signal) = 3"
| "owed_rank (Some Limiter_slot) = 4"
| "owed_rank (Some Check_watcher) = 5"
| "owed_rank (Some Check_job) = 6"
| "owed_rank (Some Credentials_cb) = 7"

text \<open>What a finished job left for its watcher: \<open>create()\<close> never yields an empty image or an empty error text.\<close>

definition futures_ok :: "'w handler \<Rightarrow> bool" where
  "futures_ok h \<longleftrightarrow>
     (owed h = Some Check_watcher \<longrightarrow> (\<exists>r. checkWatcher h = Some (Inr r))) \<and>
     (owed h = Some Create_watcher \<longrightarrow>
        (\<exists>r. createWatcher h = Some (Inr r) \<and>
             (\<not> cancelled h \<longrightarrow> (ba_error r = None \<longrightarrow> ba r \<noteq> []) \<and> ba_error r \<noteq> Some [])))"

text \<open>The bookkeeping of replies and signals.\<close>

definition replies_ok :: "'w handler \<Rightarrow> bool" where
  "replies_ok h \<longleftrightarrow>
     length (sent h) \<le> signals h \<and> signals h \<le> 1 \<and>
     (owed h \<noteq> None \<longrightarrow> signals h = 0) \<and>
     (\<not> cancelled h \<longrightarrow> length (sent h) = signals h \<and> (owed h = None \<longrightarrow> signals h = 1)) \<and>
     (\<forall>b. Reply b \<in> set (sent h) \<longrightarrow> b \<noteq> [])"

definition h_inv :: "'w handler \<Rightarrow> bool" where
  "h_inv h \<longleftrightarrow> futures_ok h \<and> replies_ok h"

section \<open>Each stage\<close>

text \<open>
  A handler that is owed nothing and has not replied, as every callback finds it; \<open>answered h h'\<close>: from there a
  stage has either replied or is owed a later callback.
\<close>

definition quiet :: "'w handler \<Rightarrow> bool" where
  "quiet h \<longleftrightarrow> owed h = None \<and> sent h = [] \<and> signals h = 0"

lemma quiet_owed_None: "h_inv h \<Longrightarrow> owed h \<noteq> None \<Longrightarrow> quiet (h\<lparr>owed := None\<rparr>)"
  by (auto simp: h_inv_def replies_ok_def quiet_def)

lemma sendError_inv: "quiet h \<Longrightarrow> sendError now m h = (r, h') \<Longrightarrow> r = Inr () \<and> h_inv h' \<and> owed h' = None"
  by (auto simp: sendError_def quiet_def h_inv_def futures_ok_def replies_ok_def Let_def split: if_splits)

lemma sendThumbnail_inv:
  "quiet h \<Longrightarrow> sendThumbnail now b h = (r, h') \<Longrightarrow> b \<noteq> [] \<Longrightarrow> r = Inr () \<and> h_inv h' \<and> owed h' = None"
  by (auto simp: sendThumbnail_def quiet_def h_inv_def futures_ok_def replies_ok_def)

lemma owe_inv:
  "quiet h \<Longrightarrow> cb \<noteq> Check_watcher \<Longrightarrow> cb \<noteq> Create_watcher \<Longrightarrow> owe cb h = (r, h') \<Longrightarrow>
   r = Inr () \<and> h_inv h' \<and> owed h' = Some cb"
  by (auto simp: owe_def quiet_def h_inv_def futures_ok_def replies_ok_def)

lemma cancelled_inv: "quiet h \<Longrightarrow> cancelled h \<Longrightarrow> h_inv h"
  by (auto simp: quiet_def h_inv_def futures_ok_def replies_ok_def)

lemma gotCredentials_inv:
  assumes "quiet h" and "gotCredentials E now cr h = (Inr (), h')"
  shows "h_inv h' \<and> (owed h' = None \<or> owed h' = Some Check_job)"
proof (cases "cancelled h")
  case True
  with assms show ?thesis by (auto simp: gotCredentials_def quiet_def h_inv_def futures_ok_def replies_ok_def)
next
  case False
  with assms show ?thesis
    by (auto simp: gotCredentials_def act_catch_def act_bind_def split: if_splits sum.splits prod.splits
        dest!: sendError_inv [OF assms(1)] owe_inv [OF assms(1), rotated 2])
qed

text \<open>What a thread-pool job leaves unchanged: only the session and its own future change.\<close>

definition hp_frame :: "'w handler \<Rightarrow> callback option \<times> bus_reply list \<times> nat \<times> bool \<times> nat \<times> string" where
  "hp_frame h = (owed h, sent h, signals h, cancelled h, hp_id h, hp_details h)"

lemma hp_frameD:
  "hp_frame h' = hp_frame h \<Longrightarrow> owed h' = owed h" "hp_frame h' = hp_frame h \<Longrightarrow> sent h' = sent h"
  "hp_frame h' = hp_frame h \<Longrightarrow> signals h' = signals h" "hp_frame h' = hp_frame h \<Longrightarrow> cancelled h' = cancelled h"
  by (simp_all add: hp_frame_def)

lemma quiet_frame: "hp_frame h' = hp_frame h \<Longrightarrow> quiet h \<Longrightarrow> quiet h'"
  by (simp add: hp_frame_def quiet_def)

lemma leaves_on_session [leaves_intros]: "leaves hp_frame (on_session m)"
  unfolding on_session_def by (rule leaves_zoom) (simp add: hp_frame_def)

lemma leaves_check: "leaves hp_frame (check E now)"
  unfolding check_def [abs_def] by (rule leaves_dep, intro leaves_intros)

lemma leaves_create: "leaves hp_frame (create E now)"
  unfolding create_def [abs_def]
  by (rule leaves_dep, intro leaves_intros) (auto simp: leaves_def)

lemma leaves_byte_array_or_error: "leaves hp_frame job \<Longrightarrow> leaves hp_frame (byte_array_or_error_of job)"
  unfolding byte_array_or_error_of_def by (intro leaves_catch leaves_intros)

lemma do_check_inv:
  assumes "quiet h" and "do_check E now h = (Inr (), h')"
  shows "h_inv h' \<and> owed h' = Some Check_watcher"
proof -
  from assms(2) obtain r h1 where r: "byte_array_or_error_of (check E now) h = (Inr r, h1)"
      and h': "h' = h1\<lparr>checkWatcher := Some (Inr r), owed := Some Check_watcher\<rparr>"
    by (auto simp: do_check_def act_bind_Inr_iff)
  from leavesD [OF leaves_byte_array_or_error [OF leaves_check] r] assms(1) have "quiet h1"
    by (rule quiet_frame)
  then show ?thesis unfolding h' by (simp add: quiet_def h_inv_def futures_ok_def replies_ok_def)
qed

lemma thumbnail_Inl_what: "thumbnail E now s = (Inl e, s') \<Longrightarrow> catchable e \<Longrightarrow> what e \<noteq> []"
  by (auto simp: thumbnail_def act_catch_def split: prod.splits sum.splits if_splits)

lemma create_result:
  assumes "byte_array_or_error_of (create E now) h = (Inr r, h')" and "\<not> cancelled h"
  shows "(ba_error r = None \<longrightarrow> ba r \<noteq> []) \<and> ba_error r \<noteq> Some []"
  using assms
  by (auto simp: byte_array_or_error_of_def create_def on_session_def act_zoom_def act_catch_def act_bind_def
      split: prod.splits sum.splits if_splits dest!: thumbnail_Inl_what)

lemma do_create_inv:
  assumes "quiet h" and "do_create E now h = (Inr (), h')"
  shows "h_inv h' \<and> owed h' = Some Create_watcher"
proof -
  from assms(2) obtain r h1 where r: "byte_array_or_error_of (create E now) h = (Inr r, h1)"
      and h': "h' = h1\<lparr>createWatcher := Some (Inr r), owed := Some Create_watcher\<rparr>"
    by (auto simp: do_create_def act_bind_Inr_iff)
  note fr = leavesD [OF leaves_byte_array_or_error [OF leaves_create] r]
  from fr assms(1) have "quiet h1" by (rule quiet_frame)
  moreover have "\<not> cancelled h1 \<longrightarrow> (ba_error r = None \<longrightarrow> ba r \<noteq> []) \<and> ba_error r \<noteq> Some []"
    using create_result [OF r] hp_frameD(4) [OF fr] by simp
  ultimately show ?thesis unfolding h' by (simp add: quiet_def h_inv_def futures_ok_def replies_ok_def)
qed

lemma download_job_inv:
  assumes "quiet h" and "download_job E now h = (Inr (), h')"
  shows "(h_inv h' \<and> owed h' = Some Download_signal) \<or> (h' = h \<and> cancelled h)"
proof (cases "cancelled h")
  case False
  with assms(2) obtain h1 where h1: "on_session (download E 0) (h\<lparr>download_start_time := now\<rparr>) = (Inr (), h1)"
      and o: "owe Download_signal h1 = (Inr (), h')"
    by (auto simp: download_job_def act_bind_Inr_iff)
  have "quiet (h\<lparr>download_start_time := now\<rparr>)" using assms(1) by (simp add: quiet_def)
  with leavesD [OF leaves_on_session h1] have "quiet h1" by (rule quiet_frame)
  from owe_inv [OF this _ _ o] show ?thesis by simp
qed (use assms in \<open>simp add: download_job_def\<close>)

lemma download_job_throws:
  assumes "download_job E now h = (Inl e, h')"
  shows "hp_frame h' = hp_frame h \<and> \<not> cancelled h"
proof (cases "cancelled h")
  case False
  with assms have "on_session (download E 0) (h\<lparr>download_start_time := now\<rparr>) = (Inl e, h')"
    by (auto simp: download_job_def act_bind_def owe_def split: prod.splits sum.splits)
  from leavesD [OF leaves_on_session this] False show ?thesis by (simp add: hp_frame_def)
qed (use assms in \<open>simp add: download_job_def\<close>)

lemma quiet_updates [simp]:
  "quiet (h\<lparr>hp_limiter := l\<rparr>) = quiet h" "quiet (h\<lparr>schedule_start_time := t\<rparr>) = quiet h"
  "quiet (h\<lparr>download_finish_time := t\<rparr>) = quiet h" "quiet (h\<lparr>hp_creds := c\<rparr>) = quiet h"
  by (simp_all add: quiet_def)

lemma h_inv_updates [simp]:
  "h_inv (h\<lparr>hp_limiter := l\<rparr>) = h_inv h" "h_inv (h\<lparr>hp_cancel_func := c\<rparr>) = h_inv h"
  "h_inv (h\<lparr>hp_session := s\<rparr>) = h_inv h" "h_inv (h\<lparr>hp_creds := cc\<rparr>) = h_inv h"
  "h_inv (h\<lparr>hp_inactivity := i\<rparr>) = h_inv h"
  by (simp_all add: h_inv_def futures_ok_def replies_ok_def)

lemma schedule_started:
  assumes "schedule throws j l = (res, l')"
  shows "started l' \<noteq> started l \<longleftrightarrow> 0 \<le> running l \<and> running l < concurrency l"
    and "started l' \<noteq> started l \<Longrightarrow> res = (case throws j of Some e \<Rightarrow> Inl e | None \<Rightarrow> Inr Not_queued)"
  using assms by (auto simp: schedule_def schedule_now_def Let_def split: if_splits option.splits)

lemma schedule_download_inv:
  assumes "quiet h" and "\<not> cancelled h" and "schedule_download E now h = (res, h')"
  shows "case res of
           Inr cf \<Rightarrow> h_inv h' \<and> owed h' \<in> {Some Download_signal, Some Limiter_slot}
         | Inl e \<Rightarrow> catchable e \<longrightarrow> quiet h'"
proof -
  obtain r h_ran where dj: "download_job E now h = (r, h_ran)" by (cases "download_job E now h")
  define throws where "throws = (\<lambda>j::nat. case r of Inl e \<Rightarrow> Some e | Inr _ \<Rightarrow> None)"
  obtain res' l where sch: "schedule throws (hp_id h) (hp_limiter h) = (res', l)"
    by (cases "schedule throws (hp_id h) (hp_limiter h)")
  show ?thesis
  proof (cases "started l = started (hp_limiter h)")
    case True
    with assms(3) dj sch have *: "res = res'" "h' = h\<lparr>hp_limiter := l, owed := Some Limiter_slot\<rparr>"
      by (simp_all add: schedule_download_def throws_def [symmetric])
    have "h_inv (h\<lparr>owed := Some Limiter_slot\<rparr>)"
      using owe_inv [OF assms(1), of Limiter_slot] by (simp add: owe_def)
    moreover have "\<not> catchable e" if "res' = Inl e" for e
      using sch True that by (auto simp: schedule_def schedule_now_def Let_def split: if_splits option.splits)
    ultimately show ?thesis unfolding * by (auto simp: h_inv_def futures_ok_def replies_ok_def split: sum.splits)
  next
    case False
    with assms(3) dj sch have *: "res = res'" "h' = h_ran\<lparr>hp_limiter := l\<rparr>"
      by (simp_all add: schedule_download_def throws_def [symmetric])
    from schedule_started(2) [OF sch False] have res': "res' = (case r of Inl e \<Rightarrow> Inl e | Inr _ \<Rightarrow> Inr Not_queued)"
      by (simp add: throws_def split: sum.splits)
    show ?thesis
    proof (cases r)
      case (Inl e)
      with download_job_throws dj assms(1) have "quiet h_ran" by (metis quiet_frame)
      with Inl res' * show ?thesis by simp
    next
      case (Inr u)
      with download_job_inv [OF assms(1)] dj assms(2) have "h_inv h_ran \<and> owed h_ran = Some Download_signal" by simp
      with Inr res' * show ?thesis by simp
    qed
  qed
qed

lemma schedule_stage_inv:
  assumes "quiet h" and "\<not> cancelled h" and "schedule_stage E now h = (Inr (), h')"
  shows "h_inv h' \<and> owed_rank (owed h') \<le> 4"
proof -
  define h1 where "h1 = h\<lparr>schedule_start_time := now\<rparr>"
  have h1: "quiet h1" "\<not> cancelled h1" using assms by (simp_all add: h1_def)
  show ?thesis
  proof (cases "hp_status h1 = Needs_download")
    case False
    with assms(3) show ?thesis
      by (auto simp: schedule_stage_def h1_def [symmetric] Let_def dest!: sendError_inv [OF h1(1)])
  next
    case True
    obtain res h2 where sch: "schedule_download E now h1 = (res, h2)" by (cases "schedule_download E now h1")
    note inv = schedule_download_inv [OF h1 sch]
    show ?thesis
    proof (cases res)
      case (Inl e)
      with assms(3) True sch have c: "catchable e"
        by (auto simp: schedule_stage_def h1_def [symmetric] Let_def act_catch_def act_bind_def split: if_splits)
      then have "quiet h2" using inv Inl by simp
      from assms(3) True sch Inl c sendError_inv [OF this] show ?thesis
        by (auto simp: schedule_stage_def h1_def [symmetric] Let_def act_catch_def act_bind_def)
    next
      case (Inr cf)
      with assms(3) True sch have "h' = h2\<lparr>hp_cancel_func := Some cf\<rparr>"
        by (auto simp: schedule_stage_def h1_def [symmetric] Let_def act_catch_def act_bind_def)
      with inv Inr show ?thesis by auto
    qed
  qed
qed

lemma checkFinished_inv:
  assumes "quiet h" and "\<exists>r. checkWatcher h = Some (Inr r)" and "checkFinished E now h = (Inr (), h')"
  shows "h_inv h' \<and> owed_rank (owed h') \<le> 4"
proof (cases "cancelled h")
  case True
  with assms cancelled_inv [OF assms(1)] show ?thesis by (simp add: checkFinished_def quiet_def)
next
  case False
  from assms(2) obtain r where r: "checkWatcher h = Some (Inr r)" by blast
  show ?thesis
  proof (cases "ba_error r = None \<and> ba r = []")
    case True
    with assms(3) False r have "schedule_stage E now h = (Inr (), h')" by (simp add: checkFinished_def)
    from schedule_stage_inv [OF assms(1) False this] show ?thesis .
  next
    case err: False
    with assms(3) False r show ?thesis
      by (auto simp: checkFinished_def split: option.splits if_splits
          dest!: sendError_inv [OF assms(1)] sendThumbnail_inv [OF assms(1)])
  qed
qed

lemma downloadFinished_inv:
  assumes "quiet h" and "downloadFinished throws now h = (Inr (), h')"
  shows "h_inv h' \<and> owed_rank (owed h') \<le> 2"
proof -
  from assms(2) obtain l where
    l: "(if cancelled h then (Inr (), h\<lparr>download_finish_time := now, hp_limiter := l\<rparr>)
         else owe Create_job (h\<lparr>download_finish_time := now, hp_limiter := l\<rparr>)) = (Inr (), h')"
    by (auto simp: downloadFinished_def act_bind_Inr_iff act_zoom_def split: prod.splits)
  have q: "quiet (h\<lparr>download_finish_time := now, hp_limiter := l\<rparr>)" using assms(1) by simp
  show ?thesis
  proof (cases "cancelled h")
    case True
    with l cancelled_inv [OF q] q show ?thesis by (auto simp: quiet_def)
  next
    case False
    with l have "owe Create_job (h\<lparr>download_finish_time := now, hp_limiter := l\<rparr>) = (Inr (), h')" by simp
    from owe_inv [OF q _ _ this] show ?thesis by simp
  qed
qed

lemma createFinished_inv:
  assumes "quiet h" and "createFinished now h = (Inr (), h')"
    and "\<exists>r. createWatcher h = Some (Inr r) \<and>
             (\<not> cancelled h \<longrightarrow> (ba_error r = None \<longrightarrow> ba r \<noteq> []) \<and> ba_error r \<noteq> Some [])"
  shows "h_inv h' \<and> owed h' = None"
proof (cases "cancelled h")
  case True
  with assms cancelled_inv [OF assms(1)] show ?thesis by (simp add: createFinished_def quiet_def)
next
  case False
  from assms(3) obtain r where w: "createWatcher h = Some (Inr r)"
    and nc: "\<not> cancelled h \<longrightarrow> (ba_error r = None \<longrightarrow> ba r \<noteq> []) \<and> ba_error r \<noteq> Some []" by (elim exE conjE)
  from nc False have r: "createWatcher h = Some (Inr r)" "ba_error r = None \<longrightarrow> ba r \<noteq> []" "ba_error r \<noteq> Some []"
    by (simp_all add: w)
  show ?thesis
  proof (cases "ba_error r")
    case None
    with r assms(2) False have "sendThumbnail now (ba r) h = (Inr (), h')" by (simp add: createFinished_def)
    from sendThumbnail_inv [OF assms(1) this] r(2) None show ?thesis by simp
  next
    case (Some m)
    with r(3) obtain c cs where "m = c # cs" by (cases m) auto
    with Some r(1) assms(2) False have "sendError now (''Handler::createFinished(): '' @ m) h = (Inr (), h')"
      by (simp add: createFinished_def)
    from sendError_inv [OF assms(1) this] show ?thesis by simp
  qed
qed

section \<open>The invariant\<close>

text \<open>Every delivery keeps the invariant and leaves only a later callback owed.\<close>

lemma deliver_inv:
  assumes inv: "h_inv h" and o: "owed h = Some cb" and d: "deliver E d cb h = (Inr (), h')"
  shows "h_inv h' \<and> owed_rank (owed h') < owed_rank (owed h)"
proof -
  have q: "quiet (h\<lparr>owed := None\<rparr>)" using quiet_owed_None [OF inv] o by simp
  show ?thesis
  proof (cases cb)
    case Credentials_cb
    with d gotCredentials_inv [OF q, of E "at_time d" "peer_creds d" h'] o show ?thesis by (auto simp: deliver_def)
  next
    case Check_job
    with d do_check_inv [OF q] o show ?thesis by (auto simp: deliver_def)
  next
    case Check_watcher
    with inv o have "\<exists>r. checkWatcher (h\<lparr>owed := None\<rparr>) = Some (Inr r)"
      by (simp add: h_inv_def futures_ok_def)
    from checkFinished_inv [OF q this] Check_watcher d o show ?thesis by (fastforce simp: deliver_def)
  next
    case Limiter_slot
    with d download_job_inv [OF q, of E "at_time d" h'] o cancelled_inv [OF q] show ?thesis by (auto simp: deliver_def)
  next
    case Download_signal
    with d downloadFinished_inv [OF q] o show ?thesis by (fastforce simp: deliver_def)
  next
    case Create_job
    with d do_create_inv [OF q] o show ?thesis by (auto simp: deliver_def)
  next
    case Create_watcher
    with inv o have "\<exists>r. createWatcher (h\<lparr>owed := None\<rparr>) = Some (Inr r) \<and>
        (\<not> cancelled (h\<lparr>owed := None\<rparr>) \<longrightarrow> (ba_error r = None \<longrightarrow> ba r \<noteq> []) \<and> ba_error r \<noteq> Some [])"
      by (simp add: h_inv_def futures_ok_def)
    from createFinished_inv [OF q _ this] Create_watcher d o show ?thesis by (auto simp: deliver_def)
  qed
qed

lemma destroy_inv:
  assumes "h_inv h" and "Handler_destroy h = (Inr (), h')"
  shows "h_inv h'"
  using assms
  by (auto simp: Handler_destroy_def waitForFinished_def Let_def h_inv_def futures_ok_def replies_ok_def
      split: sum.splits option.splits callback.splits)

lemma h_step_inv: "h_step E h h' \<Longrightarrow> h_inv h \<Longrightarrow> h_inv h'"
proof (induction rule: h_step.induct)
  case (Deliver h cb d h')
  then show ?case using deliver_inv by blast
next
  case (Cancel h)
  then show ?case by (auto simp: h_inv_def futures_ok_def replies_ok_def)
next
  case (Destroy h h')
  then show ?case using destroy_inv by blast
qed simp

lemma h_steps_inv: "(h_step E)\<^sup>*\<^sup>* h h' \<Longrightarrow> h_inv h \<Longrightarrow> h_inv h'"
  by (induction rule: rtranclp_induct) (auto intro: h_step_inv)

lemma begin_quiet_inv:
  assumes "quiet h0" and "begin_handler E now h0 = (Inr (), h)"
  shows "h_inv h \<and> owed_rank (owed h) \<le> 7"
proof -
  obtain calls cc where g: "creds_get (hp_service h0) (hp_id h0) (hp_creds h0) = (calls, cc)"
    by (cases "creds_get (hp_service h0) (hp_id h0) (hp_creds h0)")
  have q': "quiet (h0\<lparr>hp_creds := cc\<rparr>)" using assms(1) by simp
  show ?thesis
  proof (cases calls)
    case Nil
    with assms(2) g have "owe Credentials_cb (h0\<lparr>hp_creds := cc\<rparr>) = (Inr (), h)" by (simp add: begin_handler_def)
    from owe_inv [OF q' _ _ this] show ?thesis by simp
  next
    case (Cons c cs)
    with assms(2) g have "gotCredentials E now (snd c) (h0\<lparr>hp_creds := cc\<rparr>) = (Inr (), h)"
      by (cases c) (simp add: begin_handler_def)
    from gotCredentials_inv [OF q' this] show ?thesis by auto
  qed
qed

lemma Handler_quiet: "Handler i service limiter creds inactivity session details now0 = Inr h0 \<Longrightarrow> quiet h0 \<and> \<not> cancelled h0"
  by (auto simp: Handler_def rbind_Inr_iff quiet_def)

lemma begin_inv:
  assumes "Handler i service limiter creds inactivity session details now0 = Inr h0"
    and "begin_handler E now h0 = (Inr (), h)"
  shows "h_inv h"
  using begin_quiet_inv [OF _ assms(2)] Handler_quiet [OF assms(1)] by simp

section \<open>Exceptions that leave a slot\<close>

lemma sendError_Inr [simp]: "fst (sendError now m h) = Inr ()" and sendThumbnail_Inr [simp]: "fst (sendThumbnail now b h) = Inr ()"
  and owe_Inr [simp]: "fst (owe cb h) = Inr ()"
  by (simp_all add: sendError_def sendThumbnail_def owe_def)

lemma act_catch_throws: "fst (act_catch m f h) = Inl e \<Longrightarrow> catchable e \<Longrightarrow> \<exists>e' h'. fst (f e' h') = Inl e"
  by (auto simp: act_catch_def split: prod.splits sum.splits if_splits)

lemma gotCredentials_throws: "fst (gotCredentials E now cr h) = Inl e \<Longrightarrow> \<not> catchable e"
  by (auto simp: gotCredentials_def act_bind_def act_catch_def sendError_def owe_def
      split: if_splits sum.splits prod.splits)

lemma byte_array_or_error_throws: "fst (byte_array_or_error_of job h) = Inl e \<Longrightarrow> \<not> catchable e"
  by (auto simp: byte_array_or_error_of_def dest!: act_catch_throws)

lemma schedule_stage_throws: "fst (schedule_stage E now h) = Inl e \<Longrightarrow> \<not> catchable e"
  by (auto simp: schedule_stage_def Let_def split: if_splits dest!: act_catch_throws)

lemma checkFinished_throws: "fst (checkFinished E now h) = Inl e \<Longrightarrow> \<not> catchable e"
  by (auto simp: checkFinished_def split: if_splits option.splits sum.splits dest: schedule_stage_throws)

lemma createFinished_throws: "fst (createFinished now h) = Inl e \<Longrightarrow> \<not> catchable e"
  by (auto simp: createFinished_def split: if_splits option.splits sum.splits list.splits)

lemma act_bind_modify_throws: "fst (act_bind m (\<lambda>r. act_modify (f r)) h) = Inl e \<Longrightarrow> fst (m h) = Inl e"
  by (auto simp: act_bind_def split: prod.splits sum.splits)

lemma download_job_throws_download:
  "fst (download_job E now h) = Inl e \<Longrightarrow> \<exists>s. fst (download E 0 s) = Inl e"
  by (auto simp: download_job_def act_bind_def on_session_def act_zoom_def owe_def split: if_splits prod.splits sum.splits)
    (metis fst_conv)

lemma limiter_done_throws:
  "fst (limiter_done throws l) = Inl e \<Longrightarrow> catchable e \<Longrightarrow> \<exists>j. throws j = Some e"
  by (auto simp: limiter_done_def schedule_now_def Let_def split: if_splits prod.splits option.splits)

lemma downloadFinished_throws:
  "fst (downloadFinished throws now h) = Inl e \<Longrightarrow> catchable e \<Longrightarrow> \<exists>j. throws j = Some e"
  by (auto simp: downloadFinished_def act_bind_def act_zoom_def owe_def split: prod.splits sum.splits if_splits)
    (metis limiter_done_throws fst_conv)

lemma deliver_throws:
  assumes "fst (deliver E d cb h) = Inl e" and "catchable e"
  shows "(cb = Limiter_slot \<and> (\<exists>s. fst (download E 0 s) = Inl e)) \<or> (cb = Download_signal \<and> (\<exists>j. others_throw d j = Some e))"
proof (cases cb)
  case Check_job
  with assms show ?thesis
    by (auto simp: deliver_def do_check_def dest!: act_bind_modify_throws byte_array_or_error_throws)
next
  case Create_job
  with assms show ?thesis
    by (auto simp: deliver_def do_create_def dest!: act_bind_modify_throws byte_array_or_error_throws)
qed (use assms in \<open>auto simp: deliver_def dest: gotCredentials_throws checkFinished_throws createFinished_throws
      download_job_throws_download downloadFinished_throws\<close>)

section \<open>Callbacks do not cancel\<close>

lemma leaves_cancelled_basic [leaves_intros]:
  "leaves cancelled (sendError now m)" "leaves cancelled (sendThumbnail now b)" "leaves cancelled (owe cb)"
  "leaves cancelled (on_session a)"
  by (auto simp: leaves_def sendError_def sendThumbnail_def owe_def on_session_def act_zoom_def Let_def split: prod.splits)

lemma frame_cancelled: "leaves hp_frame m \<Longrightarrow> leaves cancelled m"
  by (simp add: leaves_def hp_frame_def)

lemma cancelled_modify [leaves_intros]:
  "leaves cancelled (act_modify (\<lambda>h. h\<lparr>signals := f1 h\<rparr>))"
  "leaves cancelled (act_modify (\<lambda>h. h\<lparr>checkWatcher := f2 h, owed := f3 h\<rparr>))"
  "leaves cancelled (act_modify (\<lambda>h. h\<lparr>createWatcher := f2 h, owed := f3 h\<rparr>))"
  "leaves cancelled (act_modify (\<lambda>h. h\<lparr>download_start_time := f4 h\<rparr>))"
  "leaves cancelled (act_modify (\<lambda>h. h\<lparr>download_finish_time := f4 h\<rparr>))"
  "leaves cancelled (act_modify (\<lambda>h. h\<lparr>hp_cancel_func := f5 h\<rparr>))"
  by (simp_all add: leaves_def)

lemma leaves_gotCredentials: "leaves cancelled (gotCredentials E now cr)"
  unfolding gotCredentials_def [abs_def] by (rule leaves_dep, intro leaves_intros leaves_catch)

lemma leaves_do_check: "leaves cancelled (do_check E now)"
  unfolding do_check_def
  by (intro leaves_intros frame_cancelled [OF leaves_byte_array_or_error [OF leaves_check]])

lemma leaves_do_create: "leaves cancelled (do_create E now)"
  unfolding do_create_def
  by (intro leaves_intros frame_cancelled [OF leaves_byte_array_or_error [OF leaves_create]])

lemma leaves_download_job: "leaves cancelled (download_job E now)"
  unfolding download_job_def [abs_def] by (rule leaves_dep, intro leaves_intros)

lemma leaves_schedule_download [leaves_intros]: "leaves cancelled (schedule_download E now)"
  unfolding leaves_def schedule_download_def
  by (auto split: prod.splits dest: leavesD [OF leaves_download_job])

lemma leaves_schedule_stage: "leaves cancelled (schedule_stage E now)"
proof -
  have "leaves cancelled (act_catch
          (act_bind (schedule_download E now) (\<lambda>cf. act_modify (\<lambda>h. h\<lparr>hp_cancel_func := Some cf\<rparr>)))
          (\<lambda>e. sendError now (m e)))" for m :: "exn \<Rightarrow> string"
    by (intro leaves_catch leaves_intros)
  then have catch: "cancelled (snd (act_catch
          (act_bind (schedule_download E now) (\<lambda>cf. act_modify (\<lambda>h. h\<lparr>hp_cancel_func := Some cf\<rparr>)))
          (\<lambda>e. sendError now (m e)) h)) = cancelled h" for m h
    by (simp add: leaves_def)
  show ?thesis
    unfolding leaves_def schedule_stage_def Let_def 
    by (simp add: catch leaves_cancelled_basic(1) [unfolded leaves_def, rule_format])
qed

lemma leaves_checkFinished: "leaves cancelled (checkFinished E now)"
  unfolding checkFinished_def [abs_def] by (rule leaves_dep, intro leaves_intros leaves_schedule_stage)

lemma leaves_createFinished: "leaves cancelled (createFinished now)"
  unfolding createFinished_def [abs_def] by (rule leaves_dep, intro leaves_intros)

lemma leaves_downloadFinished: "leaves cancelled (downloadFinished throws now)"
  unfolding downloadFinished_def
  by (intro leaves_intros leaves_zoom) (auto simp: leaves_def owe_def)

lemma deliver_cancelled: "deliver E d cb h = (r, h') \<Longrightarrow> cancelled h' = cancelled h"
  using leavesD [OF leaves_gotCredentials] leavesD [OF leaves_do_check] leavesD [OF leaves_checkFinished]
    leavesD [OF leaves_download_job] leavesD [OF leaves_downloadFinished] leavesD [OF leaves_do_create]
    leavesD [OF leaves_createFinished]
  by (cases cb) (fastforce simp: deliver_def)+

section \<open>Delivering everything that is owed\<close>

fun drive :: "('p, 'l, 'w) env \<Rightarrow> delivery list \<Rightarrow> 'w handler \<Rightarrow> unit result \<times> 'w handler" where
  "drive E [] h = (Inr (), h)"
| "drive E (d # ds) h =
     (case owed h of
        None \<Rightarrow> (Inr (), h)
      | Some cb \<Rightarrow> (case deliver E d cb h of (Inl e, h') \<Rightarrow> (Inl e, h') | (Inr _, h') \<Rightarrow> drive E ds h'))"

lemma owed_rank_0: "owed_rank x = 0 \<Longrightarrow> x = None"
  by (cases x rule: owed_rank.cases) simp_all

lemma owed_rank_le: "owed_rank x \<le> 7"
  by (cases x rule: owed_rank.cases) simp_all

lemma drive_inv:
  assumes "h_inv h" and "\<not> cancelled h" and "owed_rank (owed h) \<le> length ds" and "drive E ds h = (Inr (), h')"
  shows "h_inv h' \<and> \<not> cancelled h' \<and> owed h' = None"
  using assms
proof (induction ds arbitrary: h)
  case Nil
  then show ?case by (simp add: owed_rank_0)
next
  case (Cons d ds)
  show ?case
  proof (cases "owed h")
    case None
    with Cons.prems show ?thesis by simp
  next
    case (Some cb)
    obtain r h1 where d: "deliver E d cb h = (r, h1)" by (cases "deliver E d cb h")
    with Cons.prems(4) Some have r: "r = Inr ()" by (cases r) auto
    have "h_inv h1" "owed_rank (owed h1) \<le> length ds"
      using deliver_inv [OF Cons.prems(1) Some d [unfolded r]] Cons.prems(3) by auto
    moreover have "\<not> cancelled h1" using deliver_cancelled [OF d] Cons.prems(2) by simp
    moreover have "drive E ds h1 = (Inr (), h')" using Cons.prems(4) Some d r by simp
    ultimately show ?thesis using Cons.IH by blast
  qed
qed

lemma drive_throws:
  assumes "drive E ds h = (Inl e, h')" and "catchable e"
  shows "(\<exists>s. fst (download E 0 s) = Inl e) \<or> (\<exists>d \<in> set ds. \<exists>j. others_throw d j = Some e)"
  using assms(1)
proof (induction ds arbitrary: h)
  case (Cons d ds)
  then obtain cb where cb: "owed h = Some cb" by (cases "owed h") auto
  obtain r h1 where d: "deliver E d cb h = (r, h1)" by (cases "deliver E d cb h")
  show ?case
  proof (cases r)
    case (Inl e')
    with Cons.prems cb d have "fst (deliver E d cb h) = Inl e" by simp
    from deliver_throws [OF this assms(2)] show ?thesis by auto
  next
    case (Inr u)
    with Cons.prems cb d have "drive E ds h1 = (Inl e, h')" by simp
    from Cons.IH [OF this] show ?thesis by auto
  qed
qed simp

lemma begin_leaves_cancelled:
  assumes "begin_handler E now h0 = (r, h)"
  shows "cancelled h = cancelled h0"
proof -
  have "leaves cancelled (\<lambda>h. gotCredentials E now cr (h\<lparr>hp_creds := cc\<rparr>))" for cr cc
    using leaves_gotCredentials [of E now cr] by (simp add: leaves_def)
  then show ?thesis
    using assms by (auto simp: begin_handler_def owe_def split: prod.splits list.splits dest!: leavesD)
qed

lemma begin_not_cancelled:
  assumes "Handler i service limiter creds inactivity session details now0 = Inr h0"
    and "begin_handler E now h0 = (Inr (), h)"
  shows "\<not> cancelled h"
  using begin_leaves_cancelled [OF assms(2)] Handler_quiet [OF assms(1)] by simp

section \<open>A concrete handler\<close>

definition sample_creds :: "nat creds_cache" where
  "sample_creds = (CredentialsCache False)\<lparr>cur_cache := [('':1.5'', \<lparr>cr_valid = True, cr_user = 1000, cr_label = ''unconfined''\<rparr>)]\<rparr>"

definition sample_limiter :: "nat limiter" where
  "sample_limiter = \<lparr>concurrency = 1, running = 0, queue = [], next_handle = 0, started = []\<rparr>"

definition sample_inactivity :: inactivity where
  "sample_inactivity = \<lparr>num_active = 0, idle_timer = False, interval = 30000, expirations = 0\<rparr>"

text \<open>The handler of a request for \<open>/p\<close>, as the constructor leaves it.\<close>

definition sample_handler :: "mem handler" where
  "sample_handler =
     \<lparr>hp_id = 0, hp_service = '':1.5'', hp_session = sample_session ''/p'', hp_limiter = sample_limiter,
      hp_creds = sample_creds, hp_inactivity = sample_inactivity\<lparr>num_active := 1\<rparr>, start_time = 1, finish_time = 0,
      schedule_start_time = 0, download_start_time = 0, download_finish_time = 0, hp_details = ''thumbnail: /p'',
      hp_cancel_func = None, cancelled = False, checkWatcher = None, createWatcher = None, owed = None, sent = [],
      signals = 0, warnings = []\<rparr>"

definition sample_delivery :: delivery where
  "sample_delivery = \<lparr>at_time = 5, peer_creds = no_credentials, others_throw = (\<lambda>_. None)\<rparr>"

lemma sample_handler_new:
  "Handler 0 '':1.5'' sample_limiter sample_creds sample_inactivity (sample_session ''/p'') ''thumbnail: /p'' 1 = Inr sample_handler"
  by (simp add: Handler_def request_started_def sample_inactivity_def sample_handler_def)

lemma sample_handler_begin:
  "begin_handler sample_env 2 sample_handler = (Inr (), sample_handler\<lparr>owed := Some Check_job\<rparr>)"
  by (simp add: begin_handler_def sample_handler_def creds_get_def sample_creds_def gotCredentials_def act_catch_def
      act_bind_def check_client_credentials_def sample_session_def sample_request_def RequestBase_def sample_env_def
      apparmor_can_read_def query_file_def owe_def)

lemma sample_handler_check:
  "\<exists>s. deliver sample_env sample_delivery Check_job (sample_handler\<lparr>owed := Some Check_job\<rparr>) =
     (Inr (), sample_handler\<lparr>hp_session := s, checkWatcher := Some (Inr \<lparr>ba = ''jpeg'', ba_error = None\<rparr>),
                             owed := Some Check_watcher\<rparr>)"
proof -
  obtain s where "thumbnail sample_env 5 (sample_session ''/p'') = (Inr ''jpeg'', s)" using sample_run by blast
  then show ?thesis
    by (simp add: deliver_def do_check_def byte_array_or_error_of_def act_catch_def act_bind_def check_def on_session_def
        act_zoom_def sample_handler_def sample_delivery_def)
qed

lemma sample_handler_reply:
  "deliver sample_env sample_delivery Check_watcher
     (sample_handler\<lparr>hp_session := s, checkWatcher := Some (Inr \<lparr>ba = ''jpeg'', ba_error = None\<rparr>), owed := Some Check_watcher\<rparr>) =
   (Inr (), sample_handler\<lparr>hp_session := s, checkWatcher := Some (Inr \<lparr>ba = ''jpeg'', ba_error = None\<rparr>),
      sent := [Reply ''jpeg''], finish_time := 5, signals := 1\<rparr>)"
  by (simp add: deliver_def checkFinished_def sendThumbnail_def sample_handler_def sample_delivery_def)

lemma sample_handler_run:
  "\<exists>h. (h_step sample_env)\<^sup>*\<^sup>* (sample_handler\<lparr>owed := Some Check_job\<rparr>) h \<and> sent h = [Reply ''jpeg''] \<and> \<not> cancelled h"
proof -
  let ?h0 = "sample_handler\<lparr>owed := Some Check_job\<rparr>"
  obtain s where d: "deliver sample_env sample_delivery Check_job ?h0 =
     (Inr (), sample_handler\<lparr>hp_session := s, checkWatcher := Some (Inr \<lparr>ba = ''jpeg'', ba_error = None\<rparr>),
                             owed := Some Check_watcher\<rparr>)" (is "_ = (_, ?h1)")
    using sample_handler_check by blast
  have "h_step sample_env ?h0 ?h1" by (rule h_step.Deliver [OF _ d]) simp
  moreover have "h_step sample_env ?h1 (sample_handler\<lparr>hp_session := s,
      checkWatcher := Some (Inr \<lparr>ba = ''jpeg'', ba_error = None\<rparr>), sent := [Reply ''jpeg''], finish_time := 5, signals := 1\<rparr>)"
    (is "h_step _ _ ?h2") by (rule h_step.Deliver [OF _ sample_handler_reply]) simp
  ultimately have "(h_step sample_env)\<^sup>*\<^sup>* ?h0 ?h2" by simp
  moreover have "sent ?h2 = [Reply ''jpeg''] \<and> \<not> cancelled ?h2" by (simp add: sample_handler_def)
  ultimately show ?thesis by blast
qed

lemma sample_download_safe: "fst (download sample_env 0 s) = Inl e \<Longrightarrow> \<not> catchable e"
  by (auto simp: download_def Let_def sample_env_def ImageExtractor_def download_album_def download_artist_def download_url_def
      assert_valid_url_def act_bind_def ArtReply_net_def ArtReply_down_def
      split: request_kind.splits if_splits)

section \<open>Properties\<close>

text \<open>
  C9. One reply per request: whatever the other handlers do to the shared objects and whenever the handler is cancelled
  or destroyed, a handler that was created and begun sends at most one reply and emits \<open>finished\<close> at most once, never a
  reply without the signal; while it is not cancelled it has sent its reply exactly when the runtime owes it no
  further callback, and a thumbnail it sends is never empty.
\<close>

theorem handler_replies_once:
  assumes "Handler i service limiter creds inactivity session details now0 = Inr h0"
    and "begin_handler E now h0 = (Inr (), h1)" and "(h_step E)\<^sup>*\<^sup>* h1 h"
  shows "length (sent h) \<le> signals h \<and> signals h \<le> 1 \<and>
         (\<not> cancelled h \<longrightarrow> length (sent h) = signals h \<and> (signals h = 1 \<longleftrightarrow> owed h = None)) \<and>
         (\<forall>b. Reply b \<in> set (sent h) \<longrightarrow> b \<noteq> [])"
  using h_steps_inv [OF assms(3) begin_inv [OF assms(1,2)]]
  by (auto simp: h_inv_def replies_ok_def)

theorem handler_replies_once_witness:
  "\<exists>h. (h_step sample_env)\<^sup>*\<^sup>* (sample_handler\<lparr>owed := Some Check_job\<rparr>) h \<and> sent h = [Reply ''jpeg''] \<and>
       signals h = 1 \<and> owed h = None"
proof -
  obtain h where h: "(h_step sample_env)\<^sup>*\<^sup>* (sample_handler\<lparr>owed := Some Check_job\<rparr>) h" "sent h = [Reply ''jpeg'']" "\<not> cancelled h"
    using sample_handler_run by blast
  from handler_replies_once [OF sample_handler_new sample_handler_begin h(1)] h(2,3)
  have "signals h = 1 \<and> owed h = None" by auto
  with h show ?thesis by blast
qed



text \<open>
  A lost slot: when a slot is free and \<open>download()\<close> throws, the exception leaves \<open>schedule\<close> after the limiter has
  counted the job as running. The client gets its error reply, but the handler is owed nothing any more, so that
  \<open>downloadFinished\<close>, the only caller of \<open>done()\<close>, never runs for it: the slot stays taken.
\<close>

theorem throwing_download_leaks_slot:
  assumes "\<not> cancelled h" and "owed h = None" and "checkWatcher h = Some (Inr \<lparr>ba = [], ba_error = None\<rparr>)"
    and "hp_status h = Needs_download" and "0 \<le> running (hp_limiter h)"
    and "running (hp_limiter h) < concurrency (hp_limiter h)"
    and "download E 0 (hp_session h) = (Inl e, s')" and "catchable e"
  shows "\<exists>h'. checkFinished E now h = (Inr (), h') \<and> running (hp_limiter h') = running (hp_limiter h) + 1 \<and>
          owed h' = None \<and> (\<exists>m. sent h' = sent h @ [Error_reply ART_ERROR m])"
proof -
  let ?h1 = "h\<lparr>schedule_start_time := now\<rparr>"
  have "download_job E now ?h1 = (Inl e, ?h1\<lparr>download_start_time := now, hp_session := s'\<rparr>)"
    using assms(1,7) by (simp add: download_job_def act_bind_def on_session_def act_zoom_def)
  then have "schedule_download E now ?h1 =
      (Inl e, ?h1\<lparr>download_start_time := now, hp_session := s',
         hp_limiter := (hp_limiter h)\<lparr>running := running (hp_limiter h) + 1, started := started (hp_limiter h) @ [hp_id h]\<rparr>\<rparr>)"
    using assms(5,6) by (simp add: schedule_download_def schedule_def schedule_now_def)
  with assms show ?thesis
    by (simp add: checkFinished_def schedule_stage_def act_catch_def act_bind_def sendError_def Let_def)
qed

definition leaky_handler :: "mem handler" where
  "leaky_handler = sample_handler\<lparr>hp_session := \<lparr>rq = (sample_request ''/p'')\<lparr>status := Needs_download\<rparr>, tn = sample_thumbnailer\<rparr>,
     checkWatcher := Some (Inr \<lparr>ba = [], ba_error = None\<rparr>)\<rparr>"

theorem throwing_download_leaks_slot_witness:
  "\<exists>h'. checkFinished (sample_env\<lparr>os_pipe2 := Some 24\<rparr>) 5 leaky_handler = (Inr (), h') \<and>
     running (hp_limiter h') = 1 \<and> owed h' = None \<and> (\<exists>m. sent h' = [Error_reply ART_ERROR m])"
proof -
  have "\<exists>e s'. download (sample_env\<lparr>os_pipe2 := Some 24\<rparr>) 0 (hp_session leaky_handler) = (Inl e, s') \<and> catchable e"
    by (simp add: download_def leaky_handler_def sample_request_def RequestBase_def ImageExtractor_def Let_def act_bind_def
        exI [of _ "Runtime_error _"])
  then obtain e s' where "download (sample_env\<lparr>os_pipe2 := Some 24\<rparr>) 0 (hp_session leaky_handler) = (Inl e, s')" "catchable e"
    by blast
  from throwing_download_leaks_slot [OF _ _ _ _ _ _ this, of 5] show ?thesis
    by (simp add: leaky_handler_def sample_handler_def sample_limiter_def)
qed

end
