(* ===== verification/Handler_Effects.thy ===== *)
theory Handler_Effects
  imports Handler_Protocol
begin

text \<open>
  What a stage of a request handler does to the objects it shares with the other handlers: which of the limiter,
  the credentials cache and the activity count it changes, and how that change goes with the callback the handler is owed next.
\<close>

section \<open>Frames\<close>

text \<open>The shared bookkeeping, and the handler's own members no stage changes.\<close>

definition shared :: "'w handler \<Rightarrow> nat creds_cache \<times> inactivity \<times> nat \<times> string" where
  "shared h = (hp_creds h, hp_inactivity h, hp_id h, hp_service h)"

definition slots :: "'w handler \<Rightarrow> nat limiter \<times> cancel_func option" where
  "slots h = (hp_limiter h, hp_cancel_func h)"

definition books :: "'w handler \<Rightarrow> (nat creds_cache \<times> inactivity \<times> nat \<times> string) \<times> nat limiter \<times> cancel_func option" where
  "books h = (shared h, slots h)"

lemma leaves_books_basic [leaves_intros]:
  "leaves books (sendError now m)" "leaves books (sendThumbnail now b)" "leaves books (owe cb)" "leaves books (on_session a)"
  by (auto simp: leaves_def books_def shared_def slots_def sendError_def sendThumbnail_def owe_def on_session_def act_zoom_def Let_def
      split: prod.splits)

lemma leaves_books_modify [leaves_intros]:
  "leaves books (act_modify (\<lambda>h. h\<lparr>signals := f1 h\<rparr>))"
  "leaves books (act_modify (\<lambda>h. h\<lparr>checkWatcher := f2 h, owed := f3 h\<rparr>))"
  "leaves books (act_modify (\<lambda>h. h\<lparr>createWatcher := f2 h, owed := f3 h\<rparr>))"
  "leaves books (act_modify (\<lambda>h. h\<lparr>download_start_time := f4 h\<rparr>))"
  by (simp_all add: leaves_def books_def shared_def slots_def)

lemma books_gotCredentials: "leaves books (gotCredentials E now cr)"
  unfolding gotCredentials_def [abs_def] by (rule leaves_dep, intro leaves_intros leaves_catch)

lemma books_check: "leaves books (check E now)"
  unfolding check_def [abs_def] by (rule leaves_dep, intro leaves_intros)

lemma books_create: "leaves books (create E now)"
  unfolding create_def [abs_def]
  by (rule leaves_dep, intro leaves_intros) (auto simp: leaves_def)

lemma books_byte_array_or_error: "leaves books job \<Longrightarrow> leaves books (byte_array_or_error_of job)"
  unfolding byte_array_or_error_of_def by (intro leaves_catch leaves_intros)

lemma books_do_check: "leaves books (do_check E now)"
  unfolding do_check_def by (intro leaves_intros books_byte_array_or_error books_check)

lemma books_do_create: "leaves books (do_create E now)"
  unfolding do_create_def by (intro leaves_intros books_byte_array_or_error books_create)

lemma books_createFinished: "leaves books (createFinished now)"
  unfolding createFinished_def [abs_def] by (rule leaves_dep, intro leaves_intros)

lemma books_download_job: "leaves books (download_job E now)"
  unfolding download_job_def [abs_def] by (rule leaves_dep, intro leaves_intros)

lemma books_eq: "books h' = books h \<longleftrightarrow> shared h' = shared h \<and> slots h' = slots h"
  by (simp add: books_def)

section \<open>Scheduling\<close>

text \<open>
  When downloads do not throw, the job scheduled by \<open>checkFinished\<close> either runs at once, so that the end of the download is
  owed, or waits in the limiter.
\<close>

definition downloads_safe :: "('p, 'l, 'w) env \<Rightarrow> bool" where
  "downloads_safe E \<longleftrightarrow> (\<forall>s e. fst (download E 0 s) = Inl e \<longrightarrow> \<not> catchable e)"

definition took_slot :: "'w handler \<Rightarrow> 'w handler \<Rightarrow> bool" where
  "took_slot h h' \<longleftrightarrow>
     (\<exists>cf. schedule no_throw (hp_id h) (hp_limiter h) = (Inr cf, hp_limiter h') \<and> hp_cancel_func h' = Some cf \<and>
           owed h' = Some (if running (hp_limiter h) < concurrency (hp_limiter h) then Download_signal else Limiter_slot))"

lemma schedule_no_throw:
  "schedule throws j l = (Inr cf, l') \<Longrightarrow> schedule no_throw j l = (Inr cf, l')"
  by (auto simp: schedule_def schedule_now_def Let_def split: if_splits option.splits)

lemma limiter_done_no_throw:
  "limiter_done throws l = (Inr (), l') \<Longrightarrow> limiter_done no_throw l = (Inr (), l')"
  by (auto simp: limiter_done_def schedule_now_def Let_def split: if_splits option.splits prod.splits)

lemma schedule_download_effect:
  assumes "\<not> cancelled h" and "schedule_download E now h = (Inr cf, h')"
  shows "shared h' = shared h \<and> schedule no_throw (hp_id h) (hp_limiter h) = (Inr cf, hp_limiter h') \<and>
         owed h' = Some (if running (hp_limiter h) < concurrency (hp_limiter h) then Download_signal else Limiter_slot)"
proof -
  obtain r h1 where dj: "download_job E now h = (r, h1)" by (cases "download_job E now h")
  define throws where "throws = (\<lambda>j::nat. case r of Inl e \<Rightarrow> Some e | Inr _ \<Rightarrow> None)"
  obtain res l where sch: "schedule throws (hp_id h) (hp_limiter h) = (res, l)" by (cases "schedule throws (hp_id h) (hp_limiter h)")
  have pos: "0 \<le> running (hp_limiter h)" if "res = Inr c" for c
    using sch that by (auto simp: schedule_def split: if_splits)
  show ?thesis
  proof (cases "started l = started (hp_limiter h)")
    case True
    with assms(2) dj sch have *: "res = Inr cf" "h' = h\<lparr>hp_limiter := l, owed := Some Limiter_slot\<rparr>"
      by (simp_all add: schedule_download_def throws_def [symmetric])
    with True pos schedule_started(1) [OF sch] schedule_no_throw [of throws] sch show ?thesis by (simp add: shared_def)
  next
    case False
    with assms(2) dj sch have *: "res = Inr cf" "h' = h1\<lparr>hp_limiter := l\<rparr>"
      by (simp_all add: schedule_download_def throws_def [symmetric])
    with schedule_started(2) [OF sch False] have r: "r = Inr ()" by (auto simp: throws_def split: sum.splits option.splits)
    from assms(1) dj r have "owed h1 = Some Download_signal"
      by (auto simp: download_job_def act_bind_Inr_iff owe_def)
    moreover have "shared h1 = shared h" using leavesD [OF books_download_job dj] by (simp add: books_def)
    ultimately show ?thesis
      using * False schedule_started(1) [OF sch] schedule_no_throw [of throws] sch by (simp add: shared_def)
  qed
qed

lemma schedule_download_throws:
  assumes "downloads_safe E" and "schedule_download E now h = (Inl e, h')"
  shows "\<not> catchable e"
proof -
  obtain r h1 where dj: "download_job E now h = (r, h1)" by (cases "download_job E now h")
  have "r = Inl e \<or> \<not> catchable e"
    using assms(2) dj
    by (auto simp: schedule_download_def schedule_def schedule_now_def Let_def split: if_splits prod.splits sum.splits option.splits)
  with dj download_job_throws_download [of E now h e] assms(1) show ?thesis by (auto simp: downloads_safe_def)
qed

lemma sendError_done: "sendError now m h = (r, h') \<Longrightarrow> owed h = None \<Longrightarrow> books h' = books h \<and> owed h' = None"
  by (frule leavesD [OF leaves_books_basic(1)]) (auto simp: sendError_def Let_def split: if_splits)

lemma schedule_stage_effect:
  assumes "downloads_safe E" and "\<not> cancelled h" and "owed h = None" and "schedule_stage E now h = (Inr (), h')"
  shows "shared h' = shared h \<and> (slots h' = slots h \<and> owed h' = None \<or> took_slot h h')"
proof -
  define h1 where "h1 = h\<lparr>schedule_start_time := now\<rparr>"
  have h1: "\<not> cancelled h1" "owed h1 = None" "books h1 = books h" using assms by (simp_all add: h1_def books_def shared_def slots_def)
  show ?thesis
  proof (cases "hp_status h1 = Needs_download")
    case False
    with assms(4) h1 show ?thesis
      by (auto simp: schedule_stage_def h1_def [symmetric] Let_def books_eq dest!: sendError_done)
  next
    case True
    obtain res h2 where sch: "schedule_download E now h1 = (res, h2)" by (cases "schedule_download E now h1")
    with assms(1,4) True obtain cf where "res = Inr cf" "h' = h2\<lparr>hp_cancel_func := Some cf\<rparr>"
      by (cases res) (auto simp: schedule_stage_def h1_def [symmetric] Let_def act_catch_def act_bind_def
          dest: schedule_download_throws split: if_splits)
    with schedule_download_effect [OF h1(1), of E now cf h2] sch h1(3) show ?thesis
      by (auto simp: took_slot_def shared_def books_def slots_def)
  qed
qed

lemma checkFinished_effect:
  assumes "downloads_safe E" and "\<not> cancelled h" and "owed h = None" and "checkFinished E now h = (Inr (), h')"
  shows "shared h' = shared h \<and> (slots h' = slots h \<and> owed h' = None \<or> took_slot h h')"
proof -
  obtain r where r: "checkWatcher h = Some r" using assms(2,4) by (cases "checkWatcher h") (simp_all add: checkFinished_def)
  have send: "shared h' = shared h \<and> slots h' = slots h \<and> owed h' = None" if "sendThumbnail now b h = (Inr (), h')" for b
    using that assms(3) leavesD [OF leaves_books_basic(2) that] by (auto simp: sendThumbnail_def books_eq)
  show ?thesis
    using assms r schedule_stage_effect [OF assms(1-3), of now h'] send
    by (auto simp: checkFinished_def books_eq split: sum.splits option.splits if_splits dest!: sendError_done)
qed

lemma downloadFinished_effect:
  assumes "\<not> cancelled h" and "downloadFinished throws now h = (Inr (), h')"
  shows "shared h' = shared h \<and> hp_cancel_func h' = hp_cancel_func h \<and> owed h' = Some Create_job \<and>
         limiter_done no_throw (hp_limiter h) = (Inr (), hp_limiter h')"
  using assms
  by (auto simp: downloadFinished_def act_bind_Inr_iff act_zoom_def owe_def shared_def split: prod.splits
      dest: limiter_done_no_throw)

text \<open>Starting a handler: it is owed its credentials exactly if the cache did not have them.\<close>

lemma begin_effect:
  assumes "begin_handler E now h = (Inr (), h')" and "quiet h"
  shows "\<exists>cs. creds_get (hp_service h) (hp_id h) (hp_creds h) = (cs, hp_creds h') \<and>
           (if cs = [] then owed h' = Some Credentials_cb else owed h' \<in> {None, Some Check_job}) \<and>
           slots h' = slots h \<and> hp_inactivity h' = hp_inactivity h \<and> hp_id h' = hp_id h"
proof -
  obtain cs cc where g: "creds_get (hp_service h) (hp_id h) (hp_creds h) = (cs, cc)"
    by (cases "creds_get (hp_service h) (hp_id h) (hp_creds h)")
  have q: "quiet (h\<lparr>hp_creds := cc\<rparr>)" using assms(2) by simp
  show ?thesis
  proof (cases cs)
    case Nil
    with assms(1) g show ?thesis by (auto simp: begin_handler_def owe_def slots_def)
  next
    case (Cons c cs')
    with assms(1) g have "gotCredentials E now (snd c) (h\<lparr>hp_creds := cc\<rparr>) = (Inr (), h')"
      by (cases c) (simp add: begin_handler_def)
    from leavesD [OF books_gotCredentials this] gotCredentials_inv [OF q this] g Cons show ?thesis
      by (auto simp: books_def shared_def slots_def)
  qed
qed

text \<open>Destruction cancels the job the handler scheduled and counts the request as completed.\<close>

lemma destroy_effect:
  assumes "Handler_destroy h = (Inr (), h')"
  shows "cancelled h' \<and> owed h' = None \<and> sent h' = sent h \<and> signals h' = signals h \<and> hp_id h' = hp_id h \<and>
         hp_creds h' = hp_creds h \<and> hp_cancel_func h' = hp_cancel_func h \<and>
         hp_limiter h' = (case hp_cancel_func h of None \<Rightarrow> hp_limiter h | Some cf \<Rightarrow> snd (cancel cf (hp_limiter h))) \<and>
         request_completed (hp_inactivity h) = Inr (hp_inactivity h')"
  using assms
  by (auto simp: Handler_destroy_def waitForFinished_def Let_def split: sum.splits option.splits callback.splits)

end
