(* ===== verification/Service_Events.thy ===== *)
theory Service_Events
  imports Request_Chain Handler_Effects
begin

text \<open>
  The running service: all handlers with the objects they share. \<open>DBusInterface\<close> accepts method calls, chains the
  requests for one key and starts handlers; the handlers share the thumbnailer, the two limiters, the credentials
  cache and the inactivity handler. The event loop takes one event at a time: a method call, the next callback of a
  handler, the end of a download or extraction, the bus daemon's answer to a credentials query, or a deferred deletion.
\<close>

section \<open>State\<close>

text \<open>
  A method call and its handler have the same number. Handlers stay in \<open>sv_handlers\<close> after their destruction, as
  a record of what they sent; \<open>sv_refused\<close> has the error replies to calls for which no request could be created, and
  \<open>sv_abort\<close> an exception that no \<open>catch\<close> clause handles, which ends the process.
\<close>

record 'w service =
  sv_tn :: "'w thumbnailer"
  sv_download :: "nat limiter"
  sv_extraction :: "nat limiter"
  sv_creds :: "nat creds_cache"
  sv_inactivity :: inactivity
  sv_handlers :: "nat \<rightharpoonup> limiter_ref \<times> 'w handler"
  sv_refused :: "(nat \<times> bus_reply) list"
  sv_abort :: "exn option"

fun limiter_at :: "limiter_ref \<Rightarrow> 'w service \<Rightarrow> nat limiter" where
  "limiter_at Download_limiter W = sv_download W"
| "limiter_at Extraction_limiter W = sv_extraction W"

fun set_limiter :: "limiter_ref \<Rightarrow> nat limiter \<Rightarrow> 'w service \<Rightarrow> 'w service" where
  "set_limiter Download_limiter L W = W\<lparr>sv_download := L\<rparr>"
| "set_limiter Extraction_limiter L W = W\<lparr>sv_extraction := L\<rparr>"

text \<open>A handler refers to the shared objects: an operation reads their current state and its changes are visible to all.\<close>

definition attach :: "limiter_ref \<Rightarrow> 'w service \<Rightarrow> 'w handler \<Rightarrow> 'w handler" where
  "attach l W h =
     h\<lparr>hp_session := (hp_session h)\<lparr>tn := sv_tn W\<rparr>, hp_limiter := limiter_at l W, hp_creds := sv_creds W,
       hp_inactivity := sv_inactivity W\<rparr>"

definition detach :: "nat \<Rightarrow> limiter_ref \<Rightarrow> 'w handler \<Rightarrow> 'w service \<Rightarrow> 'w service" where
  "detach i l h W =
     (set_limiter l (hp_limiter h) W)\<lparr>sv_tn := tn (hp_session h), sv_creds := hp_creds h,
       sv_inactivity := hp_inactivity h, sv_handlers := (sv_handlers W)(i \<mapsto> (l, h))\<rparr>"

definition run_on :: "nat \<Rightarrow> ('w handler, unit) act \<Rightarrow> ('w service, unit) act" where
  "run_on i m W =
     (case sv_handlers W i of
        None \<Rightarrow> (Inl (Null_deref ''handler''), W)
      | Some (l, h) \<Rightarrow> (case m (attach l W h) of (r, h') \<Rightarrow> (r, detach i l h' W)))"

section \<open>Starting and finishing handlers\<close>

definition emitted :: "nat \<Rightarrow> 'w service \<Rightarrow> bool" where
  "emitted i W = (case sv_handlers W i of None \<Rightarrow> False | Some (l, h) \<Rightarrow> 0 < signals h)"

definition service_begin :: "('p, 'l, 'w) env \<Rightarrow> int \<Rightarrow> 'w service begin_fun" where
  "service_begin E now i W =
     (case run_on i (begin_handler E now) W of
        (Inr _, W') \<Rightarrow> (emitted i W', W')
      | (Inl e, W') \<Rightarrow> (False, W'\<lparr>sv_abort := Some e\<rparr>))"

text \<open>The slots of \<open>finished\<close> run when handler \<open>i\<close> has emitted it.\<close>

definition settle ::
  "('p, 'l, 'w) env \<Rightarrow> (nat \<Rightarrow> string) \<Rightarrow> int \<Rightarrow> nat \<Rightarrow> 'w service dbus \<Rightarrow> 'w service dbus result" where
  "settle E hkey now i db =
     (if emitted i (world db)
      then case emit_finished hkey (service_begin E now) (length (requests_for (hkey i) db)) i db of
             None \<Rightarrow> Inl Abort
           | Some db' \<Rightarrow> (case sv_abort (world db') of Some e \<Rightarrow> Inl e | None \<Rightarrow> Inr db')
      else Inr db)"

definition run_handler ::
  "('p, 'l, 'w) env \<Rightarrow> (nat \<Rightarrow> string) \<Rightarrow> delivery \<Rightarrow> callback \<Rightarrow> nat \<Rightarrow> 'w service dbus \<Rightarrow> 'w service dbus result" where
  "run_handler E hkey d cb i db =
     (case run_on i (deliver E d cb) (world db) of
        (Inl e, W) \<Rightarrow> Inl e
      | (Inr _, W) \<Rightarrow> settle E hkey (at_time d) i (db\<lparr>world := W\<rparr>))"

definition plain_delivery :: "int \<Rightarrow> credentials \<Rightarrow> delivery" where
  "plain_delivery now cr = \<lparr>at_time = now, peer_creds = cr, others_throw = no_throw\<rparr>"

section \<open>Method calls\<close>

datatype bus_call = Album_art_call string string qsize | Artist_art_call string string qsize | Thumbnail_call string qsize

fun dispatch :: "('p, 'l, 'w) env \<Rightarrow> 'w thumbnailer \<Rightarrow> bus_call \<Rightarrow> call_outcome" where
  "dispatch E t (Album_art_call artist album sz) = GetAlbumArt t artist album sz"
| "dispatch E t (Artist_art_call artist album sz) = GetArtistArt t artist album sz"
| "dispatch E t (Thumbnail_call filename sz) = GetThumbnail E t filename sz"

definition method_call ::
  "('p, 'l, 'w) env \<Rightarrow> (nat \<Rightarrow> string) \<Rightarrow> int \<Rightarrow> nat \<Rightarrow> string \<Rightarrow> bus_call \<Rightarrow> 'w service dbus \<Rightarrow> 'w service dbus result" where
  "method_call E hkey now i peer m db =
     (let W = world db
      in case dispatch E (sv_tn W) m of
           Call_error name msg warning \<Rightarrow> Inr (db\<lparr>world := W\<lparr>sv_refused := sv_refused W @ [(i, Error_reply name msg)]\<rparr>\<rparr>)
         | New_handler l r details \<Rightarrow>
             rbind (Handler i peer (limiter_at l W) (sv_creds W) (sv_inactivity W) \<lparr>rq = r, tn = sv_tn W\<rparr> details now) (\<lambda>h.
             case queueRequest hkey (service_begin E now) i (db\<lparr>world := detach i l h W\<rparr>) of
               (Inl e, db') \<Rightarrow> Inl e
             | (Inr _, db') \<Rightarrow> (case sv_abort (world db') of Some e \<Rightarrow> Inl e | None \<Rightarrow> Inr db')))"

section \<open>The end of a download or extraction\<close>

text \<open>
  \<open>downloadFinished\<close> of handler \<open>i\<close> frees its slot, so that \<open>done()\<close> may call the waiting job of another handler. The two
  handlers' own members are disjoint and \<open>downloadFinished\<close> does not touch the thumbnailer, so that the other job is run after
  it here. The outcome of the download is the new state \<open>k\<close> of the request.
\<close>

definition set_kind :: "nat \<Rightarrow> request_kind \<Rightarrow> 'w service \<Rightarrow> 'w service" where
  "set_kind i k W =
     (case sv_handlers W i of
        None \<Rightarrow> W
      | Some (l, h) \<Rightarrow>
          W\<lparr>sv_handlers := (sv_handlers W)(i \<mapsto> (l, h\<lparr>hp_session := (hp_session h)\<lparr>rq := (rq (hp_session h))\<lparr>kind := k\<rparr>\<rparr>\<rparr>))\<rparr>)"

definition job_throws :: "('p, 'l, 'w) env \<Rightarrow> int \<Rightarrow> 'w service \<Rightarrow> nat \<Rightarrow> exn option" where
  "job_throws E now W j = (case fst (run_on j (download_job E now) W) of Inl e \<Rightarrow> Some e | Inr _ \<Rightarrow> None)"

definition limiter_of :: "nat \<Rightarrow> 'w service \<Rightarrow> nat limiter" where
  "limiter_of i W = (case sv_handlers W i of None \<Rightarrow> sv_download W | Some (l, h) \<Rightarrow> limiter_at l W)"

definition newly_started :: "nat limiter \<Rightarrow> nat limiter \<Rightarrow> nat option" where
  "newly_started l l' = (if started l' = started l then None else Some (last (started l')))"

definition download_end ::
  "('p, 'l, 'w) env \<Rightarrow> int \<Rightarrow> nat \<Rightarrow> request_kind \<Rightarrow> 'w service dbus \<Rightarrow> 'w service dbus result" where
  "download_end E now i k db =
     (let W1 = set_kind i k (world db);
          d = plain_delivery now no_credentials
      in case run_on i (deliver E (d\<lparr>others_throw := job_throws E now W1\<rparr>) Download_signal) W1 of
           (Inl e, _) \<Rightarrow> Inl e
         | (Inr _, W2) \<Rightarrow>
             (case newly_started (limiter_of i W1) (limiter_of i W2) of
                None \<Rightarrow> Inr (db\<lparr>world := W2\<rparr>)
              | Some j \<Rightarrow> (case run_on j (deliver E d Limiter_slot) W2 of
                            (Inl e, _) \<Rightarrow> Inl e
                          | (Inr _, W3) \<Rightarrow> Inr (db\<lparr>world := W3\<rparr>))))"

section \<open>Credentials and deletion\<close>

fun call_each ::
  "('p, 'l, 'w) env \<Rightarrow> (nat \<Rightarrow> string) \<Rightarrow> int \<Rightarrow> (nat \<times> credentials) list \<Rightarrow> 'w service dbus \<Rightarrow> 'w service dbus result" where
  "call_each E hkey now [] db = Inr db"
| "call_each E hkey now ((i, cr) # cs) db =
     rbind (run_handler E hkey (plain_delivery now cr) Credentials_cb i db) (call_each E hkey now cs)"

definition peer_answer ::
  "('p, 'l, 'w) env \<Rightarrow> (nat \<Rightarrow> string) \<Rightarrow> int \<Rightarrow> string \<Rightarrow> (int \<times> string) option \<Rightarrow> 'w service dbus \<Rightarrow> 'w service dbus result" where
  "peer_answer E hkey now peer reply db =
     (case received_credentials peer reply (sv_creds (world db)) of
        (Inl e, _) \<Rightarrow> Inl e
      | (Inr cs, c) \<Rightarrow> call_each E hkey now cs (db\<lparr>world := (world db)\<lparr>sv_creds := c\<rparr>\<rparr>))"

definition deferred_delete :: "nat \<Rightarrow> 'w service dbus \<Rightarrow> 'w service dbus result" where
  "deferred_delete i db =
     (case run_on i Handler_destroy (world db) of
        (Inl e, _) \<Rightarrow> Inl e
      | (Inr _, W) \<Rightarrow> Inr (db\<lparr>world := W, delete_later := removeAll i (delete_later db)\<rparr>))"

section \<open>Events\<close>

datatype service_event =
    Method_call nat string bus_call
  | Callback nat
  | Download_end nat request_kind
  | Peer_answer string "(int \<times> string) option"
  | Deferred_delete nat

definition owed_to :: "nat \<Rightarrow> 'w service \<Rightarrow> callback option" where
  "owed_to i W = (case sv_handlers W i of None \<Rightarrow> None | Some (l, h) \<Rightarrow> owed h)"

text \<open>The callbacks the event loop and the thread pools deliver by themselves.\<close>

definition loop_callback :: "callback \<Rightarrow> bool" where
  "loop_callback cb \<longleftrightarrow> cb \<in> {Check_job, Check_watcher, Create_job, Create_watcher}"

fun handle ::
  "('p, 'l, 'w) env \<Rightarrow> (nat \<Rightarrow> string) \<Rightarrow> int \<Rightarrow> service_event \<Rightarrow> 'w service dbus \<Rightarrow> 'w service dbus result" where
  "handle E hkey now (Method_call i peer m) db = method_call E hkey now i peer m db"
| "handle E hkey now (Callback i) db =
     (case owed_to i (world db) of
        None \<Rightarrow> Inr db
      | Some cb \<Rightarrow> run_handler E hkey (plain_delivery now no_credentials) cb i db)"
| "handle E hkey now (Download_end i k) db = download_end E now i k db"
| "handle E hkey now (Peer_answer peer reply) db = peer_answer E hkey now peer reply db"
| "handle E hkey now (Deferred_delete i) db = deferred_delete i db"

text \<open>
  When an event can occur. A call has a new number, for which \<open>hkey\<close> gives the request's key; the bus daemon answers
  outstanding queries, with a terminated label.
\<close>

fun due :: "('p, 'l, 'w) env \<Rightarrow> (nat \<Rightarrow> string) \<Rightarrow> service_event \<Rightarrow> 'w service dbus \<Rightarrow> bool" where
  "due E hkey (Method_call i peer m) db \<longleftrightarrow>
     fresh_handler i db \<and> sv_handlers (world db) i = None \<and> i \<notin> fst ` set (sv_refused (world db)) \<and>
     (case dispatch E (sv_tn (world db)) m of New_handler l r details \<Rightarrow> key r = hkey i | Call_error _ _ _ \<Rightarrow> True)"
| "due E hkey (Callback i) db \<longleftrightarrow> (case owed_to i (world db) of None \<Rightarrow> False | Some cb \<Rightarrow> loop_callback cb)"
| "due E hkey (Download_end i k) db \<longleftrightarrow> owed_to i (world db) = Some Download_signal"
| "due E hkey (Peer_answer peer reply) db \<longleftrightarrow>
     map_of (pending (sv_creds (world db))) peer \<noteq> None \<and> terminated_answer (Answer peer reply :: nat creds_event)"
| "due E hkey (Deferred_delete i) db \<longleftrightarrow> i \<in> set (delete_later db)"

inductive service_step ::
  "('p, 'l, 'w) env \<Rightarrow> (nat \<Rightarrow> string) \<Rightarrow> service_event \<Rightarrow> 'w service dbus \<Rightarrow> 'w service dbus \<Rightarrow> bool" for E hkey where
  "due E hkey ev db \<Longrightarrow> handle E hkey now ev db = Inr db' \<Longrightarrow> service_step E hkey ev db db'"

inductive_cases service_stepE: "service_step E hkey ev db db'"

fun is_call :: "service_event \<Rightarrow> bool" where
  "is_call (Method_call i peer m) = True"
| "is_call _ = False"

definition service_reaches :: "('p, 'l, 'w) env \<Rightarrow> (nat \<Rightarrow> string) \<Rightarrow> 'w service dbus \<Rightarrow> 'w service dbus \<Rightarrow> bool" where
  "service_reaches E hkey = (\<lambda>db db'. \<exists>ev. service_step E hkey ev db db')\<^sup>*\<^sup>*"

text \<open>The service after start-up: no handlers, free limiters, an empty credentials cache, no active requests.\<close>

definition new_service :: "'w thumbnailer \<Rightarrow> dbus_config \<Rightarrow> bool \<Rightarrow> inactivity \<Rightarrow> 'w service dbus" where
  "new_service t c aa_enabled inactivity_handler =
     no_requests
       \<lparr>sv_tn = t, sv_download = download_limiter c, sv_extraction = extraction_limiter c,
        sv_creds = CredentialsCache aa_enabled, sv_inactivity = inactivity_handler, sv_handlers = Map.empty,
        sv_refused = [], sv_abort = None\<rparr>"

end
