(* ===== verification/Service_Invariant.thy ===== *)
theory Service_Invariant
  imports Service_Events
begin

text \<open>
  The invariant of the running service: the shared objects agree with the handlers. The callbacks waiting in the
  credentials cache are those of the handlers that are owed credentials, the jobs waiting in a limiter those of the handlers
  that are owed a slot, the slots in use the downloads in progress, and the active requests the handlers not yet destroyed.
\<close>

section \<open>Handlers by what they are owed\<close>

definition owing :: "'w service \<Rightarrow> limiter_ref \<Rightarrow> callback \<Rightarrow> nat set" where
  "owing W l cb = {i. \<exists>h. sv_handlers W i = Some (l, h) \<and> owed h = Some cb}"

definition asking :: "'w service \<Rightarrow> nat set" where
  "asking W = {i. owed_to i W = Some Credentials_cb}"

definition alive :: "'w service \<Rightarrow> nat set" where
  "alive W = {i. \<exists>l h. sv_handlers W i = Some (l, h) \<and> \<not> cancelled h}"

lemma limiter_at_set [simp]:
  "limiter_at l (set_limiter l' L W) = (if l = l' then L else limiter_at l W)"
  by (cases l; cases l') simp_all

lemma limiter_at_update [simp]:
  "limiter_at l (W\<lparr>sv_tn := t\<rparr>) = limiter_at l W" "limiter_at l (W\<lparr>sv_creds := c\<rparr>) = limiter_at l W"
  "limiter_at l (W\<lparr>sv_inactivity := a\<rparr>) = limiter_at l W" "limiter_at l (W\<lparr>sv_handlers := m\<rparr>) = limiter_at l W"
  "limiter_at l (W\<lparr>sv_refused := f\<rparr>) = limiter_at l W" "limiter_at l (W\<lparr>sv_abort := x\<rparr>) = limiter_at l W"
  by (cases l; simp)+

lemma set_limiter_simps [simp]:
  "sv_tn (set_limiter l L W) = sv_tn W" "sv_creds (set_limiter l L W) = sv_creds W"
  "sv_inactivity (set_limiter l L W) = sv_inactivity W" "sv_handlers (set_limiter l L W) = sv_handlers W"
  "sv_refused (set_limiter l L W) = sv_refused W" "sv_abort (set_limiter l L W) = sv_abort W"
  by (cases l; simp)+

lemma detach_simps [simp]:
  "sv_handlers (detach i l h W) = (sv_handlers W)(i \<mapsto> (l, h))" "sv_creds (detach i l h W) = hp_creds h"
  "sv_inactivity (detach i l h W) = hp_inactivity h" "sv_abort (detach i l h W) = sv_abort W"
  "sv_refused (detach i l h W) = sv_refused W" "limiter_at l' (detach i l h W) = (if l' = l then hp_limiter h else limiter_at l' W)"
  by (simp_all add: detach_def)

lemma attach_simps [simp]:
  "hp_limiter (attach l W h) = limiter_at l W" "hp_creds (attach l W h) = sv_creds W"
  "hp_inactivity (attach l W h) = sv_inactivity W" "owed (attach l W h) = owed h" "cancelled (attach l W h) = cancelled h"
  "sent (attach l W h) = sent h" "signals (attach l W h) = signals h" "hp_id (attach l W h) = hp_id h"
  "hp_cancel_func (attach l W h) = hp_cancel_func h" "quiet (attach l W h) = quiet h" "h_inv (attach l W h) = h_inv h"
  "hp_service (attach l W h) = hp_service h"
  by (simp_all add: attach_def quiet_def)

lemma run_on_Some: "sv_handlers W i = Some (l, h) \<Longrightarrow> run_on i m W = (case m (attach l W h) of (r, h') \<Rightarrow> (r, detach i l h' W))"
  by (simp add: run_on_def)

lemma owing_upd:
  assumes "sv_handlers W' = (sv_handlers W)(i \<mapsto> (l, h))"
  shows "owing W' l' cb = owing W l' cb - {i} \<union> (if l' = l \<and> owed h = Some cb then {i} else {})"
  using assms by (auto simp: owing_def)

lemma asking_upd:
  assumes "sv_handlers W' = (sv_handlers W)(i \<mapsto> (l, h))"
  shows "asking W' = asking W - {i} \<union> (if owed h = Some Credentials_cb then {i} else {})"
  using assms by (auto simp: asking_def owed_to_def)

lemma alive_upd:
  assumes "sv_handlers W' = (sv_handlers W)(i \<mapsto> (l, h))"
  shows "alive W' = alive W - {i} \<union> (if cancelled h then {} else {i})"
  using assms by (auto simp: alive_def)

lemma mem_owing: "sv_handlers W i = Some (l, h) \<Longrightarrow> i \<in> owing W l' cb \<longleftrightarrow> l' = l \<and> owed h = Some cb"
  by (auto simp: owing_def)

lemma mem_asking: "sv_handlers W i = Some (l, h) \<Longrightarrow> i \<in> asking W \<longleftrightarrow> owed h = Some Credentials_cb"
  by (simp add: asking_def owed_to_def)

lemma mem_alive: "sv_handlers W i = Some (l, h) \<Longrightarrow> i \<in> alive W \<longleftrightarrow> \<not> cancelled h"
  by (simp add: alive_def)

section \<open>The shared objects\<close>

definition limiter_ok :: "'w service \<Rightarrow> limiter_ref \<Rightarrow> bool" where
  "limiter_ok W l \<longleftrightarrow>
     wf_limiter (limiter_at l W) \<and> limiter.saturated (limiter_at l W) \<and>
     mset (live (queue (limiter_at l W))) = mset_set (owing W l Limiter_slot) \<and>
     running (limiter_at l W) = int (card (owing W l Download_signal))"

text \<open>The cancel function a handler keeps clears no other handler's job.\<close>

definition cancel_ok :: "nat limiter \<Rightarrow> nat \<Rightarrow> 'w handler \<Rightarrow> bool" where
  "cancel_ok L i h \<longleftrightarrow>
     hp_id h = i \<and> (\<forall>n. hp_cancel_func h = Some (Queued n) \<longrightarrow> n < next_handle L \<and> (\<forall>j. (n, Some j) \<in> set (queue L) \<longrightarrow> j = i))"

text \<open>A call was either refused at once or has a handler.\<close>

definition calls_ok :: "'w service \<Rightarrow> bool" where
  "calls_ok W \<longleftrightarrow> distinct (map fst (sv_refused W)) \<and> fst ` set (sv_refused W) \<inter> dom (sv_handlers W) = {}"

text \<open>\<open>D\<close> has the handlers whose credentials have arrived and are being delivered.\<close>

definition pool_inv :: "nat set \<Rightarrow> 'w service \<Rightarrow> bool" where
  "pool_inv D W \<longleftrightarrow>
     finite (dom (sv_handlers W)) \<and>
     (\<forall>i l h. sv_handlers W i = Some (l, h) \<longrightarrow> cancel_ok (limiter_at l W) i h) \<and>
     creds_inv (sv_creds W) \<and> waiting (sv_creds W) = mset_set (asking W - D) \<and> D \<subseteq> asking W \<and>
     (\<forall>l. limiter_ok W l) \<and>
     num_active (sv_inactivity W) = int (card (alive W)) \<and> inactivity_inv (sv_inactivity W) \<and> calls_ok W"

lemma finite_owing [simp]: "finite (dom (sv_handlers W)) \<Longrightarrow> finite (owing W l cb)"
  by (rule finite_subset [of _ "dom (sv_handlers W)"]) (auto simp: owing_def)

lemma finite_asking [simp]: "finite (dom (sv_handlers W)) \<Longrightarrow> finite (asking W)"
  by (rule finite_subset [of _ "dom (sv_handlers W)"]) (auto simp: asking_def owed_to_def split: option.splits)

lemma finite_alive [simp]: "finite (dom (sv_handlers W)) \<Longrightarrow> finite (alive W)"
  by (rule finite_subset [of _ "dom (sv_handlers W)"]) (auto simp: alive_def)

lemma live_owing:
  assumes "pool_inv D W"
  shows "set (live (queue (limiter_at l W))) = owing W l Limiter_slot"
proof -
  from assms have "mset (live (queue (limiter_at l W))) = mset_set (owing W l Limiter_slot)" "finite (owing W l Limiter_slot)"
    by (simp_all add: pool_inv_def limiter_ok_def)
  then show ?thesis by (metis finite_set_mset_mset_set set_mset_mset)
qed

text \<open>Callbacks that leave no trace in a limiter or in the credentials cache.\<close>

definition off_books :: "callback option \<Rightarrow> bool" where
  "off_books o' \<longleftrightarrow> o' \<notin> {Some Credentials_cb, Some Limiter_slot, Some Download_signal}"

lemma pool_inv_detach:
  assumes inv: "pool_inv D W" and at_l: "\<And>l' g. sv_handlers W i = Some (l', g) \<Longrightarrow> l' = l"
    and call: "i \<notin> fst ` set (sv_refused W)"
    and lim: "limiter_ok (detach i l h' W) l" "cancel_ok (hp_limiter h') i h'"
      "\<And>j g. sv_handlers W j = Some (l, g) \<Longrightarrow> j \<noteq> i \<Longrightarrow> cancel_ok (hp_limiter h') j g"
    and creds: "creds_inv (hp_creds h')" "waiting (hp_creds h') = mset_set (asking (detach i l h' W) - D')"
      "D' \<subseteq> asking (detach i l h' W)"
    and active: "num_active (hp_inactivity h') = int (card (alive (detach i l h' W)))" "inactivity_inv (hp_inactivity h')"
  shows "pool_inv D' (detach i l h' W)"
proof -
  let ?W = "detach i l h' W"
  have "owing ?W l' cb = owing W l' cb" if "l' \<noteq> l" for l' cb
    using that at_l by (auto simp: owing_def)
  with lim(1) inv have "limiter_ok ?W l'" for l'
    by (cases "l' = l") (auto simp: limiter_ok_def pool_inv_def)
  moreover have "\<forall>j l' g. sv_handlers ?W j = Some (l', g) \<longrightarrow> cancel_ok (limiter_at l' ?W) j g"
    using inv lim(2,3) by (auto simp: pool_inv_def)
  moreover have "calls_ok ?W" using inv call by (auto simp: pool_inv_def calls_ok_def)
  ultimately show ?thesis
    using inv creds active by (simp add: pool_inv_def)
qed

lemma handler_not_refused: "pool_inv D W \<Longrightarrow> sv_handlers W i = Some p \<Longrightarrow> i \<notin> fst ` set (sv_refused W)"
  by (auto simp: pool_inv_def calls_ok_def)

text \<open>A stage of a handler leaves the activity count alone.\<close>

lemma pool_inv_stage:
  assumes inv: "pool_inv D W" and h: "sv_handlers W i = Some (l, h)"
    and sh: "hp_inactivity h' = sv_inactivity W" "cancelled h' = cancelled h"
    and lim: "limiter_ok (detach i l h' W) l" "cancel_ok (hp_limiter h') i h'"
      "\<And>j g. sv_handlers W j = Some (l, g) \<Longrightarrow> j \<noteq> i \<Longrightarrow> cancel_ok (hp_limiter h') j g"
    and creds: "creds_inv (hp_creds h')" "waiting (hp_creds h') = mset_set (asking (detach i l h' W) - D')"
      "D' \<subseteq> asking (detach i l h' W)"
  shows "pool_inv D' (detach i l h' W)"
proof (rule pool_inv_detach [OF inv _ handler_not_refused [OF inv h] lim creds])
  have "alive (detach i l h' W) = alive W"
    using sh(2) mem_alive [OF h] by (subst alive_upd [OF detach_simps(1)]) auto
  with inv sh(1) show "num_active (hp_inactivity h') = int (card (alive (detach i l h' W)))"
    "inactivity_inv (hp_inactivity h')" by (simp_all add: pool_inv_def)
qed (use h in simp_all)

text \<open>The limiter after a stage that leaves it alone.\<close>

lemma limiter_ok_same:
  assumes "limiter_ok W l" and h: "sv_handlers W i = Some (l, h)" and "hp_limiter h' = limiter_at l W"
    and "\<And>cb. cb \<in> {Limiter_slot, Download_signal} \<Longrightarrow> owed h = Some cb \<longleftrightarrow> owed h' = Some cb"
  shows "limiter_ok (detach i l h' W) l"
proof -
  have "owing (detach i l h' W) l cb = owing W l cb" if "cb \<in> {Limiter_slot, Download_signal}" for cb
    using assms(4) [OF that] mem_owing [OF h] by (subst owing_upd [OF detach_simps(1)]) auto
  with assms(1,3) show ?thesis by (simp add: limiter_ok_def)
qed

lemma cancel_ok_same:
  assumes "pool_inv D W" and "sv_handlers W i = Some (l, h)" and "slots h' = slots (attach l W h)" and "hp_id h' = hp_id h"
  shows "cancel_ok (hp_limiter h') i h'" and "sv_handlers W j = Some (l, g) \<Longrightarrow> cancel_ok (hp_limiter h') j g"
  using assms by (auto simp: pool_inv_def cancel_ok_def slots_def)

text \<open>A stage between callbacks of the event loop, and the delivery of credentials.\<close>

lemma pool_inv_silent:
  assumes inv: "pool_inv D W" and h: "sv_handlers W i = Some (l, h)" and b: "books h' = books (attach l W h)"
    and o: "off_books (owed h')" "off_books (owed h) \<or> owed h = Some Credentials_cb \<and> i \<in> D"
    and c: "cancelled h' = cancelled h"
  shows "pool_inv (D - {i}) (detach i l h' W)"
proof (rule pool_inv_stage [OF inv h])
  show "hp_inactivity h' = sv_inactivity W" "cancelled h' = cancelled h"
    using b c by (simp_all add: books_def shared_def)
  have "limiter_ok W l" using inv by (simp add: pool_inv_def)
  then show "limiter_ok (detach i l h' W) l"
    by (rule limiter_ok_same [OF _ h]) (use b o in \<open>auto simp: off_books_def books_def slots_def\<close>)
  show "cancel_ok (hp_limiter h') i h'" and "\<And>j g. sv_handlers W j = Some (l, g) \<Longrightarrow> cancel_ok (hp_limiter h') j g"
    by (rule cancel_ok_same [OF inv h]; use b in \<open>simp add: books_def shared_def\<close>)+
  have "asking (detach i l h' W) = asking W - {i}"
    using o(1) by (subst asking_upd [OF detach_simps(1)]) (simp add: off_books_def)
  moreover have "asking W - {i} - (D - {i}) = asking W - D"
    using o(2) inv mem_asking [OF h] by (auto simp: pool_inv_def off_books_def)
  ultimately show "waiting (hp_creds h') = mset_set (asking (detach i l h' W) - (D - {i}))"
    "D - {i} \<subseteq> asking (detach i l h' W)" "creds_inv (hp_creds h')"
    using inv b by (auto simp: pool_inv_def books_def shared_def)
qed

text \<open>Scheduling a download: the job takes a free slot or waits.\<close>

lemma cancel_ok_schedule:
  assumes "schedule no_throw i L = (Inr cf, L')" and "wf_limiter L" and "cancel_ok L j g" 
  shows "cancel_ok L' j g"
  using assms by (auto simp: cancel_ok_def schedule_def schedule_now_def split: if_splits)

lemma cancel_ok_scheduled:
  assumes "schedule no_throw i L = (Inr cf, L')" and "wf_limiter L" and "hp_id h = i" and "hp_cancel_func h = Some cf"
  shows "cancel_ok L' i h"
  using assms
  by (fastforce simp: cancel_ok_def schedule_def schedule_now_def wf_limiter_def split: if_splits)

lemma pool_inv_took_slot:
  assumes inv: "pool_inv D W" and h: "sv_handlers W i = Some (l, h)" and o: "off_books (owed h)" and i: "i \<notin> D"
    and t: "took_slot (attach l W h) h'" and sh: "shared h' = shared (attach l W h)" and c: "cancelled h' = cancelled h"
  shows "pool_inv D (detach i l h' W)"
proof (rule pool_inv_stage [OF inv h])
  let ?L = "limiter_at l W" and ?W = "detach i l h' W"
  have id: "hp_id h = i" using inv h by (simp add: pool_inv_def cancel_ok_def)
  from t id obtain cf where sch: "schedule no_throw i ?L = (Inr cf, hp_limiter h')" and cf: "hp_cancel_func h' = Some cf"
      and o': "owed h' = Some (if running ?L < concurrency ?L then Download_signal else Limiter_slot)"
    by (auto simp: took_slot_def)
  have ok: "limiter_ok W l" using inv by (simp add: pool_inv_def)
  then have wf: "wf_limiter ?L" and sat: "limiter.saturated ?L" by (simp_all add: limiter_ok_def)
  have not: "i \<notin> owing W l Limiter_slot" "i \<notin> owing W l Download_signal"
    using o mem_owing [OF h] by (auto simp: off_books_def)
  have own: "owing ?W l cb = owing W l cb \<union> (if owed h' = Some cb then {i} else {})" if "cb \<in> {Limiter_slot, Download_signal}" for cb
    using that not by (subst owing_upd [OF detach_simps(1)]) auto
  have fin: "finite (owing W l cb)" for cb using inv by (simp add: pool_inv_def)
  have s: "hp_limiter h' = snd (schedule no_throw i ?L)" using sch by simp
  have wf': "wf_limiter (hp_limiter h')" and sat': "limiter.saturated (hp_limiter h')"
    unfolding s using wf_schedule [OF wf] limiter.saturated_submit [OF wf sat] by simp_all
  show "limiter_ok ?W l"
  proof (cases "running ?L < concurrency ?L")
    case True
    with limiter.submit_free [OF wf, of i] o' ok own fin not wf' sat' s show ?thesis by (simp add: limiter_ok_def)
  next
    case False
    with limiter.submit_full [OF wf, of i] o' ok own fin not wf' sat' s show ?thesis
      by (simp add: limiter_ok_def)
  qed
  show "cancel_ok (hp_limiter h') i h'"
    by (rule cancel_ok_scheduled [OF sch wf _ cf]) (use sh id in \<open>simp add: shared_def\<close>)
  show "cancel_ok (hp_limiter h') j g" if "sv_handlers W j = Some (l, g)" for j g
    by (rule cancel_ok_schedule [OF sch wf]) (use inv that in \<open>simp add: pool_inv_def\<close>)
  have "asking ?W = asking W"
    using o o' mem_asking [OF h] by (subst asking_upd [OF detach_simps(1)]) (auto simp: off_books_def)
  then show "waiting (hp_creds h') = mset_set (asking ?W - D)" "D \<subseteq> asking ?W" "creds_inv (hp_creds h')"
    using inv sh by (auto simp: pool_inv_def shared_def)
qed (use sh c in \<open>simp_all add: shared_def\<close>)

text \<open>Starting a handler.\<close>

lemma creds_get_calls: "creds_get peer cb s = (cs, s') \<Longrightarrow> cs \<noteq> [] \<Longrightarrow> \<exists>cr. cs = [(cb, cr)]"
  by (auto simp: creds_get_def split: option.splits)

lemma pool_inv_begin:
  assumes inv: "pool_inv D W" and h: "sv_handlers W i = Some (l, h)" and q: "quiet h"
    and b: "begin_handler E now (attach l W h) = (Inr (), h')"
  shows "pool_inv D (detach i l h' W)"
proof (rule pool_inv_stage [OF inv h])
  let ?W = "detach i l h' W"
  have id: "hp_id h = i" using inv h by (simp add: pool_inv_def cancel_ok_def)
  from begin_effect [OF b] q id obtain cs where g: "creds_get (hp_service h) i (sv_creds W) = (cs, hp_creds h')"
      and o: "if cs = [] then owed h' = Some Credentials_cb else owed h' \<in> {None, Some Check_job}"
      and sl: "slots h' = slots (attach l W h)" and fr: "hp_inactivity h' = sv_inactivity W" "hp_id h' = hp_id h" by auto
  show "hp_inactivity h' = sv_inactivity W" by (fact fr)
  show "cancelled h' = cancelled h" using begin_leaves_cancelled [OF b] by simp
  have qo: "owed h = None" using q by (simp add: quiet_def)
  have "limiter_ok W l" using inv by (simp add: pool_inv_def)
  then show "limiter_ok ?W l"
    by (rule limiter_ok_same [OF _ h]) (use qo o sl in \<open>auto simp: slots_def split: if_splits\<close>)
  show "cancel_ok (hp_limiter h') i h'" and "\<And>j g. sv_handlers W j = Some (l, g) \<Longrightarrow> cancel_ok (hp_limiter h') j g"
    using cancel_ok_same [OF inv h sl fr(2)] by simp_all
  have ni: "i \<notin> asking W" "i \<notin> D" using qo mem_asking [OF h] inv by (auto simp: pool_inv_def)
  have ask: "asking ?W = (if cs = [] then insert i (asking W) else asking W)"
    using o ni by (subst asking_upd [OF detach_simps(1)]) auto
  then show "D \<subseteq> asking ?W" using inv by (auto simp: pool_inv_def)
  note once = creds_get_once [OF _ g]
  show "creds_inv (hp_creds h')" using once(1) inv by (simp add: pool_inv_def)
  have w: "add_mset i (mset_set (asking W - D)) = mset (map fst cs) + waiting (hp_creds h')"
    using once(2) inv by (simp add: pool_inv_def)
  show "waiting (hp_creds h') = mset_set (asking ?W - D)"
  proof (cases "cs = []")
    case True
    have "insert i (asking W) - D = insert i (asking W - D)" using ni by auto
    with True w ask ni inv show ?thesis by (simp add: pool_inv_def)
  next
    case False
    with creds_get_calls [OF g] w ask show ?thesis by auto
  qed
qed

text \<open>A new handler.\<close>

lemma request_started_active:
  "request_started a = Inr a' \<Longrightarrow> inactivity_inv a \<Longrightarrow> num_active a' = num_active a + 1 \<and> inactivity_inv a'"
  by (cases a) (auto simp: request_started_def rbind_Inr_iff inactivity_inv_def split: if_splits)

lemma request_completed_active:
  "request_completed a = Inr a' \<Longrightarrow> inactivity_inv a \<Longrightarrow> num_active a' = num_active a - 1 \<and> inactivity_inv a'"
  by (cases a) (auto simp: request_completed_def rbind_Inr_iff inactivity_inv_def split: if_splits)

lemma pool_inv_new:
  assumes inv: "pool_inv D W" and i: "sv_handlers W i = None" "i \<notin> fst ` set (sv_refused W)"
    and new: "Handler i peer (limiter_at l W) (sv_creds W) (sv_inactivity W) s details now = Inr h"
  shows "pool_inv D (detach i l h W)"
proof (rule pool_inv_detach [OF inv _ i(2)])
  let ?W = "detach i l h W"
  from new have hp: "hp_limiter h = limiter_at l W" "hp_creds h = sv_creds W" "hp_id h = i" "hp_cancel_func h = None"
      "owed h = None" "\<not> cancelled h" and st: "request_started (sv_inactivity W) = Inr (hp_inactivity h)"
    by (auto simp: Handler_def rbind_Inr_iff)
  have ni: "i \<notin> owing W l cb" "i \<notin> asking W" "i \<notin> alive W" for cb
    using i by (simp_all add: owing_def asking_def alive_def owed_to_def)
  have "owing ?W l cb = owing W l cb" for cb using hp ni by (subst owing_upd [OF detach_simps(1)]) auto
  with inv hp show "limiter_ok ?W l" by (simp add: pool_inv_def limiter_ok_def)
  show "cancel_ok (hp_limiter h) i h" using hp by (simp add: cancel_ok_def)
  show "cancel_ok (hp_limiter h) j g" if "sv_handlers W j = Some (l, g)" for j g
    using inv that hp by (simp add: pool_inv_def)
  have "asking ?W = asking W" using hp ni by (subst asking_upd [OF detach_simps(1)]) auto
  then show "waiting (hp_creds h) = mset_set (asking ?W - D)" "D \<subseteq> asking ?W" "creds_inv (hp_creds h)"
    using inv hp by (simp_all add: pool_inv_def)
  have "alive ?W = insert i (alive W)" using hp ni by (subst alive_upd [OF detach_simps(1)]) auto
  with inv st ni show "num_active (hp_inactivity h) = int (card (alive ?W))" "inactivity_inv (hp_inactivity h)"
    by (auto simp: pool_inv_def dest: request_started_active)
qed (use i in simp)

text \<open>Destroying a handler that has answered: its cancel function finds nothing.\<close>

lemma clear_job_subset: "(n, Some j) \<in> set (clear_job m q) \<Longrightarrow> (n, Some j) \<in> set q"
  by (induction m q rule: clear_job.induct) (auto split: if_splits)

lemma cancel_ok_cancel:
  assumes "cancel_ok L j g"
  shows "cancel_ok (snd (cancel cf L)) j g"
  using assms by (cases cf) (auto simp: cancel_ok_def dest: clear_job_subset)

lemma live_mem: "(n, Some j) \<in> set q \<Longrightarrow> j \<in> set (live q)"
  by (induction q rule: live.induct) auto

lemma cleared_own:
  assumes "cancel_ok L i h" and "hp_cancel_func h = Some cf" and "i \<notin> set (live (queue L))"
  shows "cleared cf L = {#}"
  using assms by (cases cf) (auto simp: cancel_ok_def split: option.splits dest!: map_of_SomeD dest: live_mem)

lemma pool_inv_destroy:
  assumes inv: "pool_inv D W" and h: "sv_handlers W i = Some (l, h)" and o: "owed h = None" "\<not> cancelled h"
    and d: "Handler_destroy (attach l W h) = (Inr (), h')"
  shows "pool_inv D (detach i l h' W)"
proof (rule pool_inv_detach [OF inv _ handler_not_refused [OF inv h]])
  let ?W = "detach i l h' W" and ?L = "limiter_at l W"
  define L' where "L' = (case hp_cancel_func h of None \<Rightarrow> ?L | Some cf \<Rightarrow> snd (cancel cf ?L))"
  have eff: "cancelled h'" "owed h' = None" "hp_id h' = hp_id h" "hp_creds h' = sv_creds W" "hp_cancel_func h' = hp_cancel_func h"
      "hp_limiter h' = L'" "request_completed (sv_inactivity W) = Inr (hp_inactivity h')"
    using destroy_effect [OF d] by (auto simp: L'_def split: option.splits)
  have ok: "limiter_ok W l" and co: "\<And>j g. sv_handlers W j = Some (l, g) \<Longrightarrow> cancel_ok ?L j g"
    using inv by (simp_all add: pool_inv_def)
  from live_owing [OF inv] o mem_owing [OF h] have live: "i \<notin> set (live (queue ?L))" by simp
  have L': "wf_limiter L' \<and> limiter.saturated L' \<and> mset (live (queue L')) = mset (live (queue ?L)) \<and> running L' = running ?L"
  proof (cases "hp_cancel_func h")
    case None
    with ok show ?thesis by (simp add: L'_def limiter_ok_def)
  next
    case (Some cf)
    with live_cancel [of ?L cf] cleared_own [OF co [OF h] Some live] ok show ?thesis
      by (simp add: L'_def limiter_ok_def wf_cancel saturated_cancel)
  qed
  have "owing ?W l cb = owing W l cb" for cb
    using eff o mem_owing [OF h] by (subst owing_upd [OF detach_simps(1)]) auto
  with L' ok eff show "limiter_ok ?W l" by (simp add: limiter_ok_def)
  have co': "cancel_ok L' j g" if "sv_handlers W j = Some (l, g)" for j g
    using co [OF that] by (auto simp: L'_def cancel_ok_cancel split: option.splits)
  show "cancel_ok (hp_limiter h') i h'" using co' [OF h] eff by (simp add: cancel_ok_def)
  show "\<And>j g. sv_handlers W j = Some (l, g) \<Longrightarrow> cancel_ok (hp_limiter h') j g" using co' eff by simp
  have "asking ?W = asking W" using eff o mem_asking [OF h] by (subst asking_upd [OF detach_simps(1)]) auto
  then show "waiting (hp_creds h') = mset_set (asking ?W - D)" "D \<subseteq> asking ?W" "creds_inv (hp_creds h')"
    using inv eff by (simp_all add: pool_inv_def)
  have al: "alive ?W = alive W - {i}" "i \<in> alive W" "finite (alive W)"
    using eff mem_alive [OF h] o inv by (simp_all add: alive_upd [OF detach_simps(1)] pool_inv_def)
  then have "card (alive W) = Suc (card (alive ?W))" by (metis card.remove)
  with inv eff show "num_active (hp_inactivity h') = int (card (alive ?W))" "inactivity_inv (hp_inactivity h')"
    by (auto simp: pool_inv_def dest: request_completed_active)
qed (use h in simp)

text \<open>Credentials arrive: the waiting callbacks leave the cache, to be called one after the other.\<close>

lemma mset_set_split:
  assumes "mset_set A = mset xs + M" and "finite A"
  shows "distinct xs \<and> set xs \<subseteq> A \<and> M = mset_set (A - set xs)"
proof -
  have sub: "set xs \<subseteq> A" using assms by (metis elem_mset_set set_mset_mset subsetI union_iff)
  have "count (mset xs) a \<le> 1" for a
  proof -
    have "count (mset xs) a \<le> count (mset_set A) a" by (simp add: assms(1))
    also have "\<dots> \<le> 1" by (cases "a \<in> A") (simp_all add: assms(2))
    finally show ?thesis .
  qed
  then have d: "distinct xs" by (simp add: distinct_count_atmost_1 le_antisym Suc_leI count_greater_zero_iff)
  have "M = mset_set A - mset_set (set xs)" using assms(1) d by (simp add: mset_set_set)
  with sub d show ?thesis using assms(2) by (simp add: mset_set_Diff)
qed

lemma pool_inv_received:
  assumes inv: "pool_inv {} W" and r: "received_credentials peer reply (sv_creds W) = (Inr cs, c)"
  shows "pool_inv (set (map fst cs)) (W\<lparr>sv_creds := c\<rparr>) \<and> distinct (map fst cs)"
proof -
  note once = received_once [OF _ r]
  have "mset_set (asking W) = mset (map fst cs) + waiting c" using once(2) inv by (simp add: pool_inv_def)
  from mset_set_split [OF this] inv
  have "distinct (map fst cs)" "set (map fst cs) \<subseteq> asking W" "waiting c = mset_set (asking W - set (map fst cs))"
    by (simp_all add: pool_inv_def)
  moreover have "asking (W\<lparr>sv_creds := c\<rparr>) = asking W" "alive (W\<lparr>sv_creds := c\<rparr>) = alive W"
      "owing (W\<lparr>sv_creds := c\<rparr>) = owing W"
    by (simp_all add: asking_def owed_to_def alive_def owing_def fun_eq_iff)
  ultimately show ?thesis
    using inv once(1) by (simp add: pool_inv_def limiter_ok_def calls_ok_def)
qed

text \<open>The end of a download: the slot is free again, or goes to the waiting handler that is started.\<close>

lemma pool_inv_done_idle:
  assumes inv: "pool_inv D W" and h: "sv_handlers W i = Some (l, h)" and o: "owed h = Some Download_signal" "owed h' = Some Create_job"
    and L': "hp_limiter h' = (limiter_at l W)\<lparr>running := running (limiter_at l W) - 1, queue := []\<rparr>" "live (queue (limiter_at l W)) = []"
    and sh: "shared h' = shared (attach l W h)" "hp_cancel_func h' = hp_cancel_func h" "cancelled h' = cancelled h"
  shows "pool_inv D (detach i l h' W)"
proof (rule pool_inv_stage [OF inv h])
  let ?W = "detach i l h' W" and ?L = "limiter_at l W"
  have ok: "limiter_ok W l" and co: "\<And>j g. sv_handlers W j = Some (l, g) \<Longrightarrow> cancel_ok ?L j g"
    using inv by (simp_all add: pool_inv_def)
  have own: "owing ?W l cb = owing W l cb - {i}" if "cb \<noteq> Create_job" for cb
    using o that by (subst owing_upd [OF detach_simps(1)]) auto
  have none: "owing W l Limiter_slot = {}"
    using live_owing [OF inv, of l] L'(2) by simp
  have mem: "i \<in> owing W l Download_signal" "finite (owing W l Download_signal)"
    using mem_owing [OF h] o inv by (simp_all add: pool_inv_def)
  then have card: "card (owing W l Download_signal) = Suc (card (owing W l Download_signal - {i}))" by (rule card.remove [rotated])
  have wf: "wf_limiter ?L" and sat: "limiter.saturated ?L" and run: "running ?L = int (card (owing W l Download_signal))"
    using ok by (simp_all add: limiter_ok_def)
  show "limiter_ok ?W l"
    unfolding limiter_ok_def using own none card wf sat run L'
    by (auto simp: wf_limiter_def limiter.saturated_def)
  show "cancel_ok (hp_limiter h') i h'"
    using co [OF h] L' sh by (simp add: cancel_ok_def shared_def)
  show "cancel_ok (hp_limiter h') j g" if "sv_handlers W j = Some (l, g)" for j g
    using co [OF that] L' by (simp add: cancel_ok_def)
  have "asking ?W = asking W" using o mem_asking [OF h] by (subst asking_upd [OF detach_simps(1)]) auto
  then show "waiting (hp_creds h') = mset_set (asking ?W - D)" "D \<subseteq> asking ?W" "creds_inv (hp_creds h')"
    using inv sh by (simp_all add: pool_inv_def shared_def)
qed (use sh in \<open>simp_all add: shared_def\<close>)

lemma pool_inv_handover:
  assumes inv: "pool_inv D W" and h: "sv_handlers W i = Some (l, h)" "sv_handlers W j = Some (l, g)" and ij: "i \<noteq> j"
    and o: "owed h = Some Download_signal" "owed h' = Some Create_job" "owed g = Some Limiter_slot" "owed g' = Some Download_signal"
    and q: "live (queue (limiter_at l W)) = js @ [j]" "live q = js" "set q \<subseteq> set (queue (limiter_at l W))" "distinct (map fst q)"
    and L': "hp_limiter h' = (limiter_at l W)\<lparr>queue := q, started := st\<rparr>"
    and sh: "shared h' = shared (attach l W h)" "hp_cancel_func h' = hp_cancel_func h" "cancelled h' = cancelled h"
    and sg: "books g' = books (attach l (detach i l h' W) g)" "cancelled g' = cancelled g"
  shows "pool_inv D (detach j l g' (detach i l h' W))"
proof -
  let ?L = "limiter_at l W" and ?W1 = "detach i l h' W"
  let ?W = "detach j l g' ?W1"
  have g': "hp_limiter g' = hp_limiter h'" "hp_creds g' = sv_creds W" "hp_inactivity g' = sv_inactivity W" "hp_id g' = hp_id g"
      "hp_cancel_func g' = hp_cancel_func g" and h': "hp_creds h' = sv_creds W" "hp_inactivity h' = sv_inactivity W" "hp_id h' = hp_id h"
    using sg sh by (simp_all add: books_def shared_def slots_def)
  have upd: "owing ?W l' cb = owing W l' cb - {i, j} \<union> (if l' = l \<and> cb = Create_job then {i} else if l' = l \<and> cb = Download_signal then {j} else {})"
    for l' cb using ij o by (auto simp: owing_def)
  have i: "i \<in> owing W l Download_signal" "i \<notin> owing W l Limiter_slot" and j: "j \<in> owing W l Limiter_slot" "j \<notin> owing W l Download_signal"
    using mem_owing [OF h(1)] mem_owing [OF h(2)] o by simp_all
  have fin: "finite (owing W l' cb)" for l' cb using inv by (simp add: pool_inv_def)
  have ok: "limiter_ok W l'" for l' using inv by (simp add: pool_inv_def)
  have Sl: "owing ?W l Limiter_slot = owing W l Limiter_slot - {j}" and Ds: "owing ?W l Download_signal = insert j (owing W l Download_signal - {i})"
    using i j ij by (auto simp: upd)
  have live: "mset js = mset_set (owing W l Limiter_slot - {j})"
  proof -
    have "mset_set (owing W l Limiter_slot) = add_mset j (mset js)" using ok [of l] q(1) by (simp add: limiter_ok_def)
    then show ?thesis using j(1) fin by (simp add: mset_set_Diff)
  qed
  have card: "card (owing ?W l Download_signal) = card (owing W l Download_signal)"
    unfolding Ds using i j fin card.remove [OF fin i(1)] by simp
  have "limiter_ok ?W l"
    unfolding limiter_ok_def Sl card using ok [of l] q L' g' live fin
    by (auto simp: limiter_ok_def wf_limiter_def limiter.saturated_def)
  moreover have "limiter_ok ?W l'" if "l' \<noteq> l" for l'
  proof -
    have "owing ?W l' cb = owing W l' cb" for cb
      using that mem_owing [OF h(1)] mem_owing [OF h(2)] by (auto simp: upd)
    with ok [of l'] that show ?thesis by (simp add: limiter_ok_def)
  qed
  ultimately have lims: "limiter_ok ?W l'" for l' by metis
  have co: "cancel_ok (limiter_at l' ?W) k f" if "sv_handlers W k = Some (l', f)" for k l' f
    using inv that q(3) L' g' by (auto simp: pool_inv_def cancel_ok_def)
  have "cancel_ok (limiter_at l ?W) i h'" "cancel_ok (limiter_at l ?W) j g'"
    using co [OF h(1)] co [OF h(2)] sh g' h' by (simp_all add: cancel_ok_def)
  with co have cos: "\<forall>k l' f. sv_handlers ?W k = Some (l', f) \<longrightarrow> cancel_ok (limiter_at l' ?W) k f"
    by (auto simp del: detach_simps(6))
  have "asking ?W = asking W" "alive ?W = alive W"
    using h o sh sg ij by (auto simp: asking_def owed_to_def alive_def split: if_splits)
  moreover have "calls_ok ?W" using inv h by (auto simp: pool_inv_def calls_ok_def)
  ultimately show ?thesis using lims cos inv g' by (simp add: pool_inv_def)
qed

end
