(* ===== verification/Service_System.thy ===== *)
theory Service_System
  imports Service_Invariant
begin

text \<open>
  The running service answers every method call exactly once: the invariant of all events, the bound on the events a set
  of accepted requests can cause, and what is left when no event is due.
\<close>

section \<open>Phases of a handler\<close>

definition waits_turn :: "'w handler \<Rightarrow> bool" where
  "waits_turn h \<longleftrightarrow> quiet h \<and> \<not> cancelled h"

definition in_progress :: "'w handler \<Rightarrow> bool" where
  "in_progress h \<longleftrightarrow> h_inv h \<and> \<not> cancelled h \<and> owed h \<noteq> None"

definition answered :: "'w handler \<Rightarrow> bool" where
  "answered h \<longleftrightarrow> owed h = None \<and> length (sent h) = 1 \<and> signals h = 1"

lemma h_inv_phase:
  assumes "h_inv h" and "\<not> cancelled h"
  shows "if signals h = 0 then in_progress h else answered h" and "0 < signals h \<longleftrightarrow> owed h = None"
  using assms by (auto simp: h_inv_def replies_ok_def in_progress_def answered_def)

lemma in_progress_sent: "in_progress h \<Longrightarrow> sent h = [] \<and> signals h = 0"
  by (auto simp: in_progress_def h_inv_def replies_ok_def)

text \<open>\<open>X\<close> has the handler that has just emitted \<open>finished\<close> and is still registered.\<close>

definition handler_phase :: "nat set \<Rightarrow> 'w service dbus \<Rightarrow> nat \<Rightarrow> 'w handler \<Rightarrow> bool" where
  "handler_phase X db i h \<longleftrightarrow>
     (if i \<in> set (requests db)
      then \<not> cancelled h \<and>
           (if i \<in> X then answered h else if i \<in> set (begun db) then in_progress h else waits_turn h)
      else answered h \<and> (i \<in> set (delete_later db) \<longleftrightarrow> \<not> cancelled h))"

definition link_inv :: "nat set \<Rightarrow> 'w service dbus \<Rightarrow> bool" where
  "link_inv X db \<longleftrightarrow>
     X \<subseteq> set (begun db) \<and>
     (\<forall>i l h. sv_handlers (world db) i = Some (l, h) \<longrightarrow> handler_phase X db i h) \<and>
     set (requests db) \<union> set (begun db) \<union> set (delete_later db) \<subseteq> dom (sv_handlers (world db)) \<and>
     set (requests db) \<inter> set (delete_later db) = {}"

definition svc_inv :: "(nat \<Rightarrow> string) \<Rightarrow> nat set \<Rightarrow> nat set \<Rightarrow> 'w service dbus \<Rightarrow> bool" where
  "svc_inv hkey D X db \<longleftrightarrow> chain_inv hkey db \<and> pool_inv D (world db) \<and> link_inv X db"

text \<open>The events the accepted requests can still cause: one per stage, and the deletion.\<close>

definition weight :: "'w service dbus \<Rightarrow> nat \<Rightarrow> nat" where
  "weight db i = (if i \<in> set (begun db) then owed_rank (owed_to i (world db)) + 1 else 9)"

definition load :: "'w service dbus \<Rightarrow> nat" where
  "load db = (\<Sum>i \<in> set (requests db). weight db i) + card (set (delete_later db))"

lemma requestFinished_simps [simp]:
  "requests (requestFinished hkey i db) = removeAll i (requests db)" "begun (requestFinished hkey i db) = begun db"
  "world (requestFinished hkey i db) = world db" "delete_later (requestFinished hkey i db) = delete_later db @ [i]"
  by (simp_all add: requestFinished_def Let_def)

lemma owed_to_Some [simp]: "sv_handlers W i = Some (l, h) \<Longrightarrow> owed_to i W = owed h"
  by (simp add: owed_to_def)

lemma owed_to_detach [simp]: "owed_to j (detach i l h W) = (if j = i then owed h else owed_to j W)"
  by (simp add: owed_to_def)

lemma link_invD: "link_inv X db \<Longrightarrow> sv_handlers (world db) i = Some (l, h) \<Longrightarrow> handler_phase X db i h"
  by (simp add: link_inv_def)

lemma link_invE:
  assumes "link_inv X db" and "i \<in> set (requests db)"
  obtains l h where "sv_handlers (world db) i = Some (l, h)" "\<not> cancelled h"
    "if i \<in> X then answered h else if i \<in> set (begun db) then in_progress h else waits_turn h"
proof -
  from assms obtain l h where h: "sv_handlers (world db) i = Some (l, h)" by (force simp: link_inv_def)
  from link_invD [OF assms(1) this] assms(2) that [OF h] show thesis by (simp add: handler_phase_def)
qed

lemma owed_registered:
  assumes "link_inv {} db" and "sv_handlers (world db) i = Some (l, h)" and "owed h \<noteq> None"
  shows "i \<in> set (requests db)" and "i \<in> set (begun db)" and "in_progress h"
  using link_invD [OF assms(1,2)] assms(3)
  by (auto simp: handler_phase_def answered_def waits_turn_def quiet_def split: if_splits)

lemma load_stage:
  assumes "i \<in> set (requests db)" and "i \<in> set (begun db)" and "sv_handlers (world db) i = Some (l, h)"
    and "owed_rank (owed h') < owed_rank (owed h)"
  shows "load (db\<lparr>world := detach i l h' (world db)\<rparr>) < load db"
proof -
  let ?db = "db\<lparr>world := detach i l h' (world db)\<rparr>"
  have "weight ?db j \<le> weight db j" for j using assms by (simp add: weight_def)
  moreover have "weight ?db i < weight db i" using assms by (simp add: weight_def)
  ultimately have "(\<Sum>j \<in> set (requests db). weight ?db j) < (\<Sum>j \<in> set (requests db). weight db j)"
    using assms(1) by (intro sum_strict_mono_ex1) auto
  then show ?thesis by (simp add: load_def)
qed

section \<open>The end of a request\<close>

text \<open>The emission of \<open>finished\<close>: the handler is unregistered, and the next one for its key is started.\<close>

lemma link_inv_finished:
  assumes "link_inv {i} db" and "i \<in> set (requests db)"
  shows "link_inv {} (requestFinished hkey i db)"
  using assms by (auto simp: link_inv_def handler_phase_def)

lemma load_finished:
  assumes "link_inv {i} db" and "i \<in> set (requests db)"
  shows "load (requestFinished hkey i db) \<le> load db"
proof -
  from assms obtain l h where h: "sv_handlers (world db) i = Some (l, h)" "answered h" by (rule link_invE) simp
  moreover have "i \<in> set (begun db)" using assms(1) by (simp add: link_inv_def)
  ultimately have w: "weight db i = 1" by (simp add: weight_def answered_def)
  have "(\<Sum>j \<in> set (requests db). weight db j) = weight db i + (\<Sum>j \<in> set (requests db) - {i}. weight db j)"
    using assms(2) by (simp add: sum.remove)
  moreover have "card (insert i (set (delete_later db))) \<le> Suc (card (set (delete_later db)))"
    by (simp add: card_insert_if)
  moreover have "weight (requestFinished hkey i db) j = weight db j" for j by (simp add: weight_def)
  ultimately show ?thesis using w by (simp add: load_def)
qed

lemma service_begin_abort: "service_begin E now i W = (fin, W') \<Longrightarrow> sv_abort W' = None \<Longrightarrow> sv_abort W = None"
  by (auto simp: service_begin_def run_on_def split: option.splits prod.splits sum.splits)

lemma run_begin_service:
  assumes pool: "pool_inv D (world db)" and link: "link_inv {} db" and j: "j \<in> set (requests db)" "j \<notin> set (begun db)"
    and b: "run_begin (service_begin E now) j db = (fin, db')" and ok: "sv_abort (world db') = None"
  shows "pool_inv D (world db')" and "link_inv (if fin then {j} else {}) db'" and "load db' \<le> load db"
proof -
  from link j obtain l h where h: "sv_handlers (world db) j = Some (l, h)" and q: "quiet h" "\<not> cancelled h"
    by (auto simp: waits_turn_def elim: link_invE)
  from b ok h obtain h' where bh: "begin_handler E now (attach l (world db) h) = (Inr (), h')"
      and fin: "fin = (0 < signals h')" and db': "db' = db\<lparr>begun := begun db @ [j], world := detach j l h' (world db)\<rparr>"
    by (auto simp: run_begin_def service_begin_def run_on_def emitted_def split: prod.splits sum.splits)
  show "pool_inv D (world db')" using pool_inv_begin [OF pool h q(1) bh] db' by simp
  have c: "\<not> cancelled h'" using begin_leaves_cancelled [OF bh] q by simp
  have inv: "h_inv h'" using begin_quiet_inv [OF _ bh] q by simp
  have "handler_phase (if fin then {j} else {}) db' j h'"
    using h_inv_phase [OF inv c] c j fin db' by (simp add: handler_phase_def split: if_splits)
  then show "link_inv (if fin then {j} else {}) db'"
    using link h j unfolding link_inv_def db' by (auto simp: handler_phase_def split: if_splits)
  have "weight db' k \<le> weight db k" for k
    using begin_quiet_inv [OF _ bh] q j db' owed_rank_le [of "owed h'"] by (auto simp: weight_def)
  then show "load db' \<le> load db" unfolding load_def db' by (simp add: sum_mono)
qed

lemma settle_inv:
  assumes pool: "pool_inv D (world db)" and link: "link_inv {i} db" and chain: "chain_inv hkey db" and i: "i \<in> set (requests db)"
    and s: "settle E hkey now i db = Inr db'" and e: "emitted i (world db)"
  shows "svc_inv hkey D {} db' \<and> load db' \<le> load db"
proof -
  define P where "P = (\<lambda>i' (db2 :: 'a service dbus). sv_abort (world db2) = None \<longrightarrow>
      pool_inv D (world db2) \<and> link_inv {i'} db2 \<and> i' \<in> set (requests db2) \<and> load db2 \<le> load db)"
  define Q where "Q = (\<lambda>db2 :: 'a service dbus. sv_abort (world db2) = None \<longrightarrow>
      pool_inv D (world db2) \<and> link_inv {} db2 \<and> load db2 \<le> load db)"
  have "i \<in> set (begun db)" using link by (simp add: link_inv_def)
  with chain i obtain v where v: "map_of (request_keys db) (hkey i) = Some (i # v)" by (rule chain_of_request)
  have len: "length v < length (requests_for (hkey i) db)" using requests_for_Some [OF v] by simp
  have "P i db" using pool link i by (simp add: P_def)
  moreover have "Q (requestFinished hkey i' db2)" if "P i' db2" for i' db2
    using that link_inv_finished [of i' db2 hkey] load_finished [of i' db2 hkey] unfolding P_def Q_def
    by (metis requestFinished_simps(3) le_trans)
  moreover have "if fin then P j db3 else Q db3"
    if c: "chain_inv hkey db2" "map_of (request_keys db2) (hkey i) = Some (i' # j # u)" and p: "P i' db2"
      and b: "run_begin (service_begin E now) j (requestFinished hkey i' db2) = (fin, db3)" for i' j u db2 fin db3
  proof (cases "sv_abort (world db3) = None")
    case True
    then have "sv_abort (world db2) = None"
      using b by (auto simp: run_begin_def split: prod.splits dest!: service_begin_abort)
    with p have p': "pool_inv D (world db2)" "link_inv {i'} db2" "i' \<in> set (requests db2)" "load db2 \<le> load db" by (simp_all add: P_def)
    have ok: "chain_ok hkey db2 (hkey i) (i' # j # u)" using c by (simp add: chain_inv_def)
    have "j \<in> set (requests_for (hkey j) db2)" using ok requests_for_Some [OF c(2)] by (simp add: chain_ok_def)
    with c(1) have "j \<in> set (requests db2)" by (simp add: chain_inv_def)
    with ok have j: "j \<in> set (requests (requestFinished hkey i' db2))" "j \<notin> set (begun (requestFinished hkey i' db2))"
      by (auto simp: chain_ok_def)
    have "pool_inv D (world (requestFinished hkey i' db2))" using p'(1) by simp
    note res = run_begin_service [OF this link_inv_finished [OF p'(2,3)] j b True]
    have "load db3 \<le> load db" using res(3) load_finished [OF p'(2,3), of hkey] p'(4) by linarith
    moreover have "requests db3 = removeAll i' (requests db2)" using run_begin_chain(4) [OF c b] .
    ultimately show ?thesis using res(1,2) j(1) by (cases fin) (simp_all add: P_def Q_def)
  qed (auto simp: P_def Q_def)
  ultimately have "\<exists>db2. emit_finished hkey (service_begin E now) (length (requests_for (hkey i) db)) i db = Some db2 \<and>
      chain_inv hkey db2 \<and> Q db2"
    by (intro emit_finished_induct [where P = P and Q = Q, OF chain v len]) blast+
  with s e show ?thesis by (auto simp: settle_def svc_inv_def Q_def split: option.splits)
qed

section \<open>Callbacks\<close>

lemma deliver_pool:
  assumes inv: "pool_inv D W" and h: "sv_handlers W i = Some (l, h)" and hi: "h_inv h" "\<not> cancelled h" and o: "owed h = Some cb"
    and cb: "loop_callback cb \<or> cb = Credentials_cb \<and> i \<in> D" and safe: "downloads_safe E"
    and d: "deliver E d cb (attach l W h) = (Inr (), h')"
  shows "pool_inv (D - {i}) (detach i l h' W)"
proof -
  let ?h = "attach l W h" and ?q = "(attach l W h)\<lparr>owed := None\<rparr>"
  have q: "quiet ?q" using quiet_owed_None [of ?h] hi o by simp
  have c: "cancelled h' = cancelled h" using deliver_cancelled [OF d] by simp
  have bq: "books ?q = books ?h" by (simp add: books_def shared_def slots_def)
  note rank = deliver_inv [of ?h cb E d h', OF _ _ d, simplified, OF hi(1) o]
  have quiet_case: ?thesis if "books h' = books ?h" "off_books (owed h')"
    by (rule pool_inv_silent [OF inv h that _ c]) (use o cb in \<open>auto simp: off_books_def loop_callback_def\<close>)
  consider (creds) "cb = Credentials_cb" | (check) "cb = Check_job" | (checked) "cb = Check_watcher" | (create) "cb = Create_job"
    | (created) "cb = Create_watcher" using cb by (auto simp: loop_callback_def)
  then show ?thesis
  proof cases
    case creds
    with d have g: "gotCredentials E (at_time d) (peer_creds d) ?q = (Inr (), h')" by (simp add: deliver_def)
    from leavesD [OF books_gotCredentials g] gotCredentials_inv [OF q g] bq show ?thesis
      by (intro quiet_case) (auto simp: off_books_def)
  next
    case check
    with d have g: "do_check E (at_time d) ?q = (Inr (), h')" by (simp add: deliver_def)
    from leavesD [OF books_do_check g] do_check_inv [OF q g] bq show ?thesis
      by (intro quiet_case) (auto simp: off_books_def)
  next
    case create
    with d have g: "do_create E (at_time d) ?q = (Inr (), h')" by (simp add: deliver_def)
    from leavesD [OF books_do_create g] do_create_inv [OF q g] bq show ?thesis
      by (intro quiet_case) (auto simp: off_books_def)
  next
    case created
    with d have g: "createFinished (at_time d) ?q = (Inr (), h')" by (simp add: deliver_def)
    moreover have "owed h' = None" using rank created o by (simp add: owed_rank_0)
    ultimately show ?thesis using leavesD [OF books_createFinished g] bq by (intro quiet_case) (auto simp: off_books_def)
  next
    case checked
    with d have "checkFinished E (at_time d) ?q = (Inr (), h')" by (simp add: deliver_def)
    from checkFinished_effect [OF safe _ _ this] hi(2)
    consider "books h' = books ?h" "owed h' = None" | "took_slot ?h h'" "shared h' = shared ?h"
      by (auto simp: took_slot_def books_def shared_def slots_def)
    then show ?thesis
    proof cases
      case 1
      then show ?thesis by (intro quiet_case) (auto simp: off_books_def)
    next
      case 2
      have i: "i \<notin> D" using inv mem_asking [OF h] o checked by (auto simp: pool_inv_def)
      have "off_books (owed h)" using o checked by (simp add: off_books_def)
      from pool_inv_took_slot [OF inv h this i 2 c] i show ?thesis by simp
    qed
  qed
qed

lemma chain_inv_world [simp]: "chain_inv hkey (db\<lparr>world := w\<rparr>) \<longleftrightarrow> chain_inv hkey db"
proof
  assume "chain_inv hkey (db\<lparr>world := w\<rparr>)"
  from chain_step_inv [OF chain_step.Work this, of "world db"] show "chain_inv hkey db" by simp
qed (rule chain_step_inv [OF chain_step.Work])

lemma link_inv_stage:
  assumes link: "link_inv {} db" and h: "sv_handlers (world db) i = Some (l, h)" "owed h \<noteq> None" and h': "h_inv h'" "\<not> cancelled h'"
  shows "link_inv (if 0 < signals h' then {i} else {}) (db\<lparr>world := detach i l h' (world db)\<rparr>)"
proof -
  note reg = owed_registered [OF link h]
  have "handler_phase (if 0 < signals h' then {i} else {}) (db\<lparr>world := detach i l h' (world db)\<rparr>) j g"
    if "sv_handlers (detach i l h' (world db)) j = Some (l', g)" for j l' g
    using that h_inv_phase(1) [OF h'] h'(2) reg link_invD [OF link, of j l' g]
    by (auto simp: handler_phase_def split: if_splits)
  then show ?thesis using link reg by (auto simp: link_inv_def)
qed

lemma run_handler_inv:
  assumes inv: "svc_inv hkey D {} db" and o: "owed_to i (world db) = Some cb"
    and cb: "loop_callback cb \<or> cb = Credentials_cb \<and> i \<in> D" and safe: "downloads_safe E"
    and r: "run_handler E hkey d cb i db = Inr db'"
  shows "svc_inv hkey (D - {i}) {} db' \<and> load db' < load db"
proof -
  have pool: "pool_inv D (world db)" and link: "link_inv {} db" and chain: "chain_inv hkey db" using inv by (simp_all add: svc_inv_def)
  from o obtain l h where h: "sv_handlers (world db) i = Some (l, h)" "owed h = Some cb"
    by (auto simp: owed_to_def split: option.splits)
  then have on: "owed h \<noteq> None" by simp
  note reg = owed_registered [OF link h(1) on]
  then have hi: "h_inv h" "\<not> cancelled h" by (simp_all add: in_progress_def)
  from r h(1) obtain h' where d: "deliver E d cb (attach l (world db) h) = (Inr (), h')"
      and s: "settle E hkey (at_time d) i (db\<lparr>world := detach i l h' (world db)\<rparr>) = Inr db'"
    by (auto simp: run_handler_def run_on_def split: prod.splits sum.splits)
  let ?db = "db\<lparr>world := detach i l h' (world db)\<rparr>"
  have pool': "pool_inv (D - {i}) (world ?db)" using deliver_pool [OF pool h(1) hi h(2) cb safe d] by simp
  have step: "h_inv h'" "owed_rank (owed h') < owed_rank (owed h)" "\<not> cancelled h'"
    using deliver_inv [OF _ _ d] hi h(2) deliver_cancelled [OF d] by simp_all
  have ld: "load ?db < load db" by (rule load_stage [OF reg(1,2) h(1) step(2)])
  note link' = link_inv_stage [OF link h(1) on step(1,3)]
  have em: "emitted i (world ?db) = (0 < signals h')" by (simp add: emitted_def)
  show ?thesis
  proof (cases "0 < signals h'")
    case True
    with settle_inv [OF pool' _ _ _ s] link' chain reg(1) em ld show ?thesis by auto
  next
    case False
    with s em have "db' = ?db" by (simp add: settle_def)
    with False pool' link' chain ld show ?thesis by (simp add: svc_inv_def)
  qed
qed

section \<open>Credentials\<close>

lemma link_inv_simps [simp]:
  "link_inv X (db\<lparr>request_keys := k\<rparr>) = link_inv X db" "link_inv X (db\<lparr>links := k'\<rparr>) = link_inv X db"
  by (simp_all add: link_inv_def handler_phase_def)

lemma load_world: "(\<And>i. owed_to i w = owed_to i (world db)) \<Longrightarrow> load (db\<lparr>world := w\<rparr>) = load db"
  unfolding load_def by (simp add: weight_def cong: sum.cong if_cong)

lemma link_inv_same_handlers:
  assumes "sv_handlers w = sv_handlers (world db)"
  shows "link_inv X (db\<lparr>world := w\<rparr>) = link_inv X db" and "load (db\<lparr>world := w\<rparr>) = load db"
  using assms by (simp_all add: link_inv_def handler_phase_def load_world owed_to_def)

lemma call_each_inv:
  assumes "svc_inv hkey (set (map fst cs)) {} db" and "distinct (map fst cs)" and safe: "downloads_safe E"
    and "call_each E hkey now cs db = Inr db'"
  shows "svc_inv hkey {} {} db' \<and> load db' + length cs \<le> load db"
  using assms(1,2,4)
proof (induction cs arbitrary: db)
  case (Cons c cs)
  obtain i cr where c: "c = (i, cr)" by (cases c)
  with Cons.prems(3) obtain db1 where r: "run_handler E hkey (plain_delivery now cr) Credentials_cb i db = Inr db1"
      and cs: "call_each E hkey now cs db1 = Inr db'" by (auto simp: rbind_Inr_iff)
  have "i \<in> asking (world db)" using Cons.prems(1) c by (auto simp: svc_inv_def pool_inv_def)
  then have o: "owed_to i (world db) = Some Credentials_cb" by (simp add: asking_def)
  have "set (map fst (c # cs)) - {i} = set (map fst cs)" using Cons.prems(2) c by auto
  with run_handler_inv [OF Cons.prems(1) o _ safe r] c have "svc_inv hkey (set (map fst cs)) {} db1" "load db1 < load db" by simp_all
  with Cons.IH [OF _ _ cs] Cons.prems(2) show ?case by auto
qed simp

lemma received_nonempty:
  assumes "received_credentials peer reply s = (Inr cs, s')" and "creds_inv s"
  shows "cs \<noteq> []"
proof -
  from assms(1) obtain cbs where "map_of (pending s) peer = Some cbs" "map fst cs = cbs"
    by (auto simp del: map_of_eq_Some_iff simp: received_credentials_def Let_def comp_def split: option.splits sum.splits if_splits)
  with assms(2) show ?thesis by (force simp: creds_inv_def dest!: map_of_SomeD)
qed

lemma peer_answer_inv:
  assumes inv: "svc_inv hkey {} {} db" and safe: "downloads_safe E" and a: "peer_answer E hkey now peer reply db = Inr db'"
  shows "svc_inv hkey {} {} db' \<and> load db' < load db"
proof -
  from a obtain cs c where r: "received_credentials peer reply (sv_creds (world db)) = (Inr cs, c)"
      and cs: "call_each E hkey now cs (db\<lparr>world := (world db)\<lparr>sv_creds := c\<rparr>\<rparr>) = Inr db'"
    by (auto simp: peer_answer_def split: prod.splits sum.splits)
  have pool: "pool_inv {} (world db)" using inv by (simp add: svc_inv_def)
  have "cs \<noteq> []" by (rule received_nonempty [OF r]) (use pool in \<open>simp add: pool_inv_def\<close>)
  then have ne: "0 < length cs" by simp
  have "svc_inv hkey (set (map fst cs)) {} (db\<lparr>world := (world db)\<lparr>sv_creds := c\<rparr>\<rparr>)" "distinct (map fst cs)"
    using inv pool_inv_received [OF pool r] by (simp_all add: svc_inv_def link_inv_same_handlers)
  from call_each_inv [OF this safe cs] ne link_inv_same_handlers(2) [of "(world db)\<lparr>sv_creds := c\<rparr>" db] show ?thesis
    by (cases cs) auto
qed

section \<open>The end of a download\<close>

lemma set_kind_inv:
  assumes "svc_inv hkey {} {} db" and "sv_handlers (world db) i = Some (l, h)"
    and g_def: "g = h\<lparr>hp_session := (hp_session h)\<lparr>rq := (rq (hp_session h))\<lparr>kind := k\<rparr>\<rparr>\<rparr>"
  shows "svc_inv hkey {} {} (db\<lparr>world := set_kind i k (world db)\<rparr>)" and "load (db\<lparr>world := set_kind i k (world db)\<rparr>) = load db"
    and "sv_handlers (set_kind i k (world db)) i = Some (l, g)" and "owed g = owed h"
proof -
  let ?W = "set_kind i k (world db)"
  have W: "?W = (world db)\<lparr>sv_handlers := (sv_handlers (world db))(i \<mapsto> (l, g))\<rparr>" using assms(2) by (simp add: set_kind_def g_def)
  have g: "owed g = owed h" "cancelled g = cancelled h" "hp_id g = hp_id h" "hp_cancel_func g = hp_cancel_func h" "h_inv g = h_inv h"
    "sent g = sent h" "signals g = signals h" by (simp_all add: g_def)
  show "owed g = owed h" and "sv_handlers ?W i = Some (l, g)" using g W by simp_all
  have "owing ?W l' cb = owing (world db) l' cb" for l' cb using W assms(2) g by (auto simp: owing_def)
  moreover have o: "owed_to j ?W = owed_to j (world db)" for j using W assms(2) g by (auto simp: owed_to_def)
  moreover have "alive ?W = alive (world db)" using W assms(2) g by (auto simp: alive_def)
  ultimately have "pool_inv {} ?W"
    using assms(1,2) g by (auto simp: svc_inv_def pool_inv_def asking_def limiter_ok_def W cancel_ok_def calls_ok_def)
  moreover have "handler_phase {} (db\<lparr>world := ?W\<rparr>) j f" if a: "sv_handlers ?W j = Some (l', f)" for j l' f
  proof -
    obtain f0 where f0: "sv_handlers (world db) j = Some (l', f0)" and f: "f = (if j = i then g else f0)"
      using a W assms(2) by (auto split: if_splits)
    have "handler_phase {} db j f0" using assms(1) f0 by (auto simp: svc_inv_def intro: link_invD)
    with f f0 assms(2) g show ?thesis
      by (simp add: handler_phase_def answered_def in_progress_def waits_turn_def quiet_def split: if_splits)
  qed
  ultimately show "svc_inv hkey {} {} (db\<lparr>world := ?W\<rparr>)"
    using assms(1,2) W by (auto simp: svc_inv_def link_inv_def)
  show "load (db\<lparr>world := ?W\<rparr>) = load db" using o by (rule load_world)
qed

text \<open>A delivery after which the handler is owed another callback.\<close>

lemma stage_goes_on:
  assumes link: "link_inv {} db" and h: "sv_handlers (world db) i = Some (l, h)" "owed h = Some cb"
    and d: "deliver E d cb (attach l (world db) h) = (Inr (), h')" and o: "owed h' \<noteq> None"
  defines "db' \<equiv> db\<lparr>world := detach i l h' (world db)\<rparr>"
  shows "link_inv {} db'" and "load db' < load db" and "\<not> cancelled h"
proof -
  have on: "owed h \<noteq> None" using h by simp
  note reg = owed_registered [OF link h(1) on]
  then show nc: "\<not> cancelled h" by (simp add: in_progress_def)
  have step: "h_inv h'" "owed_rank (owed h') < owed_rank (owed h)" "\<not> cancelled h'"
    using deliver_inv [OF _ _ d] h(2) deliver_cancelled [OF d] reg(3) by (simp_all add: in_progress_def)
  then have "signals h' = 0" using o h_inv_phase(2) [OF step(1,3)] by auto
  with link_inv_stage [OF link h(1) on step(1,3)] show "link_inv {} db'" by (simp add: db'_def)
  show "load db' < load db" unfolding db'_def by (rule load_stage [OF reg(1,2) h(1) step(2)])
qed

text \<open>The waiting handler whose job \<open>done()\<close> called.\<close>

lemma handover_inv:
  assumes inv: "svc_inv hkey {} {} db" and h: "sv_handlers (world db) i = Some (l, h)" "owed h = Some Download_signal"
    and d: "deliver E d Download_signal (attach l (world db) h) = (Inr (), h')"
    and eff: "shared h' = shared (attach l (world db) h)" "hp_cancel_func h' = hp_cancel_func h" "owed h' = Some Create_job"
    and q: "live (queue (limiter_at l (world db))) = js @ [j]" "live q = js" "set q \<subseteq> set (queue (limiter_at l (world db)))"
    and L': "hp_limiter h' = (limiter_at l (world db))\<lparr>queue := q, started := st\<rparr>" and dq: "distinct (map fst q)"
    and run: "run_on j (deliver E d2 Limiter_slot) (detach i l h' (world db)) = (Inr (), W3)"
  shows "svc_inv hkey {} {} (db\<lparr>world := W3\<rparr>) \<and> load (db\<lparr>world := W3\<rparr>) < load db"
proof -
  have pool: "pool_inv {} (world db)" and link: "link_inv {} db" using inv by (simp_all add: svc_inv_def)
  let ?db2 = "db\<lparr>world := detach i l h' (world db)\<rparr>"
  have on: "owed h' \<noteq> None" using eff(3) by simp
  note one = stage_goes_on [OF link h d on]
  have "j \<in> owing (world db) l Limiter_slot" using live_owing [OF pool, of l] q(1) by auto
  then obtain g where g: "sv_handlers (world db) j = Some (l, g)" "owed g = Some Limiter_slot" by (auto simp: owing_def)
  with h have ij: "i \<noteq> j" by auto
  with g(1) have g2: "sv_handlers (world ?db2) j = Some (l, g)" by simp
  from run g2 obtain g' where dg: "deliver E d2 Limiter_slot (attach l (world ?db2) g) = (Inr (), g')" and W3: "W3 = detach j l g' (world ?db2)"
    by (auto simp: run_on_def split: prod.splits)
  have gn: "owed g \<noteq> None" using g by simp
  note greg = owed_registered [OF link g(1) gn]
  let ?q = "(attach l (world ?db2) g)\<lparr>owed := None\<rparr>"
  have job: "download_job E (at_time d2) ?q = (Inr (), g')" using dg by (simp add: deliver_def)
  have "quiet ?q" using quiet_owed_None [of "attach l (world ?db2) g"] greg(3) gn by (simp add: in_progress_def)
  from download_job_inv [OF this job] greg(3) have og: "owed g' = Some Download_signal" by (auto simp: in_progress_def)
  have bg: "books g' = books (attach l (world ?db2) g)"
    using leavesD [OF books_download_job job] by (simp add: books_def shared_def slots_def)
  have ogn: "owed g' \<noteq> None" using og by simp
  note two = stage_goes_on [OF one(1) g2 g(2) dg ogn]
  have "pool_inv {} (detach j l g' (detach i l h' (world db)))"
    by (rule pool_inv_handover [OF pool h(1) g(1) ij h(2) eff(3) g(2) og q dq L' eff(1,2) _ bg [simplified]])
      (use deliver_cancelled [OF d] deliver_cancelled [OF dg] in simp_all)
  with two one inv W3 show ?thesis by (simp add: svc_inv_def)
qed

lemma download_end_inv:
  assumes inv: "svc_inv hkey {} {} db" and o: "owed_to i (world db) = Some Download_signal"
    and e: "download_end E now i k db = Inr db'"
  shows "svc_inv hkey {} {} db' \<and> load db' < load db"
proof -
  from o obtain l h0 where h0: "sv_handlers (world db) i = Some (l, h0)" "owed h0 = Some Download_signal"
    by (auto simp: owed_to_def split: option.splits)
  define W1 where "W1 = set_kind i k (world db)"
  define db1 where "db1 = db\<lparr>world := W1\<rparr>"
  note k = set_kind_inv [OF inv h0(1) refl, of k, folded W1_def, folded db1_def]
  obtain h where h: "sv_handlers (world db1) i = Some (l, h)" "owed h = Some Download_signal"
    using k(3,4) h0 by (simp add: db1_def)
  define d where "d = (plain_delivery now no_credentials)\<lparr>others_throw := job_throws E now W1\<rparr>"
  from e h(1) obtain h' where d: "deliver E d Download_signal (attach l (world db1) h) = (Inr (), h')"
      and db': "(case newly_started (limiter_at l W1) (hp_limiter h') of
                  None \<Rightarrow> Inr (db\<lparr>world := detach i l h' W1\<rparr>)
                | Some j \<Rightarrow> (case run_on j (deliver E (plain_delivery now no_credentials) Limiter_slot) (detach i l h' W1) of
                              (Inl e, _) \<Rightarrow> Inl e | (Inr _, W3) \<Rightarrow> Inr (db\<lparr>world := W3\<rparr>))) = Inr db'"
    by (auto simp: download_end_def Let_def run_on_def W1_def [symmetric] d_def [symmetric] db1_def limiter_of_def
        split: prod.splits sum.splits)
  have pool: "pool_inv {} (world db1)" and link: "link_inv {} db1" using k(1) by (simp_all add: svc_inv_def)
  have eff: "shared h' = shared (attach l (world db1) h)" "hp_cancel_func h' = hp_cancel_func h" "owed h' = Some Create_job"
      "limiter_done no_throw (limiter_at l (world db1)) = (Inr (), hp_limiter h')"
  proof -
    have "\<not> cancelled h" using owed_registered(3) [OF link h(1)] h(2) by (simp add: in_progress_def)
    with downloadFinished_effect [of "(attach l (world db1) h)\<lparr>owed := None\<rparr>" "others_throw d" "at_time d" h'] d
    show "shared h' = shared (attach l (world db1) h)" "hp_cancel_func h' = hp_cancel_func h" "owed h' = Some Create_job"
      "limiter_done no_throw (limiter_at l (world db1)) = (Inr (), hp_limiter h')"
      by (simp_all add: deliver_def shared_def)
  qed
  have "i \<in> owing (world db1) l Download_signal" "finite (owing (world db1) l Download_signal)"
    using mem_owing [OF h(1)] h(2) pool by (simp_all add: pool_inv_def)
  then have "0 < card (owing (world db1) l Download_signal)" by (metis card_gt_0_iff empty_iff)
  with pool have ok: "wf_limiter (limiter_at l (world db1))" "0 < running (limiter_at l (world db1))"
    by (simp_all add: pool_inv_def limiter_ok_def)
  from ok(2) show ?thesis
  proof (cases rule: limiter_done_cases [where throws = no_throw])
    case (idle q)
    with eff(4) db' have "db' = db1\<lparr>world := detach i l h' (world db1)\<rparr>"
      by (simp add: newly_started_def db1_def)
    moreover have "pool_inv {} (detach i l h' (world db1))"
      by (rule pool_inv_done_idle [OF pool h(1,2) eff(3)]) (use idle eff deliver_cancelled [OF d] in simp_all)
    ultimately show ?thesis
      using stage_goes_on [OF link h d] eff(3) k(1,2) by (simp add: svc_inv_def)
  next
    case (started_next js j q)
    with eff(4) have L': "hp_limiter h' = (limiter_at l (world db1))\<lparr>queue := q, started := started (limiter_at l (world db1)) @ [j]\<rparr>" by simp
    with db' obtain W3 where "run_on j (deliver E (plain_delivery now no_credentials) Limiter_slot) (detach i l h' (world db1)) = (Inr (), W3)"
        and "db' = db1\<lparr>world := W3\<rparr>"
      by (auto simp: newly_started_def db1_def split: prod.splits sum.splits)
    with handover_inv [OF k(1) h d eff(1-3) started_next(1-3) L'] started_next(4) ok(1) k(2) show ?thesis
      by (simp add: wf_limiter_def)
  qed
qed

end
