(* ===== verification/Service_Answers.thy ===== *)
theory Service_Answers
  imports Service_System
begin

text \<open>
  The properties of the running service: every event keeps its invariant, the events the accepted requests cause are
  bounded, and when no event is due every method call has been answered.
\<close>

section \<open>Deletion and method calls\<close>

lemma chain_inv_delete_later [simp]: "chain_inv hkey (db\<lparr>delete_later := x\<rparr>) \<longleftrightarrow> chain_inv hkey db"
proof -
  have "linked (db\<lparr>delete_later := x\<rparr>) v = linked db v" for v by (rule linked_cong) simp
  then show ?thesis by (simp add: chain_inv_def chain_ok_def requests_for_def)
qed

lemma deferred_delete_inv:
  assumes inv: "svc_inv hkey {} {} db" and i: "i \<in> set (delete_later db)" and d: "deferred_delete i db = Inr db'"
  shows "svc_inv hkey {} {} db' \<and> load db' < load db"
proof -
  have pool: "pool_inv {} (world db)" and link: "link_inv {} db" using inv by (simp_all add: svc_inv_def)
  from link i obtain l h where h: "sv_handlers (world db) i = Some (l, h)" and ni: "i \<notin> set (requests db)" by (force simp: link_inv_def)
  with link_invD [OF link h] i have a: "answered h" "\<not> cancelled h" by (simp_all add: handler_phase_def)
  from d h obtain h' where hd: "Handler_destroy (attach l (world db) h) = (Inr (), h')"
      and db': "db' = db\<lparr>world := detach i l h' (world db), delete_later := removeAll i (delete_later db)\<rparr>"
    by (auto simp: deferred_delete_def run_on_def split: prod.splits sum.splits)
  note eff = destroy_effect [OF hd]
  have "pool_inv {} (world db')"
    using pool_inv_destroy [OF pool h _ a(2) hd] a(1) db' by (simp add: answered_def)
  moreover have "handler_phase {} db' j g" if "sv_handlers (world db') j = Some (l', g)" for j l' g
  proof (cases "j = i")
    case True
    with that db' eff a ni show ?thesis by (simp add: handler_phase_def answered_def)
  next
    case False
    with that db' link_invD [OF link, of j l' g] show ?thesis by (simp add: handler_phase_def)
  qed
  then have "link_inv {} db'" using link h db' by (auto simp: link_inv_def)
  moreover have "chain_inv hkey db'" using inv db' by (simp add: svc_inv_def)
  moreover have "load db' < load db"
  proof -
    have "weight db' j = weight db j" if "j \<in> set (requests db)" for j
      using that ni db' by (auto simp: weight_def)
    moreover have "card (set (delete_later db) - {i}) < card (set (delete_later db))"
      using i by (intro psubset_card_mono) auto
    ultimately show ?thesis unfolding load_def db' by (simp cong: sum.cong)
  qed
  ultimately show ?thesis by (simp add: svc_inv_def)
qed

lemma method_call_inv:
  assumes inv: "svc_inv hkey {} {} db" and due: "due E hkey (Method_call i peer m) db"
    and c: "method_call E hkey now i peer m db = Inr db'"
  shows "svc_inv hkey {} {} db'"
proof (cases "dispatch E (sv_tn (world db)) m")
  case (Call_error a b w)
  with c have db': "db' = db\<lparr>world := (world db)\<lparr>sv_refused := sv_refused (world db) @ [(i, Error_reply a b)]\<rparr>\<rparr>" (is "_ = db\<lparr>world := ?w\<rparr>")
    by (simp add: method_call_def Let_def)
  have "asking ?w = asking (world db)" "alive ?w = alive (world db)" "owing ?w = owing (world db)"
    by (simp_all add: asking_def owed_to_def alive_def owing_def fun_eq_iff)
  moreover have "calls_ok ?w" using inv due by (auto simp: svc_inv_def pool_inv_def calls_ok_def)
  ultimately have "pool_inv {} ?w" using inv by (simp add: svc_inv_def pool_inv_def limiter_ok_def)
  with inv db' show ?thesis by (simp add: svc_inv_def link_inv_same_handlers)
next
  case (New_handler l r details)
  have pool: "pool_inv {} (world db)" and link: "link_inv {} db" and chain: "chain_inv hkey db" using inv by (simp_all add: svc_inv_def)
  have new: "fresh_handler i db" "sv_handlers (world db) i = None" "i \<notin> fst ` set (sv_refused (world db))" using due by simp_all
  from c New_handler obtain h where hh: "Handler i peer (limiter_at l (world db)) (sv_creds (world db)) (sv_inactivity (world db))
        \<lparr>rq = r, tn = sv_tn (world db)\<rparr> details now = Inr h"
      and q: "(case queueRequest hkey (service_begin E now) i (db\<lparr>world := detach i l h (world db)\<rparr>) of
           (Inl e, db') \<Rightarrow> Inl e
         | (Inr _, db') \<Rightarrow> (case sv_abort (world db') of Some e \<Rightarrow> Inl e | None \<Rightarrow> Inr db')) = Inr db'"
    by (auto simp: method_call_def Let_def rbind_Inr_iff)
  from q have qr: "queueRequest hkey (service_begin E now) i (db\<lparr>world := detach i l h (world db)\<rparr>) = (Inr (), db')"
    and ok: "sv_abort (world db') = None"
    by (auto split: prod.splits sum.splits option.splits)
  have "fresh_handler i (db\<lparr>world := detach i l h (world db)\<rparr>)" using new(1) by (simp add: fresh_handler_def)
  from chain_inv_queue [OF _ this qr] chain have chain': "chain_inv hkey db'" by simp
  have pool1: "pool_inv {} (detach i l h (world db))" by (rule pool_inv_new [OF pool new(2,3) hh])
  let ?db = "db\<lparr>world := detach i l h (world db), requests := requests db @ [i]\<rparr>"
  have out: "i \<notin> set (requests db)" "i \<notin> set (begun db)" "i \<notin> set (delete_later db)"
    using link new(2) by (auto simp: link_inv_def)
  have "handler_phase {} ?db j g" if a: "sv_handlers (detach i l h (world db)) j = Some (l', g)" for j l' g
  proof (cases "j = i")
    case True
    with a out Handler_quiet [OF hh] show ?thesis by (simp add: handler_phase_def waits_turn_def)
  next
    case False
    with a link_invD [OF link, of j l' g] show ?thesis by (simp add: handler_phase_def)
  qed
  then have link1: "link_inv {} ?db" using link out by (auto simp: link_inv_def)
  show ?thesis
  proof (cases "requests_for (hkey i) db = []")
    case False
    then have "requests_for (hkey i) (db\<lparr>world := detach i l h (world db)\<rparr>) \<noteq> []" by (simp add: requests_for_def)
    with qr obtain k k' where "db' = ?db\<lparr>links := k, request_keys := k'\<rparr>"
      by (auto simp: queueRequest_def Let_def)
    with pool1 link1 chain' show ?thesis by (simp add: svc_inv_def)
  next
    case True
    define db1 where "db1 = ?db\<lparr>request_keys := AList.update (hkey i) [] (request_keys db)\<rparr>"
    have "requests_for (hkey i) (db\<lparr>world := detach i l h (world db)\<rparr>) = []" using True by (simp add: requests_for_def)
    with qr obtain db2 where b: "run_begin (service_begin E now) i db1 = (False, db2)"
        and db': "db' = db2\<lparr>request_keys := AList.update (hkey i) [i] (request_keys db2)\<rparr>"
      by (auto simp: queueRequest_def Let_def db1_def split: prod.splits bool.splits)
    have i: "i \<in> set (requests db1)" "i \<notin> set (begun db1)" and p1: "pool_inv {} (world db1)" and l1: "link_inv {} db1"
      using out pool1 link1 by (simp_all add: db1_def)
    have "sv_abort (world db2) = None" using ok db' by simp
    from run_begin_service [OF p1 l1 i b this] chain' db' show ?thesis by (simp add: svc_inv_def)
  qed
qed

section \<open>Every event\<close>

lemma service_step_inv:
  assumes "service_step E hkey ev db db'" and inv: "svc_inv hkey {} {} db" and safe: "downloads_safe E"
  shows "svc_inv hkey {} {} db' \<and> (\<not> is_call ev \<longrightarrow> load db' < load db)"
proof -
  from assms(1) obtain now where 1: "due E hkey ev db" "handle E hkey now ev db = Inr db'" by (rule service_stepE)
  show ?thesis
  proof (cases ev)
    case (Method_call i peer m)
    with 1 method_call_inv [OF inv, of E i peer m now db'] show ?thesis by simp
  next
    case (Callback i)
    with 1 obtain cb where cb: "owed_to i (world db) = Some cb" "loop_callback cb" by (auto split: option.splits)
    with 1 Callback have "run_handler E hkey (plain_delivery now no_credentials) cb i db = Inr db'" by simp
    from run_handler_inv [OF inv cb(1) _ safe this] cb(2) show ?thesis by simp
  next
    case (Download_end i k)
    with 1 download_end_inv [OF inv, of i E now k db'] show ?thesis by simp
  next
    case (Peer_answer peer reply)
    with 1 peer_answer_inv [OF inv safe, of now peer reply db'] show ?thesis by simp
  next
    case (Deferred_delete i)
    with 1 deferred_delete_inv [OF inv, of i db'] show ?thesis by simp
  qed
qed

lemma service_reaches_inv:
  assumes "service_reaches E hkey db db'" and "svc_inv hkey {} {} db" and "downloads_safe E"
  shows "svc_inv hkey {} {} db'"
  using assms(1) unfolding service_reaches_def
  by (induction rule: rtranclp_induct) (use assms(2,3) service_step_inv in blast)+

lemma new_service_inv:
  assumes "DBusInterface arm hw env S = Inr c" and "InactivityHandler idle = Inr a"
  shows "svc_inv hkey {} {} (new_service t c aa a)"
proof -
  have lim: "wf_limiter (download_limiter c)" "wf_limiter (extraction_limiter c)"
    and idle: "running (download_limiter c) = 0" "queue (download_limiter c) = []"
      "running (extraction_limiter c) = 0" "queue (extraction_limiter c) = []"
    using assms(1) by (auto simp: DBusInterface_def rbind_Inr_iff RateLimiter_def wf_limiter_def)
  let ?W = "world (new_service t c aa a)"
  have "owing ?W l cb = {}" "asking ?W = {}" "alive ?W = {}" for l cb
    by (simp_all add: new_service_def no_requests_def owing_def asking_def alive_def owed_to_def)
  moreover have "wf_limiter (limiter_at l ?W) \<and> running (limiter_at l ?W) = 0 \<and> queue (limiter_at l ?W) = []" for l
    using lim idle by (cases l) (simp_all add: new_service_def no_requests_def)
  moreover have "inactivity_inv (sv_inactivity ?W) \<and> num_active (sv_inactivity ?W) = 0"
    using assms(2) by (auto simp: new_service_def no_requests_def InactivityHandler_def rbind_Inr_iff inactivity_inv_def)
  ultimately have "pool_inv {} ?W"
    by (auto simp: pool_inv_def limiter_ok_def wf_limiter_def limiter.saturated_def less_imp_le
        creds_inv_def waiting_def new_service_def no_requests_def CredentialsCache_def calls_ok_def)
  moreover have "link_inv {} (new_service t c aa a)"
    by (simp add: link_inv_def new_service_def no_requests_def)
  moreover have "chain_inv hkey (new_service t c aa a)"
    unfolding new_service_def by (rule chain_inv_init)
  ultimately show ?thesis by (simp add: svc_inv_def)
qed

section \<open>Progress\<close>

text \<open>The oldest request of a key is in progress: somebody owes its handler a callback.\<close>

lemma oldest_in_progress:
  assumes inv: "svc_inv hkey D {} db" and "requests db \<noteq> []"
  obtains i l h cb where "sv_handlers (world db) i = Some (l, h)" "owed h = Some cb"
proof -
  have chain: "chain_inv hkey db" and link: "link_inv {} db" using inv by (simp_all add: svc_inv_def)
  from assms(2) obtain j where "j \<in> set (requests db)" by (cases "requests db") auto
  with chain have "j \<in> set (requests_for (hkey j) db)" by (simp add: chain_inv_def)
  then obtain v where v: "map_of (request_keys db) (hkey j) = Some v"
    by (cases "map_of (request_keys db) (hkey j)") (simp_all add: requests_for_def)
  with chain have ok: "chain_ok hkey db (hkey j) v" by (simp add: chain_inv_def)
  then have "hd v \<in> set (begun db)" "hkey (hd v) = hkey j" "hd v \<in> set v" by (auto simp: chain_ok_def)
  moreover from this requests_for_Some [OF v] chain have "hd v \<in> set (requests db)" by (simp add: chain_inv_def)
  ultimately obtain l h where "sv_handlers (world db) (hd v) = Some (l, h)" "in_progress h"
    using link by (auto elim: link_invE)
  with that show thesis by (auto simp: in_progress_def)
qed

lemma waiting_pending: "i \<in># waiting s \<Longrightarrow> \<exists>peer. map_of (pending s) peer \<noteq> None"
  by (force simp: waiting_def map_of_eq_None_iff)

lemma request_due:
  assumes inv: "svc_inv hkey {} {} db" and "requests db \<noteq> []"
  shows "\<exists>ev. \<not> is_call ev \<and> due E hkey ev db"
proof -
  have pool: "pool_inv {} (world db)" using inv by (simp add: svc_inv_def)
  from oldest_in_progress [OF assms] obtain i l h cb where h: "sv_handlers (world db) i = Some (l, h)" "owed h = Some cb" .
  show ?thesis
  proof (cases cb)
    case Credentials_cb
    with h have "i \<in> asking (world db)" by (simp add: asking_def)
    with pool have "i \<in># waiting (sv_creds (world db))" by (simp add: pool_inv_def)
    from waiting_pending [OF this] obtain peer where "map_of (pending (sv_creds (world db))) peer \<noteq> None" by blast
    then have "due E hkey (Peer_answer peer None) db" by simp
    then show ?thesis by (metis is_call.simps(4))
  next
    case Limiter_slot
    let ?L = "limiter_at l (world db)"
    have "i \<in> set (live (queue ?L))" using h Limiter_slot live_owing [OF pool, of l] mem_owing [OF h(1)] by simp
    then have "live (queue ?L) \<noteq> []" by auto
    with pool have "0 < card (owing (world db) l Download_signal)"
      by (fastforce simp: pool_inv_def limiter_ok_def limiter.saturated_def wf_limiter_def)
    then obtain j where "j \<in> owing (world db) l Download_signal" by (metis card.empty equals0I less_irrefl)
    then have "due E hkey (Download_end j (kind (rq (hp_session h)))) db" by (auto simp: owing_def owed_to_def)
    then show ?thesis by (metis is_call.simps(3))
  next
    case Download_signal
    with h have "due E hkey (Download_end i (kind (rq (hp_session h)))) db" by simp
    then show ?thesis by (metis is_call.simps(3))
  qed (use h in \<open>auto intro!: exI [of _ "Callback i"] simp: loop_callback_def\<close>)
qed

section \<open>Exceptions\<close>

text \<open>No \<open>std::exception\<close> leaves the event loop: what ends an event without a next state also ends the process.\<close>

definition abort_ok :: "'w service \<Rightarrow> bool" where
  "abort_ok W \<longleftrightarrow> (\<forall>e. sv_abort W = Some e \<longrightarrow> \<not> catchable e)"

lemma begin_each_world:
  assumes "\<And>i W fin W'. begin_of i W = (fin, W') \<Longrightarrow> R W \<Longrightarrow> R W'"
    and "\<And>j db db'. emit j db = Some db' \<Longrightarrow> R (world db) \<Longrightarrow> R (world db')"
  shows "begin_each emit begin_of js db = Some db' \<Longrightarrow> R (world db) \<Longrightarrow> R (world db')"
proof (induction js arbitrary: db)
  case (Cons j js)
  from Cons.prems(1) obtain fin db1 where b: "run_begin begin_of j db = (fin, db1)" by (cases "run_begin begin_of j db")
  have "R (world db1)" using b Cons.prems(2) by (auto simp: run_begin_def split: prod.splits intro: assms(1))
  with Cons b assms(2) show ?case by (auto split: bool.splits option.splits)
qed simp

lemma emit_finished_world:
  assumes "\<And>i W fin W'. begin_of i W = (fin, W') \<Longrightarrow> R W \<Longrightarrow> R W'"
  shows "emit_finished hkey begin_of n i db = Some db' \<Longrightarrow> R (world db) \<Longrightarrow> R (world db')"
proof (induction n arbitrary: i db db')
  case (Suc n)
  have "begin_each (emit_finished hkey begin_of n) begin_of (successors i (requestFinished hkey i db)) (requestFinished hkey i db) = Some db'"
    using Suc.prems(1) by (simp add: Let_def)
  moreover have "R (world (requestFinished hkey i db))" using Suc.prems(2) by simp
  ultimately show ?case
    using begin_each_world [of begin_of R "emit_finished hkey begin_of n"] assms Suc.IH by blast
qed simp

definition uncaught :: "('s, 'a) act \<Rightarrow> bool" where
  "uncaught m \<longleftrightarrow> (\<forall>s e. fst (m s) = Inl e \<longrightarrow> \<not> catchable e)"

lemma uncaughtD: "uncaught m \<Longrightarrow> m s = (Inl e, s') \<Longrightarrow> \<not> catchable e"
  by (metis uncaught_def fst_conv)

lemma uncaught_begin: "uncaught (begin_handler E now)"
  by (auto simp: uncaught_def begin_handler_def owe_def split: prod.splits list.splits dest: gotCredentials_throws)

lemma uncaught_destroy: "uncaught Handler_destroy"
  by (auto simp: uncaught_def Handler_destroy_def Let_def request_completed_def rbind_def assert_r_def split: sum.splits if_splits)

lemma uncaught_deliver: "loop_callback cb \<or> cb = Credentials_cb \<Longrightarrow> uncaught (deliver E d cb)"
  by (auto simp: uncaught_def loop_callback_def dest: deliver_throws)

lemma uncaught_job: "downloads_safe E \<Longrightarrow> uncaught (download_job E now)"
  by (auto simp: uncaught_def downloads_safe_def dest!: download_job_throws_download)

lemma uncaught_slot: "downloads_safe E \<Longrightarrow> uncaught (deliver E d Limiter_slot)"
  using uncaught_job [of E "at_time d"] by (auto simp: uncaught_def deliver_def)

lemma uncaught_run_on: "uncaught m \<Longrightarrow> uncaught (run_on i m)"
  by (auto simp: uncaught_def run_on_def split: option.splits prod.splits) (metis fst_conv)

lemma uncaught_download_signal:
  assumes "downloads_safe E" and "others_throw d = job_throws E now W"
  shows "uncaught (deliver E d Download_signal)"
  unfolding uncaught_def
proof (intro allI impI notI)
  fix h e
  assume "fst (deliver E d Download_signal h) = Inl e" and c: "catchable e"
  from deliver_throws [OF this] assms(2) obtain j where "job_throws E now W j = Some e" by auto
  then have "fst (run_on j (download_job E now) W) = Inl e" by (auto simp: job_throws_def split: sum.splits)
  with uncaught_run_on [OF uncaught_job [OF assms(1)]] c show False by (auto simp: uncaught_def)
qed

lemma run_on_abort: "run_on i m W = (r, W') \<Longrightarrow> sv_abort W' = sv_abort W"
  by (auto simp: run_on_def split: option.splits prod.splits)

lemma run_on_abort_None: "run_on i m W = (r, W') \<Longrightarrow> sv_abort W = None \<Longrightarrow> sv_abort W' = None"
  by (simp add: run_on_abort)

lemma service_begin_abort_ok: "service_begin E now i W = (fin, W') \<Longrightarrow> abort_ok W \<Longrightarrow> abort_ok W'"
  by (auto simp: service_begin_def abort_ok_def split: prod.splits sum.splits
      dest: run_on_abort uncaughtD [OF uncaught_run_on [OF uncaught_begin]])

lemma settle_uncaught:
  assumes "settle E hkey now i db = r" and "sv_abort (world db) = None"
  shows "case r of Inl e \<Rightarrow> \<not> catchable e | Inr db' \<Rightarrow> sv_abort (world db') = None"
proof -
  have "abort_ok (world db)" using assms(2) by (simp add: abort_ok_def)
  with emit_finished_world [of "service_begin E now" abort_ok, OF service_begin_abort_ok] assms show ?thesis
    by (fastforce simp: settle_def abort_ok_def split: if_splits option.splits)
qed

lemma run_handler_uncaught:
  assumes "run_handler E hkey d cb i db = r" and "sv_abort (world db) = None" and "loop_callback cb \<or> cb = Credentials_cb"
  shows "case r of Inl e \<Rightarrow> \<not> catchable e | Inr db' \<Rightarrow> sv_abort (world db') = None"
proof -
  obtain x W where ro: "run_on i (deliver E d cb) (world db) = (x, W)" by (cases "run_on i (deliver E d cb) (world db)")
  show ?thesis
  proof (cases x)
    case (Inl e)
    have "uncaught (run_on i (deliver E d cb))" by (rule uncaught_run_on [OF uncaught_deliver [OF assms(3)]])
    from uncaughtD [OF this, of "world db"] ro Inl assms(1) show ?thesis by (auto simp: run_handler_def)
  next
    case (Inr u)
    have "settle E hkey (at_time d) i (db\<lparr>world := W\<rparr>) = r" using Inr ro assms(1) by (simp add: run_handler_def)
    from settle_uncaught [OF this] run_on_abort [OF ro] assms(2) show ?thesis by simp
  qed
qed

lemma call_each_uncaught:
  assumes "call_each E hkey now cs db = r" and "sv_abort (world db) = None"
  shows "case r of Inl e \<Rightarrow> \<not> catchable e | Inr db' \<Rightarrow> sv_abort (world db') = None"
  using assms
proof (induction cs arbitrary: db)
  case (Cons c cs)
  obtain i cr where c: "c = (i, cr)" by (cases c)
  obtain x where x: "run_handler E hkey (plain_delivery now cr) Credentials_cb i db = x" by blast
  from run_handler_uncaught [OF x Cons.prems(2)] Cons c x show ?case by (cases x) auto
qed auto

lemma download_end_uncaught:
  assumes "download_end E now i k db = r" and "sv_abort (world db) = None" and safe: "downloads_safe E"
  shows "case r of Inl e \<Rightarrow> \<not> catchable e | Inr db' \<Rightarrow> sv_abort (world db') = None"
proof -
  define W1 where "W1 = set_kind i k (world db)"
  define d where "d = (plain_delivery now no_credentials)\<lparr>others_throw := job_throws E now W1\<rparr>"
  have a1: "sv_abort W1 = None" using assms(2) by (auto simp: W1_def set_kind_def split: option.splits)
  have od: "others_throw d = job_throws E now W1" by (simp add: d_def)
  note first = uncaughtD [OF uncaught_run_on [OF uncaught_download_signal [OF safe od]]]
    and second = uncaughtD [OF uncaught_run_on [OF uncaught_slot [OF safe]]]
  show ?thesis
    using assms(1) a1
    by (auto simp: download_end_def Let_def W1_def [symmetric] d_def [symmetric] split: prod.splits sum.splits option.splits
        dest: run_on_abort_None first second)
qed

lemma method_call_uncaught:
  assumes "method_call E hkey now i peer m db = r" and "sv_abort (world db) = None"
  shows "case r of Inl e \<Rightarrow> \<not> catchable e | Inr db' \<Rightarrow> sv_abort (world db') = None"
proof (cases "dispatch E (sv_tn (world db)) m")
  case (New_handler l rr details)
  obtain x where x: "Handler i peer (limiter_at l (world db)) (sv_creds (world db)) (sv_inactivity (world db))
        \<lparr>rq = rr, tn = sv_tn (world db)\<rparr> details now = x" by blast
  show ?thesis
  proof (cases x)
    case (Inl e)
    with x have "\<not> catchable e" by (auto simp: Handler_def request_started_def rbind_def assert_r_def split: if_splits)
    with Inl x New_handler assms show ?thesis by (auto simp: method_call_def Let_def)
  next
    case (Inr h)
    let ?db = "db\<lparr>world := detach i l h (world db)\<rparr>"
    obtain y db2 where q: "queueRequest hkey (service_begin E now) i ?db = (y, db2)"
      by (cases "queueRequest hkey (service_begin E now) i ?db")
    have "abort_ok (world ?db)" using assms(2) by (simp add: abort_ok_def)
    with q have "abort_ok (world db2)" "\<forall>e. y = Inl e \<longrightarrow> \<not> catchable e"
      by (auto simp: queueRequest_def Let_def run_begin_def split: if_splits prod.splits bool.splits dest: service_begin_abort_ok)
    with Inr x q New_handler assms(1) show ?thesis
      by (cases y) (auto simp: method_call_def Let_def abort_ok_def split: option.splits)
  qed
qed (use assms in \<open>auto simp: method_call_def Let_def\<close>)

lemma handle_uncaught:
  assumes "due E hkey ev db" and "handle E hkey now ev db = r" and ok: "sv_abort (world db) = None" and safe: "downloads_safe E"
  shows "case r of Inl e \<Rightarrow> \<not> catchable e | Inr db' \<Rightarrow> sv_abort (world db') = None"
proof (cases ev)
  case (Method_call i peer m)
  with assms(2) method_call_uncaught [of E hkey now i peer m db r, OF _ ok] show ?thesis by simp
next
  case (Callback i)
  with assms(1) obtain cb where cb: "owed_to i (world db) = Some cb" "loop_callback cb" by (auto split: option.splits)
  with assms(2) Callback run_handler_uncaught [of E hkey _ cb i db r, OF _ ok] show ?thesis by simp
next
  case (Download_end i k)
  with assms(2) download_end_uncaught [of E now i k db r, OF _ ok safe] show ?thesis by simp
next
  case (Peer_answer peer reply)
  with assms(1) received_outstanding [of "sv_creds (world db)" peer reply] obtain cs c where
    "received_credentials peer reply (sv_creds (world db)) = (Inr cs, c)" by auto
  with assms(2) Peer_answer have "call_each E hkey now cs (db\<lparr>world := (world db)\<lparr>sv_creds := c\<rparr>\<rparr>) = r" by (simp add: peer_answer_def)
  from call_each_uncaught [OF this] ok show ?thesis by simp
next
  case (Deferred_delete i)
  with assms(2) ok show ?thesis
    by (auto simp: deferred_delete_def split: prod.splits sum.splits dest: run_on_abort uncaughtD [OF uncaught_run_on [OF uncaught_destroy]])
qed

section \<open>Replies\<close>

definition replies_to :: "nat \<Rightarrow> 'w service \<Rightarrow> bus_reply list" where
  "replies_to i W =
     map snd (filter (\<lambda>p. fst p = i) (sv_refused W)) @ (case sv_handlers W i of None \<Rightarrow> [] | Some (l, h) \<Rightarrow> sent h)"

definition called :: "'w service \<Rightarrow> nat set" where
  "called W = fst ` set (sv_refused W) \<union> dom (sv_handlers W)"

lemma filter_refused:
  "distinct (map fst al) \<Longrightarrow> length (filter (\<lambda>p. fst p = i) al) = (if i \<in> fst ` set al then 1 else 0)"
  by (induction al) (auto simp: image_iff filter_empty_conv)

lemma replies_exactly:
  assumes "svc_inv hkey {} {} db"
  shows "length (replies_to i (world db)) = (if i \<in> called (world db) \<and> i \<notin> set (requests db) then 1 else 0)"
proof (cases "sv_handlers (world db) i")
  case None
  then have "i \<notin> set (requests db)" using assms by (auto simp: svc_inv_def link_inv_def)
  moreover have d: "distinct (map fst (sv_refused (world db)))" using assms by (simp add: svc_inv_def pool_inv_def calls_ok_def)
  ultimately show ?thesis using None filter_refused [OF d, of i] by (simp add: replies_to_def called_def domIff)
next
  case (Some p)
  obtain l h where p: "p = (l, h)" by (cases p)
  have pool: "pool_inv {} (world db)" and link: "link_inv {} db" using assms by (simp_all add: svc_inv_def)
  have "filter (\<lambda>q. fst q = i) (sv_refused (world db)) = []"
    using handler_not_refused [OF pool Some] by (force simp: filter_empty_conv)
  moreover have "length (sent h) = (if i \<in> set (requests db) then 0 else 1)"
    using link_invD [OF link Some [unfolded p]]
    by (auto simp: handler_phase_def answered_def waits_turn_def quiet_def dest: in_progress_sent split: if_splits)
  ultimately show ?thesis using Some p by (auto simp: replies_to_def called_def)
qed

lemma at_rest:
  assumes inv: "svc_inv hkey {} {} db" and "\<And>ev. \<not> is_call ev \<Longrightarrow> \<not> due E hkey ev db"
  shows "requests db = []" and "num_active (sv_inactivity (world db)) = 0"
    and "running (limiter_at l (world db)) = 0" and "live (queue (limiter_at l (world db))) = []"
    and "pending (sv_creds (world db)) = []"
proof -
  have pool: "pool_inv {} (world db)" and link: "link_inv {} db" using inv by (simp_all add: svc_inv_def)
  show none: "requests db = []" using request_due [OF inv, of E] assms(2) by blast
  have "delete_later db = []"
    using assms(2) [of "Deferred_delete (hd (delete_later db))"] by (cases "delete_later db") auto
  with none link have phase: "cancelled h \<and> owed h = None" if "sv_handlers (world db) i = Some (l', h)" for i l' h
    using link_invD [OF link that] by (simp add: handler_phase_def answered_def)
  then have "alive (world db) = {}" "owing (world db) l cb = {}" for cb by (auto simp: alive_def owing_def)
  with pool live_owing [OF pool, of l] show "num_active (sv_inactivity (world db)) = 0"
    "running (limiter_at l (world db)) = 0" "live (queue (limiter_at l (world db))) = []"
    by (simp_all add: pool_inv_def limiter_ok_def)
  have "map_of (pending (sv_creds (world db))) peer = None" for peer
    using assms(2) [of "Peer_answer peer None"] by auto
  then show "pending (sv_creds (world db)) = []" by (metis map_of_eq_empty_iff ext)
qed

lemma service_reaches_abort:
  assumes "service_reaches E hkey db db'" and "sv_abort (world db) = None" and "downloads_safe E"
  shows "sv_abort (world db') = None"
  using assms(1) unfolding service_reaches_def
proof (induction rule: rtranclp_induct)
  case (step db1 db2)
  from step.hyps(2) obtain ev now where "due E hkey ev db1" "handle E hkey now ev db1 = Inr db2" by (auto elim: service_stepE)
  from handle_uncaught [OF this step.IH assms(3)] show ?case by simp
qed (use assms(2) in simp)

section \<open>A concrete run\<close>

text \<open>One call for album art, by a peer whose credentials the bus daemon does not tell.\<close>

definition sample_size :: qsize where
  "sample_size = \<lparr>width = 48, height = 48\<rparr>"

definition sample_key :: "nat \<Rightarrow> string" where
  "sample_key i = album_key ''A'' ''B''"

lemma sample_config: "\<exists>c. DBusInterface False 0 None sample_settings = Inr c \<and> running (download_limiter c) = 0"
proof -
  have *: "max_downloads sample_settings = Inr 8" "max_extractions sample_settings = Inr 0"
      "log_level None sample_settings = Inr 1" "max_backlog sample_settings = Inr 10"
    by (simp_all add: max_downloads_def max_extractions_def log_level_def max_backlog_def get_positive_int_def
        get_positive_or_zero_int_def sample_settings_simps)
  then show ?thesis by (simp add: DBusInterface_def RateLimiter_def extraction_limit_def adjusted_limit_def)
qed

definition sample_event :: service_event where
  "sample_event = Method_call 0 '':1.5'' (Album_art_call ''A'' ''B'' sample_size)"

definition sample_waiting :: "dbus_config \<Rightarrow> mem handler" where
  "sample_waiting c =
     \<lparr>hp_id = 0, hp_service = '':1.5'',
      hp_session = \<lparr>rq = new_album_request ''A'' ''B'' sample_size (extraction_timeout_msec sample_thumbnailer), tn = sample_thumbnailer\<rparr>,
      hp_limiter = download_limiter c,
      hp_creds = (CredentialsCache False)\<lparr>pending := [('':1.5'', [0])], bus_queries := ['':1.5'']\<rparr>,
      hp_inactivity = sample_inactivity\<lparr>num_active := 1\<rparr>, start_time = 1, finish_time = 0, schedule_start_time = 0,
      download_start_time = 0, download_finish_time = 0, hp_details = art_details ''album'' ''A'' ''B'' sample_size,
      hp_cancel_func = None, cancelled = False, checkWatcher = None, createWatcher = None, owed = Some Credentials_cb,
      sent = [], signals = 0, warnings = []\<rparr>"

definition sample_called :: "dbus_config \<Rightarrow> mem service dbus" where
  "sample_called c =
     \<lparr>requests = [0], request_keys = [(sample_key 0, [0])], links = [], begun = [0], delete_later = [],
      world = \<lparr>sv_tn = sample_thumbnailer, sv_download = download_limiter c, sv_extraction = extraction_limiter c,
               sv_creds = hp_creds (sample_waiting c), sv_inactivity = hp_inactivity (sample_waiting c),
               sv_handlers = [0 \<mapsto> (Download_limiter, sample_waiting c)], sv_refused = [], sv_abort = None\<rparr>\<rparr>"

lemma sample_call:
  "service_step sample_env sample_key sample_event (new_service sample_thumbnailer c False sample_inactivity) (sample_called c)"
proof (rule service_step.intros)
  show "due sample_env sample_key sample_event (new_service sample_thumbnailer c False sample_inactivity)"
    by (simp add: sample_event_def new_service_def no_requests_def fresh_handler_def GetAlbumArt_def get_album_art_def
        new_album_request_def RequestBase_def sample_key_def)
  show "handle sample_env sample_key 1 sample_event (new_service sample_thumbnailer c False sample_inactivity) = Inr (sample_called c)"
    by (simp add: sample_event_def method_call_def new_service_def no_requests_def Let_def GetAlbumArt_def get_album_art_def
        new_album_request_def Handler_def request_started_def sample_inactivity_def queueRequest_def requests_for_def run_begin_def
        service_begin_def run_on_def begin_handler_def creds_get_def CredentialsCache_def owe_def emitted_def attach_def detach_def
        sample_called_def sample_waiting_def)
qed

lemma sample_answer:
  "\<exists>db. service_step sample_env sample_key (Peer_answer '':1.5'' None) (sample_called c) db \<and> requests db = [] \<and> called (world db) = {0}"
proof -
  have "due sample_env sample_key (Peer_answer '':1.5'' None) (sample_called c)"
    by (simp add: sample_called_def sample_waiting_def)
  moreover have "\<exists>db. handle sample_env sample_key 2 (Peer_answer '':1.5'' None) (sample_called c) = Inr db \<and> requests db = [] \<and> called (world db) = {0}"
    by (simp add: peer_answer_def received_credentials_def reply_credentials_def sample_called_def sample_waiting_def CredentialsCache_def Let_def
        emplace_def MAX_CACHE_SIZE_def run_handler_def run_on_def deliver_def plain_delivery_def attach_def detach_def gotCredentials_def
        no_credentials_def sendError_def settle_def emitted_def requests_for_def requestFinished_def successors_def called_def)
  ultimately show ?thesis by (blast intro: service_step.intros)
qed

lemma sample_reaches:
  "\<exists>db. service_reaches sample_env sample_key (new_service sample_thumbnailer c False sample_inactivity) db \<and>
        requests db = [] \<and> called (world db) = {0}"
proof -
  obtain db where "service_step sample_env sample_key (Peer_answer '':1.5'' None) (sample_called c) db" and db: "requests db = []" "called (world db) = {0}"
    using sample_answer by blast
  then have "service_reaches sample_env sample_key (sample_called c) db" by (auto simp: service_reaches_def)
  then have "service_reaches sample_env sample_key (new_service sample_thumbnailer c False sample_inactivity) db"
    using sample_call unfolding service_reaches_def by (blast intro: converse_rtranclp_into_rtranclp)
  with db show ?thesis by blast
qed

lemma sample_safe: "downloads_safe sample_env"
  by (auto simp: downloads_safe_def dest: sample_download_safe)

lemma sample_idle: "InactivityHandler None = Inr sample_inactivity"
  by (simp add: InactivityHandler_def get_env_inactivity_time_def MAX_INACTIVITY_TIME_def sample_inactivity_def)

section \<open>Properties\<close>









end
