(* ===== verification/Service_Replies.thy ===== *)
theory Service_Replies
  imports Service_Answers "HOL-Library.Sublist"
begin

text \<open>
  Replies and calls of the running service. Replies are final: no event of the running service takes back or changes a reply that was sent. With the exact number of
  replies from \<open>Service_Answers\<close> it follows that the one reply to a call is the same at every later time. Calls
  are registered under their number and no other event adds to them.
\<close>

section \<open>Handlers only add replies\<close>

definition appends :: "('w handler, 'a) act \<Rightarrow> bool" where
  "appends m \<longleftrightarrow> (\<forall>h. prefix (sent h) (sent (snd (m h))))"

named_theorems appends_intros

lemma appendsD: "appends m \<Longrightarrow> m h = (r, h') \<Longrightarrow> prefix (sent h) (sent h')"
  by (metis appends_def snd_conv)

lemma appends_frame: "leaves hp_frame m \<Longrightarrow> appends m"
  by (auto simp: appends_def leaves_def hp_frame_def)

lemma appends_modify: "(\<And>h. prefix (sent h) (sent (f h))) \<Longrightarrow> appends (act_modify f)"
  by (simp add: appends_def)

lemma appends_basic [appends_intros]:
  "appends (act_ret a)" "appends (act_throw e)" "appends (act_of r)" "appends (owe cb)"
  "appends (sendError now m)" "appends (sendThumbnail now b)"
  by (auto simp: appends_def owe_def sendError_def sendThumbnail_def Let_def)

lemma appends_then:
  assumes "prefix (sent h) (sent h1)" and "appends n"
  shows "prefix (sent h) (sent (snd (n h1)))"
  using assms by (auto simp: appends_def intro: prefix_order.trans)

lemma appends_bind [appends_intros]:
  assumes "appends m" and "\<And>a. appends (n a)"
  shows "appends (act_bind m n)"
  unfolding appends_def
proof
  fix h
  obtain r h1 where m: "m h = (r, h1)" by (cases "m h")
  with appendsD [OF assms(1) m] appends_then [OF _ assms(2)] show "prefix (sent h) (sent (snd (act_bind m n h)))"
    by (cases r) (simp_all add: act_bind_def)
qed

lemma appends_catch [appends_intros]:
  assumes "appends m" and "\<And>e. appends (n e)"
  shows "appends (act_catch m n)"
  unfolding appends_def
proof
  fix h
  obtain r h1 where m: "m h = (r, h1)" by (cases "m h")
  with appendsD [OF assms(1) m] appends_then [OF _ assms(2)] show "prefix (sent h) (sent (snd (act_catch m n h)))"
    by (cases r) (auto simp: act_catch_def)
qed

lemma appends_if [appends_intros]: "appends m \<Longrightarrow> appends n \<Longrightarrow> appends (if b then m else n)"
  by simp

lemma appends_option [appends_intros]:
  "appends m \<Longrightarrow> (\<And>a. appends (n a)) \<Longrightarrow> appends (case x of None \<Rightarrow> m | Some a \<Rightarrow> n a)"
  by (cases x) simp_all

lemma appends_sum [appends_intros]:
  "(\<And>a. appends (m a)) \<Longrightarrow> (\<And>b. appends (n b)) \<Longrightarrow> appends (case x of Inl a \<Rightarrow> m a | Inr b \<Rightarrow> n b)"
  by (cases x) simp_all

lemma appends_list [appends_intros]:
  "appends m \<Longrightarrow> (\<And>a as. appends (n a as)) \<Longrightarrow> appends (case xs of [] \<Rightarrow> m | a # as \<Rightarrow> n a as)"
  by (cases xs) simp_all

lemma appends_dep: "(\<And>h0. appends (m h0)) \<Longrightarrow> appends (\<lambda>h. m h h)"
  by (simp add: appends_def)

lemma appends_signals [appends_intros]:
  "appends (act_modify (\<lambda>h. h\<lparr>signals := f h\<rparr>))" "appends (act_modify (\<lambda>h. h\<lparr>hp_cancel_func := f' h\<rparr>))"
  "appends (act_modify (\<lambda>h. h\<lparr>checkWatcher := g h, owed := o1 h\<rparr>))" "appends (act_modify (\<lambda>h. h\<lparr>createWatcher := g h, owed := o1 h\<rparr>))"
  "appends (act_modify (\<lambda>h. h\<lparr>download_start_time := t h\<rparr>))" "appends (act_modify (\<lambda>h. h\<lparr>download_finish_time := t h\<rparr>))"
  by (simp_all add: appends_def)

lemma appends_gotCredentials: "appends (gotCredentials E now cr)"
  unfolding gotCredentials_def [abs_def] by (rule appends_dep, intro appends_intros)

lemma appends_begin: "appends (begin_handler E now)"
  unfolding appends_def
proof
  fix h
  have "prefix (sent h) (sent (snd (gotCredentials E now cr (h\<lparr>hp_creds := c\<rparr>))))"
    "prefix (sent h) (sent (snd (owe cb (h\<lparr>hp_creds := c\<rparr>))))" for cr c cb
    by (rule appends_then; simp add: appends_gotCredentials appends_basic)+
  then show "prefix (sent h) (sent (snd (begin_handler E now h)))"
    by (simp add: begin_handler_def split: prod.split list.split)
qed

lemma appends_do_check: "appends (do_check E now)"
  unfolding do_check_def by (intro appends_intros appends_frame [OF leaves_byte_array_or_error [OF leaves_check]])

lemma appends_do_create: "appends (do_create E now)"
  unfolding do_create_def by (intro appends_intros appends_frame [OF leaves_byte_array_or_error [OF leaves_create]])

lemma appends_download_job: "appends (download_job E now)"
  unfolding download_job_def [abs_def] by (rule appends_dep, intro appends_intros appends_frame [OF leaves_on_session])

lemma appends_schedule_download: "appends (schedule_download E now)"
  unfolding appends_def
proof
  fix h
  show "prefix (sent h) (sent (snd (schedule_download E now h)))"
    using appendsD [OF appends_download_job, of E now h] by (auto simp: schedule_download_def split: prod.split)
qed

lemma appends_schedule_stage: "appends (schedule_stage E now)"
  unfolding appends_def
proof
  fix h
  have "appends (act_catch (act_bind (schedule_download E now) (\<lambda>cf. act_modify (\<lambda>h. h\<lparr>hp_cancel_func := Some cf\<rparr>))) (\<lambda>e. sendError now (m e)))" for m
    by (intro appends_intros appends_schedule_download)
  then have "prefix (sent h) (sent (snd (act_catch (act_bind (schedule_download E now) (\<lambda>cf. act_modify (\<lambda>h. h\<lparr>hp_cancel_func := Some cf\<rparr>)))
      (\<lambda>e. sendError now (m e)) (h\<lparr>schedule_start_time := now\<rparr>))))" for m
    by (rule appends_then [rotated]) simp
  moreover have "prefix (sent h) (sent (snd (sendError now m (h\<lparr>schedule_start_time := now\<rparr>))))" for m
    by (rule appends_then) (simp_all add: appends_basic)
  ultimately show "prefix (sent h) (sent (snd (schedule_stage E now h)))" by (simp add: schedule_stage_def Let_def)
qed

lemma appends_checkFinished: "appends (checkFinished E now)"
  unfolding checkFinished_def [abs_def] by (rule appends_dep, intro appends_intros appends_schedule_stage)

lemma appends_createFinished: "appends (createFinished now)"
  unfolding createFinished_def [abs_def] by (rule appends_dep, intro appends_intros)

lemma appends_downloadFinished: "appends (downloadFinished throws now)"
proof -
  have "appends (act_zoom hp_limiter (\<lambda>l h. h\<lparr>hp_limiter := l\<rparr>) f)" for f :: "nat limiter \<Rightarrow> unit result \<times> nat limiter"
    by (auto simp: appends_def act_zoom_def split: prod.split)
  moreover have "appends (\<lambda>h. if cancelled h then (Inr (), h) else owe cb h)" for cb by (simp add: appends_def owe_def)
  ultimately show ?thesis unfolding downloadFinished_def by (intro appends_intros)
qed

lemma appends_deliver: "appends (deliver E d cb)"
proof -
  have "appends (run_callback E d cb)"
    by (cases cb) (simp_all add: appends_gotCredentials appends_do_check appends_checkFinished appends_download_job
        appends_downloadFinished appends_do_create appends_createFinished)
  then have "prefix (sent h) (sent (snd (run_callback E d cb (h\<lparr>owed := None\<rparr>))))" for h by (rule appends_then [rotated]) simp
  then show ?thesis by (simp add: appends_def deliver_def)
qed

lemma appends_destroy: "appends Handler_destroy"
  by (auto simp: appends_def Handler_destroy_def waitForFinished_def Let_def split: option.splits sum.splits callback.splits)

section \<open>The service only adds replies\<close>

definition grown :: "'w service \<Rightarrow> 'w service \<Rightarrow> bool" where
  "grown W0 W \<longleftrightarrow> (\<forall>i. prefix (replies_to i W0) (replies_to i W))"

lemma grown_refl [simp]: "grown W W"
  by (simp add: grown_def)

lemma grown_trans: "grown W0 W \<Longrightarrow> grown W W' \<Longrightarrow> grown W0 W'"
  unfolding grown_def by (meson prefix_order.trans)

lemma grown_run_on:
  assumes "appends m" and "run_on i m W = (r, W')"
  shows "grown W W'"
proof (cases "sv_handlers W i")
  case None
  with assms(2) show ?thesis by (simp add: run_on_def)
next
  case (Some p)
  obtain l h where p: "p = (l, h)" by (cases p)
  obtain h' where h': "m (attach l W h) = (r, h')" "W' = detach i l h' W"
    using assms(2) Some p by (auto simp: run_on_def split: prod.splits)
  have "prefix (sent h) (sent h')" using appendsD [OF assms(1) h'(1)] by (simp add: attach_def)
  with h'(2) Some p show ?thesis by (auto simp: grown_def replies_to_def detach_def same_prefix_prefix)
qed

lemma replies_to_fields [simp]:
  "replies_to j (W\<lparr>sv_abort := a\<rparr>) = replies_to j W" "replies_to j (W\<lparr>sv_creds := c\<rparr>) = replies_to j W"
  "replies_to j (set_kind i k W) = replies_to j W"
  by (auto simp: replies_to_def set_kind_def split: option.splits)

lemma grown_fields [simp]:
  "grown W0 (W\<lparr>sv_abort := a\<rparr>) = grown W0 W" "grown W0 (W\<lparr>sv_creds := c\<rparr>) = grown W0 W" "grown W0 (set_kind i k W) = grown W0 W"
  "grown (set_kind i k W0) W = grown W0 W"
  by (simp_all add: grown_def)

lemma grown_begin: "service_begin E now i W = (fin, W') \<Longrightarrow> grown W0 W \<Longrightarrow> grown W0 W'"
  by (auto simp: service_begin_def split: prod.splits sum.splits dest!: grown_run_on [OF appends_begin] intro: grown_trans)

lemma grown_settle:
  assumes "settle E hkey now i db = Inr db'" and "grown W0 (world db)"
  shows "grown W0 (world db')"
  using assms emit_finished_world [of "service_begin E now" "grown W0", OF grown_begin]
  by (auto simp: settle_def split: if_splits option.splits)

lemma grown_run_handler:
  assumes "run_handler E hkey d cb i db = Inr db'" and "grown W0 (world db)"
  shows "grown W0 (world db')"
proof -
  obtain W where W: "run_on i (deliver E d cb) (world db) = (Inr (), W)" "settle E hkey (at_time d) i (db\<lparr>world := W\<rparr>) = Inr db'"
    using assms(1) by (auto simp: run_handler_def split: prod.splits sum.splits)
  with grown_settle [OF W(2)] grown_trans [OF assms(2) grown_run_on [OF appends_deliver W(1)]] show ?thesis by simp
qed

lemma grown_call_each: "call_each E hkey now cs db = Inr db' \<Longrightarrow> grown W0 (world db) \<Longrightarrow> grown W0 (world db')"
proof (induction cs arbitrary: db)
  case (Cons c cs)
  obtain i cr where c: "c = (i, cr)" by (cases c)
  with Cons.prems(1) obtain db1 where "run_handler E hkey (plain_delivery now cr) Credentials_cb i db = Inr db1" "call_each E hkey now cs db1 = Inr db'"
    by (auto simp: rbind_Inr_iff)
  with grown_run_handler Cons show ?case by blast
qed simp

lemma grown_queueRequest:
  assumes "queueRequest hkey (service_begin E now) i db = (Inr (), db')" and "grown W0 (world db)"
  shows "grown W0 (world db')"
  using assms by (auto simp: queueRequest_def Let_def run_begin_def split: if_splits prod.splits bool.splits dest: grown_begin)

lemma grown_method_call:
  assumes "method_call E hkey now i peer m db = Inr db'" and new: "sv_handlers (world db) i = None"
  shows "grown (world db) (world db')"
proof (cases "dispatch E (sv_tn (world db)) m")
  case (Call_error a b c)
  with assms show ?thesis by (auto simp: method_call_def Let_def grown_def replies_to_def)
next
  case (New_handler l r details)
  with assms(1) obtain h where h: "(case queueRequest hkey (service_begin E now) i (db\<lparr>world := detach i l h (world db)\<rparr>) of
        (Inl e, db') \<Rightarrow> Inl e
      | (Inr _, db') \<Rightarrow> (case sv_abort (world db') of Some e \<Rightarrow> Inl e | None \<Rightarrow> Inr db')) = Inr db'"
    by (auto simp: method_call_def Let_def rbind_Inr_iff)
  obtain x db2 where q: "queueRequest hkey (service_begin E now) i (db\<lparr>world := detach i l h (world db)\<rparr>) = (x, db2)"
    by (cases "queueRequest hkey (service_begin E now) i (db\<lparr>world := detach i l h (world db)\<rparr>)")
  with h have q: "queueRequest hkey (service_begin E now) i (db\<lparr>world := detach i l h (world db)\<rparr>) = (Inr (), db')"
    by (auto split: sum.splits option.splits)
  have "grown (world db) (detach i l h (world db))" using new by (auto simp: grown_def replies_to_def detach_def)
  with grown_queueRequest [OF q] show ?thesis by simp
qed

lemma service_step_grown:
  assumes "service_step E hkey ev db db'"
  shows "grown (world db) (world db')"
proof -
  from assms obtain now where "due E hkey ev db" "handle E hkey now ev db = Inr db'" by (rule service_stepE)
  then show ?thesis
  proof (cases ev)
    case (Method_call i peer m)
    with \<open>due E hkey ev db\<close> \<open>handle E hkey now ev db = Inr db'\<close> grown_method_call [of E hkey now i peer m db db'] show ?thesis by simp
  next
    case (Callback i)
    with \<open>handle E hkey now ev db = Inr db'\<close> grown_run_handler [OF _ grown_refl] show ?thesis
      by (auto split: option.splits)
  next
    case (Download_end i k)
    let ?W1 = "set_kind i k (world db)"
    have "grown (world db) ?W1" by simp
    with \<open>handle E hkey now ev db = Inr db'\<close> Download_end show ?thesis
      by (auto simp: download_end_def Let_def split: prod.splits sum.splits option.splits
          dest!: grown_run_on [OF appends_deliver] intro: grown_trans)
  next
    case (Peer_answer peer reply)
    with \<open>handle E hkey now ev db = Inr db'\<close> show ?thesis
      by (auto simp: peer_answer_def split: prod.splits sum.splits dest!: grown_call_each [of _ _ _ _ _ _ "world db"])
  next
    case (Deferred_delete i)
    with \<open>handle E hkey now ev db = Inr db'\<close> show ?thesis
      by (auto simp: deferred_delete_def split: prod.splits sum.splits dest: grown_run_on [OF appends_destroy])
  qed
qed

text \<open>A call that has been answered keeps its reply.\<close>

lemma reply_final:
  assumes "service_step E hkey ev db db'" and "svc_inv hkey {} {} db" "downloads_safe E"
    and "i \<in> called (world db)" "i \<notin> set (requests db)"
  shows "replies_to i (world db') = replies_to i (world db)"
proof -
  have "prefix (replies_to i (world db)) (replies_to i (world db'))"
    using service_step_grown [OF assms(1)] by (simp add: grown_def)
  moreover have "length (replies_to i (world db)) = 1" using replies_exactly [OF assms(2), of i] assms(4,5) by simp
  moreover have "length (replies_to i (world db')) \<le> 1"
    using replies_exactly [of hkey db' i] service_step_inv [OF assms(1-3)] by simp
  ultimately show ?thesis by (auto simp: prefix_def)
qed

section \<open>Calls\<close>

text \<open>Only a method call adds to the calls the service has seen and to the connections between handlers.\<close>

lemma called_fields [simp]:
  "called (W\<lparr>sv_abort := a\<rparr>) = called W" "called (W\<lparr>sv_creds := c\<rparr>) = called W" "called (set_kind i k W) = called W"
  by (auto simp: called_def set_kind_def split: option.splits)

lemma called_run_on: "run_on i m W = (r, W') \<Longrightarrow> called W' = called W"
  by (auto simp: run_on_def called_def detach_def split: option.splits prod.splits if_splits)

lemma called_begin:
  assumes "service_begin E now i W = (fin, W')"
  shows "called W' = called W"
proof -
  obtain r W1 where r: "run_on i (begin_handler E now) W = (r, W1)" by (cases "run_on i (begin_handler E now) W")
  have "called W' = called W1"
  proof (cases r)
    case (Inl e)
    with assms r have "W' = W1\<lparr>sv_abort := Some e\<rparr>" by (simp add: service_begin_def)
    then show ?thesis by (simp only: called_fields)
  next
    case (Inr u)
    with assms r show ?thesis by (simp add: service_begin_def)
  qed
  with called_run_on [OF r] show ?thesis by simp
qed

lemma links_begin_each:
  assumes "\<And>j db db'. emit j db = Some db' \<Longrightarrow> links db' = links db"
  shows "begin_each emit begin_of js db = Some db' \<Longrightarrow> links db' = links db"
proof (induction js arbitrary: db)
  case (Cons j js)
  obtain fin db1 where b: "run_begin begin_of j db = (fin, db1)" by (cases "run_begin begin_of j db")
  then have "links db1 = links db" by (auto simp: run_begin_def split: prod.splits)
  with Cons b assms show ?case by (auto split: bool.splits option.splits)
qed simp

lemma links_emit_finished: "emit_finished hkey begin_of n i db = Some db' \<Longrightarrow> links db' = links db"
proof (induction n arbitrary: i db db')
  case (Suc n)
  from links_begin_each [OF Suc.IH] Suc.prems show ?case by (fastforce simp: requestFinished_def Let_def)
qed simp

lemma same_settle:
  assumes "settle E hkey now i db = Inr db'"
  shows "called (world db') = called (world db)" "links db' = links db"
proof -
  show "links db' = links db" using assms links_emit_finished by (fastforce simp: settle_def split: if_splits option.splits)
  have "called (world db2) = called (world db)" if "emit_finished hkey (service_begin E now) n i db = Some db2" for n db2
    by (rule emit_finished_world [of "service_begin E now" "\<lambda>W. called W = called (world db)", OF _ that refl]) (simp add: called_begin)
  with assms show "called (world db') = called (world db)" by (auto simp: settle_def split: if_splits option.splits)
qed

lemma same_run_handler:
  assumes "run_handler E hkey d cb i db = Inr db'"
  shows "called (world db') = called (world db)" "links db' = links db"
proof -
  obtain W where W: "run_on i (deliver E d cb) (world db) = (Inr (), W)" "settle E hkey (at_time d) i (db\<lparr>world := W\<rparr>) = Inr db'"
    using assms(1) by (auto simp: run_handler_def split: prod.splits sum.splits)
  from same_settle [OF W(2)] called_run_on [OF W(1)] show "called (world db') = called (world db)" "links db' = links db" by simp_all
qed

lemma same_call_each:
  "call_each E hkey now cs db = Inr db' \<Longrightarrow> called (world db') = called (world db) \<and> links db' = links db"
proof (induction cs arbitrary: db)
  case (Cons c cs)
  obtain i cr where c: "c = (i, cr)" by (cases c)
  with Cons.prems obtain db1 where db1: "run_handler E hkey (plain_delivery now cr) Credentials_cb i db = Inr db1" "call_each E hkey now cs db1 = Inr db'"
    by (auto simp: rbind_Inr_iff)
  from Cons.IH [OF db1(2)] same_run_handler [OF db1(1)] show ?case by simp
qed simp

lemma service_step_same:
  assumes "service_step E hkey ev db db'" and "\<not> is_call ev"
  shows "called (world db') = called (world db) \<and> links db' = links db"
proof -
  from assms(1) obtain now where h: "due E hkey ev db" "handle E hkey now ev db = Inr db'" by (rule service_stepE)
  then show ?thesis
  proof (cases ev)
    case (Callback i)
    with h(2) show ?thesis by (auto split: option.splits dest: same_run_handler)
  next
    case (Download_end i k)
    obtain W2 where "called W2 = called (set_kind i k (world db))" "db' = db\<lparr>world := W2\<rparr>"
      using h(2) Download_end
      by (auto simp: download_end_def Let_def split: prod.splits sum.splits option.splits dest!: called_run_on intro: that)
    then show ?thesis by simp
  next
    case (Peer_answer peer reply)
    with h(2) show ?thesis by (auto simp: peer_answer_def split: prod.splits sum.splits dest: same_call_each)
  next
    case (Deferred_delete i)
    with h(2) show ?thesis by (auto simp: deferred_delete_def split: prod.splits sum.splits dest: called_run_on)
  qed (use assms(2) in simp)
qed

lemma service_step_call:
  assumes "service_step E hkey (Method_call i peer m) db db'"
  shows "called (world db') = insert i (called (world db))"
    "set (links db') \<subseteq> set (links db) \<union> (\<lambda>j. (j, i)) ` set (requests_for (hkey i) db)"
proof -
  from assms obtain now where c: "method_call E hkey now i peer m db = Inr db'" by (auto elim: service_stepE)
  have "called (world db') = insert i (called (world db)) \<and>
      set (links db') \<subseteq> set (links db) \<union> (\<lambda>j. (j, i)) ` set (requests_for (hkey i) db)"
  proof (cases "dispatch E (sv_tn (world db)) m")
    case (Call_error a b w)
    with c show ?thesis by (auto simp: method_call_def Let_def called_def)
  next
    case (New_handler l r details)
    with c obtain h where h: "(case queueRequest hkey (service_begin E now) i (db\<lparr>world := detach i l h (world db)\<rparr>) of
        (Inl e, db') \<Rightarrow> Inl e
      | (Inr _, db') \<Rightarrow> (case sv_abort (world db') of Some e \<Rightarrow> Inl e | None \<Rightarrow> Inr db')) = Inr db'"
      by (auto simp: method_call_def Let_def rbind_Inr_iff)
    then have q: "queueRequest hkey (service_begin E now) i (db\<lparr>world := detach i l h (world db)\<rparr>) = (Inr (), db')"
      by (auto split: prod.splits sum.splits option.splits)
    have "called (detach i l h (world db)) = insert i (called (world db))" by (auto simp: called_def detach_def)
    moreover have "requests_for (hkey i) (db\<lparr>world := detach i l h (world db)\<rparr>) = requests_for (hkey i) db" by (simp add: requests_for_def)
    moreover have "called (world db') = called (detach i l h (world db))"
    proof -
      have "world db' = detach i l h (world db) \<or> (\<exists>fin. service_begin E now i (detach i l h (world db)) = (fin, world db'))"
        using q by (cases "service_begin E now i (detach i l h (world db))")
          (auto simp: queueRequest_def Let_def run_begin_def split: if_splits bool.splits)
      then show ?thesis using called_begin by metis
    qed
    moreover have "set (links db') \<subseteq> set (links db) \<union> (\<lambda>j. (j, i)) ` set (requests_for (hkey i) (db\<lparr>world := detach i l h (world db)\<rparr>))"
      using q by (auto simp: queueRequest_def Let_def run_begin_def split: if_splits prod.splits bool.splits)
    ultimately show ?thesis by simp
  qed
  then show "called (world db') = insert i (called (world db))"
    "set (links db') \<subseteq> set (links db) \<union> (\<lambda>j. (j, i)) ` set (requests_for (hkey i) db)" by simp_all
qed

text \<open>Handlers are connected only to handlers of earlier calls; so a number that was not used is free in every respect.\<close>

definition links_known :: "'w service dbus \<Rightarrow> bool" where
  "links_known db \<longleftrightarrow> fst ` set (links db) \<union> snd ` set (links db) \<subseteq> called (world db)"

lemma requests_called:
  assumes "svc_inv hkey {} {} db"
  shows "set (requests db) \<subseteq> called (world db)" "set (requests_for (hkey i) db) \<subseteq> called (world db)" "set (begun db) \<subseteq> called (world db)"
proof -
  show "set (requests db) \<subseteq> called (world db)" "set (begun db) \<subseteq> called (world db)"
    using assms by (auto simp: svc_inv_def link_inv_def called_def)
  moreover have "set (requests_for (hkey i) db) \<subseteq> set (requests db)"
  proof
    fix j assume j: "j \<in> set (requests_for (hkey i) db)"
    then obtain v where v: "map_of (request_keys db) (hkey i) = Some v" "j \<in> set v" by (cases "map_of (request_keys db) (hkey i)") (auto simp: requests_for_def)
    with assms have "hkey j = hkey i" by (auto simp: svc_inv_def chain_inv_def chain_ok_def)
    with assms j show "j \<in> set (requests db)" by (auto simp: svc_inv_def chain_inv_def)
  qed
  ultimately show "set (requests_for (hkey i) db) \<subseteq> called (world db)" by blast
qed

lemma links_known_step:
  assumes st: "service_step E hkey ev db db'" and inv: "svc_inv hkey {} {} db" and "links_known db"
  shows "links_known db'"
proof (cases ev)
  case (Method_call i peer m)
  with service_step_call [of E hkey i peer m db db'] st requests_called(2) [OF inv, of i] assms(3) show ?thesis
    by (force simp: links_known_def)
qed (use assms service_step_same [OF st] in \<open>simp_all add: links_known_def\<close>)

lemma unused_number:
  assumes "svc_inv hkey {} {} db" and "links_known db" and "i \<notin> called (world db)"
  shows "fresh_handler i db" "sv_handlers (world db) i = None" "i \<notin> fst ` set (sv_refused (world db))"
  using assms requests_called [OF assms(1)] by (auto simp: fresh_handler_def links_known_def called_def)

end
