(* ===== verification/Client_Service.thy ===== *)
theory Client_Service
  imports Client_Sends Service_Replies
begin

text \<open>
  Client and service together: an application's requests go through the client library's limiter onto the bus, to the
  service's handlers, and back as replies. The state has a client, the service, the bus between them, and who has been answered.
  Besides this client, others may call the service; the bus itself may answer a call with an error, as it does on
  a time-out. The application does not block in \<open>waitForFinished\<close> here.
\<close>

section \<open>State\<close>

text \<open>
  A request of the client, its method call and its handler have the same number. \<open>sy_calls\<close> has the call of each request,
  \<open>sy_bus\<close> the calls that were sent and not yet received, \<open>sy_answered\<close> the calls to which an answer was delivered.
\<close>

record ('i, 'w) system =
  sy_client :: "'i client"
  sy_service :: "'w service dbus"
  sy_calls :: "nat \<rightharpoonup> dbus_call"
  sy_bus :: "nat list"
  sy_answered :: "nat set"

text \<open>What the two programs rely on: the service's environment, the key of each call, the client's bus name, \<open>canonical\<close> and \<open>QImage::fromData\<close>.\<close>

record ('p, 'l, 'w, 'i) deployment =
  dp_env :: "('p, 'l, 'w) env"
  dp_key :: "nat \<Rightarrow> string"
  dp_name :: string
  dp_canonical :: "string \<Rightarrow> string result"
  dp_fromData :: "string \<Rightarrow> 'i option"

section \<open>Events\<close>

datatype app_call = Get_album_art string string qsize | Get_artist_art string string qsize | Get_thumbnail string qsize

fun app_request :: "(string \<Rightarrow> string result) \<Rightarrow> nat \<Rightarrow> app_call \<Rightarrow> ('i client, dbus_call) act" where
  "app_request canonical i (Get_album_art artist album sz) = Thumbnailer_getAlbumArt i artist album sz"
| "app_request canonical i (Get_artist_art artist album sz) = Thumbnailer_getArtistArt i artist album sz"
| "app_request canonical i (Get_thumbnail filePath sz) = Thumbnailer_getThumbnail canonical i filePath sz"

fun call_of :: "(string \<Rightarrow> string result) \<Rightarrow> app_call \<Rightarrow> dbus_call" where
  "call_of canonical (Get_album_art artist album sz) = GetAlbumArt_call artist album sz"
| "call_of canonical (Get_artist_art artist album sz) = GetArtistArt_call artist album sz"
| "call_of canonical (Get_thumbnail filePath sz) = GetThumbnail_call (canonical_name canonical filePath) sz"

text \<open>The D-Bus method a call invokes, and what the client gets of a reply: the bytes, or the message of the error.\<close>

fun on_bus :: "dbus_call \<Rightarrow> bus_call" where
  "on_bus (GetAlbumArt_call artist album sz) = Album_art_call artist album sz"
| "on_bus (GetArtistArt_call artist album sz) = Artist_art_call artist album sz"
| "on_bus (GetThumbnail_call filename sz) = Thumbnail_call filename sz"

fun reply_of :: "bus_reply \<Rightarrow> string + string" where
  "reply_of (Reply bytes) = Inr bytes"
| "reply_of (Error_reply name msg) = Inl msg"

datatype system_event =
    App_request nat app_call
  | Client_turn api_event
  | Call_arrives nat
  | Service_turn service_event
  | Reply_arrives nat
  | Bus_error nat string

definition client_next :: "'i client \<Rightarrow> ('i, 'w) system \<Rightarrow> ('i, 'w) system" where
  "client_next c s = s\<lparr>sy_client := c, sy_bus := sy_bus s @ newly_sent (sy_client s) c\<rparr>"

text \<open>An answer for a request that is no longer there, or no longer waiting, is dropped with its watcher.\<close>

definition deliver_reply :: "(string \<Rightarrow> 'i option) \<Rightarrow> nat \<Rightarrow> string + string \<Rightarrow> ('i, 'w) system \<Rightarrow> ('i, 'w) system result" where
  "deliver_reply fromData i reply s =
     (let s1 = s\<lparr>sy_answered := insert i (sy_answered s)\<rparr>
      in case get_req i (sy_client s) of
           None \<Rightarrow> Inr s1
         | Some r \<Rightarrow>
             if ri_watcher r
             then case api_step fromData (Library (Reply_received i reply)) (sy_client s) of
                    (Inl e, _) \<Rightarrow> Inl e
                  | (Inr _, c) \<Rightarrow> Inr (client_next c s1)
             else Inr s1)"

fun sys_handle :: "('p, 'l, 'w, 'i) deployment \<Rightarrow> int \<Rightarrow> system_event \<Rightarrow> ('i, 'w) system \<Rightarrow> ('i, 'w) system result" where
  "sys_handle D now (App_request i a) s =
     (case app_request (dp_canonical D) i a (sy_client s) of
        (Inl e, _) \<Rightarrow> Inl e
      | (Inr m, c) \<Rightarrow> Inr ((client_next c s)\<lparr>sy_calls := (sy_calls s)(i \<mapsto> m)\<rparr>))"
| "sys_handle D now (Client_turn e) s =
     (case api_step (dp_fromData D) e (sy_client s) of (Inl e, _) \<Rightarrow> Inl e | (Inr _, c) \<Rightarrow> Inr (client_next c s))"
| "sys_handle D now (Call_arrives i) s =
     (case sy_calls s i of
        None \<Rightarrow> Inl (Null_deref ''call'')
      | Some m \<Rightarrow>
          rbind (handle (dp_env D) (dp_key D) now (Method_call i (dp_name D) (on_bus m)) (sy_service s)) (\<lambda>db.
          Inr (s\<lparr>sy_service := db, sy_bus := removeAll i (sy_bus s)\<rparr>)))"
| "sys_handle D now (Service_turn ev) s =
     rbind (handle (dp_env D) (dp_key D) now ev (sy_service s)) (\<lambda>db. Inr (s\<lparr>sy_service := db\<rparr>))"
| "sys_handle D now (Reply_arrives i) s =
     (case replies_to i (world (sy_service s)) of
        [] \<Rightarrow> Inl (Null_deref ''reply'')
      | rep # _ \<Rightarrow> deliver_reply (dp_fromData D) i (reply_of rep) s)"
| "sys_handle D now (Bus_error i err) s = deliver_reply (dp_fromData D) i (Inl err) s"

text \<open>
  When an event can occur. A new request gets a number nobody used, whose key is the key of the call; other peers' calls
  have other numbers. The client's own turns are what is queued in its event loop and what the application does to its
  requests.
\<close>

definition numbered :: "('p, 'l, 'w, 'i) deployment \<Rightarrow> 'w thumbnailer \<Rightarrow> nat \<Rightarrow> dbus_call \<Rightarrow> bool" where
  "numbered D t i m =
     (case dispatch (dp_env D) t (on_bus m) of New_handler l r details \<Rightarrow> key r = dp_key D i | Call_error _ _ _ \<Rightarrow> True)"

fun own_turn :: "api_event \<Rightarrow> bool" where
  "own_turn (Library (New_request i details sz)) \<longleftrightarrow> False"
| "own_turn (Library (Reply_received i reply)) \<longleftrightarrow> False"
| "own_turn (Library (Wait_call i reply)) \<longleftrightarrow> False"
| "own_turn _ \<longleftrightarrow> True"

fun others_call :: "(nat \<rightharpoonup> dbus_call) \<Rightarrow> service_event \<Rightarrow> bool" where
  "others_call calls (Method_call i peer m) \<longleftrightarrow> calls i = None"
| "others_call calls _ \<longleftrightarrow> True"

fun sys_due :: "('p, 'l, 'w, 'i) deployment \<Rightarrow> system_event \<Rightarrow> ('i, 'w) system \<Rightarrow> bool" where
  "sys_due D (App_request i a) s \<longleftrightarrow>
     sy_calls s i = None \<and> i \<notin> called (world (sy_service s)) \<and>
     numbered D (sv_tn (world (sy_service s))) i (call_of (dp_canonical D) a)"
| "sys_due D (Client_turn e) s \<longleftrightarrow> own_turn e \<and> api_possible e (sy_client s)"
| "sys_due D (Call_arrives i) s \<longleftrightarrow> i \<in> set (sy_bus s)"
| "sys_due D (Service_turn ev) s \<longleftrightarrow> others_call (sy_calls s) ev \<and> due (dp_env D) (dp_key D) ev (sy_service s)"
| "sys_due D (Reply_arrives i) s \<longleftrightarrow>
     sy_calls s i \<noteq> None \<and> replies_to i (world (sy_service s)) \<noteq> [] \<and> i \<notin> sy_answered s"
| "sys_due D (Bus_error i err) s \<longleftrightarrow> i \<in> awaiting (sy_client s)"

inductive sys_step :: "('p, 'l, 'w, 'i) deployment \<Rightarrow> system_event \<Rightarrow> ('i, 'w) system \<Rightarrow> ('i, 'w) system \<Rightarrow> bool" for D where
  Sys_step: "sys_due D ev s \<Longrightarrow> sys_handle D now ev s = Inr s' \<Longrightarrow> sys_step D ev s s'"

inductive_cases sys_stepE: "sys_step D ev s s'"

definition new_system :: "'i client \<Rightarrow> 'w service dbus \<Rightarrow> ('i, 'w) system" where
  "new_system c db = \<lparr>sy_client = c, sy_service = db, sy_calls = Map.empty, sy_bus = [], sy_answered = {}\<rparr>"

inductive sys_reaches :: "('p, 'l, 'w, 'i) deployment \<Rightarrow> ('i, 'w) system \<Rightarrow> ('i, 'w) system \<Rightarrow> bool" for D s0 where
  Sys_start: "sys_reaches D s0 s0"
| Sys_next: "sys_reaches D s0 s \<Longrightarrow> sys_step D ev s s' \<Longrightarrow> sys_reaches D s0 s'"

section \<open>Invariant\<close>

text \<open>The key of a call does not depend on the state of the service.\<close>

lemma dispatch_key:
  "(case dispatch E t m of New_handler l r details \<Rightarrow> P (key r) | Call_error _ _ _ \<Rightarrow> True) =
   (case dispatch E t' m of New_handler l r details \<Rightarrow> P (key r) | Call_error _ _ _ \<Rightarrow> True)"
  by (cases m) (auto simp: GetAlbumArt_def GetArtistArt_def GetThumbnail_def get_album_art_def get_artist_art_def get_thumbnail_def
      new_album_request_def new_artist_request_def RequestBase_def new_local_request_def rbind_def Let_def split: sum.splits)

lemma numbered_any: "numbered D t i m \<Longrightarrow> numbered D t' i m"
  unfolding numbered_def by (subst dispatch_key [where t = t' and t' = t])

text \<open>A request succeeded only with the service's reply to its call.\<close>

definition shows_reply :: "(string \<Rightarrow> 'i option) \<Rightarrow> 'w service dbus \<Rightarrow> nat \<Rightarrow> 'i option \<Rightarrow> bool" where
  "shows_reply fromData db i im \<longleftrightarrow>
     (\<exists>bytes. replies_to i (world db) = [Reply bytes] \<and> im = fromData bytes)"

definition client_side :: "('i, 'w) system \<Rightarrow> bool" where
  "client_side s \<longleftrightarrow> api_inv (sy_client s) \<and> full_ok (cl_limiter (sy_client s)) \<and> alive_reqs (sy_client s) \<subseteq> dom (sy_calls s)"

definition service_side :: "('p, 'l, 'w, 'i) deployment \<Rightarrow> 'w service dbus \<Rightarrow> bool" where
  "service_side D db \<longleftrightarrow> svc_inv (dp_key D) {} {} db \<and> links_known db \<and> sv_abort (world db) = None"

text \<open>The calls that were sent: those on the bus and those the service has seen.\<close>

definition sent_calls :: "('i, 'w) system \<Rightarrow> nat set" where
  "sent_calls s = set (sy_bus s) \<union> called (world (sy_service s))"

definition bus_side :: "('p, 'l, 'w, 'i) deployment \<Rightarrow> ('i, 'w) system \<Rightarrow> bool" where
  "bus_side D s \<longleftrightarrow>
     distinct (sy_bus s) \<and> set (sy_bus s) \<inter> called (world (sy_service s)) = {} \<and> set (sy_bus s) \<subseteq> dom (sy_calls s) \<and>
     awaiting (sy_client s) \<subseteq> sent_calls s - sy_answered s \<and> waiting_reqs (sy_client s) \<inter> sent_calls s = {} \<and>
     sy_answered s \<subseteq> sent_calls s \<and>
     (\<forall>i m t. sy_calls s i = Some m \<longrightarrow> numbered D t i m)"

definition replies_side :: "('p, 'l, 'w, 'i) deployment \<Rightarrow> ('i, 'w) system \<Rightarrow> bool" where
  "replies_side D s \<longleftrightarrow>
     (\<forall>i fin im. results (sy_client s) i = Some (fin, True, im) \<longrightarrow> shows_reply (dp_fromData D) (sy_service s) i im)"

definition sys_inv :: "('p, 'l, 'w, 'i) deployment \<Rightarrow> ('i, 'w) system \<Rightarrow> bool" where
  "sys_inv D s \<longleftrightarrow> client_side s \<and> service_side D (sy_service s) \<and> bus_side D s \<and> replies_side D s"

lemmas sys_inv_defs = sys_inv_def client_side_def service_side_def bus_side_def replies_side_def

subsection \<open>The service\<close>

fun called_by :: "service_event \<Rightarrow> nat set" where
  "called_by (Method_call i peer m) = {i}"
| "called_by _ = {}"

lemma service_called:
  assumes "service_step E hkey ev db db'"
  shows "called (world db') = called (world db) \<union> called_by ev"
proof (cases ev)
  case (Method_call i peer m)
  with assms service_step_call(1) [of E hkey i peer m db db'] show ?thesis by simp
qed (use service_step_same [OF assms] in simp_all)

lemma replied_iff:
  assumes "service_side D db"
  shows "replies_to i (world db) \<noteq> [] \<longleftrightarrow> i \<in> called (world db) - set (requests db)"
  using replies_exactly [of "dp_key D" db i] assms by (auto simp: service_side_def split: if_splits)

lemma service_side_step:
  assumes side: "service_side D db" and safe: "downloads_safe (dp_env D)"
    and st: "due (dp_env D) (dp_key D) ev db" "handle (dp_env D) (dp_key D) now ev db = Inr db'"
  shows "service_side D db'" "shows_reply fromData db i im \<Longrightarrow> shows_reply fromData db' i im"
    "called (world db') = called (world db) \<union> called_by ev" "\<not> is_call ev \<Longrightarrow> load db' < load db"
proof -
  have inv: "svc_inv (dp_key D) {} {} db" "links_known db" "sv_abort (world db) = None" using side by (simp_all add: service_side_def)
  have step: "service_step (dp_env D) (dp_key D) ev db db'" using st by (rule service_step.intros)
  show "service_side D db'" "\<not> is_call ev \<Longrightarrow> load db' < load db"
    using service_step_inv [OF step inv(1) safe] links_known_step [OF step inv(1,2)] handle_uncaught [OF st inv(3) safe]
    by (simp_all add: service_side_def)
  show "called (world db') = called (world db) \<union> called_by ev" by (rule service_called [OF step])
  assume "shows_reply fromData db i im"
  moreover from this have "i \<in> called (world db) - set (requests db)" using replied_iff [OF side, of i] by (auto simp: shows_reply_def)
  ultimately show "shows_reply fromData db' i im"
    using reply_final [OF step inv(1) safe, of i] by (simp add: shows_reply_def)
qed

subsection \<open>The client\<close>

lemma results_Some: "get_req i c = Some r \<Longrightarrow> results c i = Some (ri_finished r, ri_is_valid r, ri_image r)"
  by (simp add: results_def)

lemma alive_results: "alive_reqs c = dom (results c)"
  by (auto simp: alive_reqs_def results_def)

lemma waiting_alive: "api_inv c \<Longrightarrow> waiting_reqs c \<subseteq> alive_reqs c"
  by (auto simp: api_inv_def alive_reqs_def elim!: waiting_reqsD)

lemma app_request_creates:
  assumes "app_request canonical i a c = (Inr m, c')"
  shows "m = call_of canonical a \<and> (\<exists>details sz. api_step fromData (Library (New_request i details sz)) c = (Inr (), c'))"
  using assms by (cases a) (auto simp: Thumbnailer_getAlbumArt_def Thumbnailer_getArtistArt_def Thumbnailer_getThumbnail_def
      getAlbumArt_def getArtistArt_def getThumbnail_def act_bind_Inr_iff)

lemma bus_side_client:
  assumes cs: "client_side s" and bs: "bus_side D s"
    and p: "api_possible e (sy_client s)" "nonblocking e" "api_step fromData e (sy_client s) = (Inr (), c')"
    and s': "s' = (client_next c' s)\<lparr>sy_calls := calls, sy_answered := ans\<rparr>"
    and calls: "sy_calls s \<subseteq>\<^sub>m calls" "set (comes_in (library_event e)) \<subseteq> dom calls - sent_calls s" "\<And>i m t. calls i = Some m \<Longrightarrow> numbered D t i m"
    and ans: "ans \<subseteq> sy_answered s \<union> taken_out (library_event e)" "ans \<subseteq> sent_calls s"
  shows "bus_side D s'"
proof -
  let ?js = "newly_sent (sy_client s) c'"
  have inv: "api_inv (sy_client s)" "full_ok (cl_limiter (sy_client s))" using cs by (simp_all add: client_side_def)
  note st = api_step_sends [OF inv(1) p(1,3,2) inv(2)]
  have "waiting_reqs (sy_client s) \<subseteq> dom calls"
    using waiting_alive [OF inv(1)] cs map_le_implies_dom_le [OF calls(1)] unfolding client_side_def by blast
  then have js: "set ?js \<subseteq> dom calls" "set ?js \<inter> sent_calls s = {}"
    using st(3) calls(2) bs unfolding bus_side_def by blast+
  have s'_simps: "sy_client s' = c'" "sy_service s' = sy_service s" "sy_bus s' = sy_bus s @ ?js" "sy_calls s' = calls" "sy_answered s' = ans"
    and sent: "sent_calls s' = sent_calls s \<union> set ?js"
    by (auto simp: s' client_next_def sent_calls_def)
  have "distinct (sy_bus s')" "set (sy_bus s') \<inter> called (world (sy_service s')) = {}" "set (sy_bus s') \<subseteq> dom (sy_calls s')"
    using bs st(2) js map_le_implies_dom_le [OF calls(1)] unfolding s'_simps bus_side_def sent_calls_def
    by (simp_all add: Int_Un_distrib Int_Un_distrib2) blast+
  moreover have "awaiting (sy_client s') \<subseteq> sent_calls s' - sy_answered s'"
    using bs st(5) js(2) ans unfolding s'_simps sent bus_side_def by blast
  moreover have "waiting_reqs (sy_client s') \<inter> sent_calls s' = {}"
    using bs st(4) calls(2) unfolding s'_simps sent bus_side_def by blast
  moreover have "sy_answered s' \<subseteq> sent_calls s'" using ans(2) by (auto simp: s'_simps sent)
  ultimately show ?thesis using calls(3) by (simp add: bus_side_def s'_simps(4))
qed

lemma client_side_step:
  assumes cs: "client_side s"
    and p: "api_possible e (sy_client s)" "nonblocking e" "api_step fromData e (sy_client s) = (Inr (), c')"
    and s': "sy_client s' = c'" "alive_reqs c' \<subseteq> dom (sy_calls s')"
  shows "client_side s'"
proof -
  have inv: "api_inv (sy_client s)" "full_ok (cl_limiter (sy_client s))" using cs by (simp_all add: client_side_def)
  have "api_inv c'" using api_step_refines [OF inv(1) p(1), of fromData] p(3) by force
  with api_step_sends(1) [OF inv(1) p(1,3,2) inv(2)] s' show ?thesis by (simp add: client_side_def)
qed

lemma succeeded_from:
  assumes "results_step fromData e c c'" and "results c' i = Some (fin, True, im)"
  shows "(\<exists>fin. results c i = Some (fin, True, im)) \<or> (\<exists>bytes. e = Library (Reply_received i (Inr bytes)) \<and> im = fromData bytes)"
  using assms by (auto simp: results_step_def reply_outcome_def split: api_event.splits client_event.splits if_splits sum.splits)

lemma alive_step:
  assumes "results_step fromData e c c'"
  shows "alive_reqs c' \<subseteq> alive_reqs c \<union> {i. \<exists>details sz. e = Library (New_request i details sz)}"
  using assms by (auto simp: results_step_def alive_results dest!: results_Some split: api_event.splits client_event.splits if_splits)

subsection \<open>All events\<close>

lemma sys_inv_client:
  assumes inv: "sys_inv D s"
    and p: "api_possible e (sy_client s)" "nonblocking e" "api_step (dp_fromData D) e (sy_client s) = (Inr (), c')"
    and s': "s' = (client_next c' s)\<lparr>sy_calls := calls, sy_answered := ans\<rparr>"
    and calls: "sy_calls s \<subseteq>\<^sub>m calls" "set (comes_in (library_event e)) \<subseteq> dom calls - sent_calls s" "\<And>i m t. calls i = Some m \<Longrightarrow> numbered D t i m"
    and new: "\<And>i details sz. e = Library (New_request i details sz) \<Longrightarrow> i \<in> dom calls"
    and ans: "ans \<subseteq> sy_answered s \<union> taken_out (library_event e)" "ans \<subseteq> sent_calls s"
    and reply: "\<And>i bytes. e = Library (Reply_received i (Inr bytes)) \<Longrightarrow> replies_to i (world (sy_service s)) = [Reply bytes]"
  shows "sys_inv D s'"
proof -
  have sides: "client_side s" "bus_side D s" "api_inv (sy_client s)" using inv by (simp_all add: sys_inv_def client_side_def)
  note res = api_step_results [OF sides(3) p(1,3,2)]
  have "alive_reqs c' \<subseteq> dom calls"
    using alive_step [OF res] new sides(1) map_le_implies_dom_le [OF calls(1)] unfolding client_side_def by blast
  with client_side_step [OF sides(1) p, of s'] s' have "client_side s'" by (simp add: client_next_def)
  moreover have "bus_side D s'" by (rule bus_side_client [OF sides(1,2) p s' calls ans])
  moreover have "sy_service s' = sy_service s" "sy_client s' = c'" using s' by (simp_all add: client_next_def)
  moreover have "shows_reply (dp_fromData D) (sy_service s) i im" if "results c' i = Some (fin, True, im)" for i fin im
    using succeeded_from [OF res that] reply inv by (auto simp: sys_inv_def replies_side_def shows_reply_def)
  ultimately show ?thesis using inv by (simp add: sys_inv_def replies_side_def)
qed

lemma deliver_reply_cases:
  assumes "deliver_reply fromData i reply s = Inr s'"
  obtains (dropped) "i \<notin> awaiting (sy_client s)" "s' = s\<lparr>sy_answered := insert i (sy_answered s)\<rparr>"
  | (received) c' where "i \<in> awaiting (sy_client s)" "api_step fromData (Library (Reply_received i reply)) (sy_client s) = (Inr (), c')"
      "s' = (client_next c' s)\<lparr>sy_calls := sy_calls s, sy_answered := insert i (sy_answered s)\<rparr>"
proof (cases "i \<in> awaiting (sy_client s)")
  case True
  then obtain r where "get_req i (sy_client s) = Some r" "ri_watcher r" by (auto simp: awaiting_def)
  with assms True received show thesis
    by (auto simp: deliver_reply_def Let_def client_next_def split: prod.splits sum.splits)
next
  case False
  then have "s' = s\<lparr>sy_answered := insert i (sy_answered s)\<rparr>"
    using assms by (auto simp: deliver_reply_def Let_def awaiting_def split: option.splits)
  with False dropped show thesis by blast
qed

lemma deliver_reply_inv:
  assumes inv: "sys_inv D s" and i: "i \<in> sent_calls s" and d: "deliver_reply (dp_fromData D) i reply s = Inr s'"
    and reply: "\<And>bytes. reply = Inr bytes \<Longrightarrow> replies_to i (world (sy_service s)) = [Reply bytes]"
  shows "sys_inv D s'"
  using d
proof (cases rule: deliver_reply_cases)
  case dropped
  then have "sent_calls s' = sent_calls s" by (simp add: sent_calls_def)
  with dropped inv i show ?thesis by (auto simp: sys_inv_defs)
next
  case (received c')
  have p: "api_possible (Library (Reply_received i reply)) (sy_client s)" using received(1) by (auto simp: awaiting_def)
  have b: "bus_side D s" using inv by (simp add: sys_inv_def)
  show ?thesis
    by (rule sys_inv_client [OF inv p _ received(2,3)]) (use b i reply in \<open>auto simp: bus_side_def\<close>)
qed

lemma call_arrives_due:
  assumes inv: "sys_inv D s" and i: "i \<in> set (sy_bus s)"
  obtains m where "sy_calls s i = Some m" "due (dp_env D) (dp_key D) (Method_call i (dp_name D) (on_bus m)) (sy_service s)"
proof -
  have b: "bus_side D s" and side: "service_side D (sy_service s)" using inv by (simp_all add: sys_inv_def)
  have "i \<in> dom (sy_calls s)" and un: "i \<notin> called (world (sy_service s))" using b i unfolding bus_side_def by blast+
  then obtain m where m: "sy_calls s i = Some m" by blast
  with b have "numbered D t i m" for t by (simp add: bus_side_def)
  with m un unused_number [of "dp_key D" "sy_service s" i] side that show thesis
    by (simp add: service_side_def numbered_def)
qed

lemma sys_inv_service:
  assumes inv: "sys_inv D s" and safe: "downloads_safe (dp_env D)"
    and st: "due (dp_env D) (dp_key D) ev (sy_service s)" "handle (dp_env D) (dp_key D) now ev (sy_service s) = Inr db"
    and s': "s' = s\<lparr>sy_service := db, sy_bus := bus\<rparr>"
    and bus: "bus = filter (\<lambda>i. i \<notin> called_by ev) (sy_bus s)" and ev: "called_by ev \<inter> dom (sy_calls s) \<subseteq> set (sy_bus s)"
  shows "sys_inv D s'"
proof -
  have sides: "client_side s" "bus_side D s" "service_side D (sy_service s)" using inv by (simp_all add: sys_inv_def)
  note sv = service_side_step [OF sides(3) safe st]
  have sent: "sent_calls s' = sent_calls s \<union> called_by ev" by (auto simp: sent_calls_def s' bus sv(3))
  have "waiting_reqs (sy_client s) \<subseteq> dom (sy_calls s)"
    using sides(1) waiting_alive [of "sy_client s"] unfolding client_side_def by blast
  moreover have "waiting_reqs (sy_client s) \<inter> sent_calls s = {}" "set (sy_bus s) \<subseteq> sent_calls s"
    using sides(2) by (auto simp: bus_side_def sent_calls_def)
  ultimately have w: "waiting_reqs (sy_client s) \<inter> sent_calls s' = {}" using ev sent by blast
  have fields: "sy_client s' = sy_client s" "sy_calls s' = sy_calls s" "sy_answered s' = sy_answered s" "sy_service s' = db" "sy_bus s' = bus"
    by (simp_all add: s')
  have "distinct (sy_bus s')" "set (sy_bus s') \<inter> called (world (sy_service s')) = {}" "set (sy_bus s') \<subseteq> dom (sy_calls s')"
    using sides(2) by (auto simp: bus_side_def fields bus sv(3))
  moreover have "awaiting (sy_client s') \<subseteq> sent_calls s' - sy_answered s'" "sy_answered s' \<subseteq> sent_calls s'"
    using sides(2) unfolding bus_side_def fields sent by blast+
  ultimately have "bus_side D s'" using w sides(2) unfolding bus_side_def fields by blast
  moreover have "replies_side D s'" using inv sv(2) unfolding sys_inv_def replies_side_def fields by blast
  moreover have "client_side s'" using sides(1) by (simp add: client_side_def fields)
  ultimately show ?thesis using sv(1) by (simp add: sys_inv_def fields)
qed

lemma sys_step_inv:
  assumes inv: "sys_inv D s" and safe: "downloads_safe (dp_env D)" and st: "sys_step D ev s s'"
  shows "sys_inv D s'"
proof -
  from st obtain now where d: "sys_due D ev s" and h: "sys_handle D now ev s = Inr s'" by (rule sys_stepE)
  have b: "bus_side D s" and side: "service_side D (sy_service s)" and cs: "client_side s" using inv by (simp_all add: sys_inv_def)
  show ?thesis
  proof (cases ev)
    case (App_request i a)
    with h obtain m c' where m: "app_request (dp_canonical D) i a (sy_client s) = (Inr m, c')"
        and s': "s' = (client_next c' s)\<lparr>sy_calls := (sy_calls s)(i \<mapsto> m)\<rparr>"
      by (auto split: prod.splits sum.splits)
    from app_request_creates [OF m, of "dp_fromData D"] obtain details sz where
      c': "api_step (dp_fromData D) (Library (New_request i details sz)) (sy_client s) = (Inr (), c')" and mm: "m = call_of (dp_canonical D) a"
      by blast
    have i: "i \<notin> dom (sy_calls s)" "i \<notin> called (world (sy_service s))" "numbered D t i m" for t
      using d App_request mm numbered_any [of D "sv_tn (world (sy_service s))" i m t] by auto
    then have "i \<notin> sent_calls s" using b unfolding bus_side_def sent_calls_def by blast
    moreover have "i \<notin> alive_reqs (sy_client s)" using i(1) cs unfolding client_side_def by blast
    then have "api_possible (Library (New_request i details sz)) (sy_client s)" by (simp add: alive_reqs_def)
    moreover have "s' = (client_next c' s)\<lparr>sy_calls := (sy_calls s)(i \<mapsto> m), sy_answered := sy_answered s\<rparr>" by (simp add: s' client_next_def)
    moreover have "sy_calls s \<subseteq>\<^sub>m (sy_calls s)(i \<mapsto> m)" using i(1) by (simp add: map_le_def)
    moreover have "sy_answered s \<subseteq> sent_calls s" using b by (simp add: bus_side_def)
    ultimately show ?thesis
      using b i(3) by (intro sys_inv_client [OF inv _ _ c', of s']) (auto simp: bus_side_def split: if_splits)
  next
    case (Client_turn e)
    with h obtain c' where c': "api_step (dp_fromData D) e (sy_client s) = (Inr (), c')" and s': "s' = client_next c' s"
      by (auto split: prod.splits sum.splits)
    have e: "api_possible e (sy_client s)" "own_turn e" using d Client_turn by simp_all
    have "nonblocking e" "comes_in (library_event e) = []" "\<And>i details sz. e \<noteq> Library (New_request i details sz)"
      "\<And>i r. e \<noteq> Library (Reply_received i r)" using e(2) by (cases e rule: own_turn.cases; simp)+
    moreover have "s' = (client_next c' s)\<lparr>sy_calls := sy_calls s, sy_answered := sy_answered s\<rparr>" by (simp add: s' client_next_def)
    ultimately show ?thesis
      using b by (intro sys_inv_client [OF inv e(1) _ c', of s' "sy_answered s" "sy_calls s"]) (auto simp: bus_side_def)
  next
    case (Call_arrives i)
    with d have i: "i \<in> set (sy_bus s)" by simp
    from call_arrives_due [OF inv i] obtain m where m: "sy_calls s i = Some m"
      "due (dp_env D) (dp_key D) (Method_call i (dp_name D) (on_bus m)) (sy_service s)" .
    with h Call_arrives obtain db where db: "handle (dp_env D) (dp_key D) now (Method_call i (dp_name D) (on_bus m)) (sy_service s) = Inr db"
        and s': "s' = s\<lparr>sy_service := db, sy_bus := removeAll i (sy_bus s)\<rparr>"
      by (auto simp: rbind_Inr_iff)
    show ?thesis
      by (rule sys_inv_service [OF inv safe m(2) db s']) (use i in \<open>auto simp: removeAll_filter_not_eq eq_commute\<close>)
  next
    case (Service_turn e)
    with h obtain db where db: "handle (dp_env D) (dp_key D) now e (sy_service s) = Inr db" and s': "s' = s\<lparr>sy_service := db\<rparr>"
      by (auto simp: rbind_Inr_iff)
    have e: "others_call (sy_calls s) e" "due (dp_env D) (dp_key D) e (sy_service s)" using d Service_turn by simp_all
    then have o: "called_by e \<inter> dom (sy_calls s) = {}" by (cases e) auto
    with b have "called_by e \<inter> set (sy_bus s) = {}" unfolding bus_side_def by blast
    then have "filter (\<lambda>i. i \<notin> called_by e) (sy_bus s) = sy_bus s" by (auto simp: filter_id_conv)
    with sys_inv_service [OF inv safe e(2) db, of s' "sy_bus s"] s' o show ?thesis by simp
  next
    case (Reply_arrives i)
    with d h obtain rep reps where rep: "replies_to i (world (sy_service s)) = rep # reps"
        and h': "deliver_reply (dp_fromData D) i (reply_of rep) s = Inr s'" by (auto split: list.splits)
    then have "i \<in> called (world (sy_service s)) - set (requests (sy_service s))" using replied_iff [OF side, of i] by simp
    then have "i \<in> sent_calls s" "length (replies_to i (world (sy_service s))) = 1"
      using replies_exactly [of "dp_key D" "sy_service s" i] side by (auto simp: sent_calls_def service_side_def)
    moreover have "rep = Reply bytes" if "reply_of rep = Inr bytes" for bytes using that by (cases rep) auto
    ultimately show ?thesis using rep by (intro deliver_reply_inv [OF inv _ h']) auto
  next
    case (Bus_error i err)
    with d have "i \<in> awaiting (sy_client s)" by simp
    with b have "i \<in> sent_calls s" unfolding bus_side_def by blast
    from deliver_reply_inv [OF inv this, of "Inl err" s'] h Bus_error show ?thesis by simp
  qed
qed

lemma new_system_inv:
  assumes "ThumbnailerImpl max_backlog_default config = Inr c0"
    and "DBusInterface arm hw env S = Inr c" and "InactivityHandler idle = Inr a"
  shows "sys_inv D (new_system c0 (new_service t c aa a))"
proof -
  have c0: "api_inv c0" by (rule api_run_inv [OF api_run.Api_start assms(1)])
  have e: "cl_reqs c0 = []" "queue (cl_limiter c0) = []" using assms(1)
    by (auto simp: ThumbnailerImpl_def RateLimiter_def rbind_Inr_iff)
  then have "alive_reqs c0 = {}" "awaiting c0 = {}" "waiting_reqs c0 = {}" "results c0 = Map.empty" "full_ok (cl_limiter c0)"
    by (auto simp: alive_reqs_def awaiting_def waiting_reqs_def results_def get_req_def full_ok_def)
  moreover have "called (world (new_service t c aa a)) = {}" "links (new_service t c aa a) = []" "sv_abort (world (new_service t c aa a)) = None"
    by (simp_all add: called_def new_service_def no_requests_def)
  ultimately show ?thesis
    using c0 new_service_inv [OF assms(2,3), of "dp_key D" t aa] by (simp add: sys_inv_defs new_system_def sent_calls_def links_known_def)
qed

lemma sys_reaches_inv:
  assumes "sys_reaches D s0 s" and "sys_inv D s0" and "downloads_safe (dp_env D)"
  shows "sys_inv D s"
  using assms by (induction rule: sys_reaches.induct) (auto intro: sys_step_inv)

section \<open>Progress\<close>

text \<open>Events that the application or another peer causes, and answers the bus makes up. All others follow from requests already made.\<close>

fun from_outside :: "system_event \<Rightarrow> bool" where
  "from_outside (App_request i a) \<longleftrightarrow> True"
| "from_outside (Client_turn (Library (Cancel_call i))) \<longleftrightarrow> True"
| "from_outside (Client_turn (Library (Destroy_call i))) \<longleftrightarrow> True"
| "from_outside (Service_turn ev) \<longleftrightarrow> is_call ev"
| "from_outside _ \<longleftrightarrow> False"

fun bus_fails :: "system_event \<Rightarrow> bool" where
  "bus_fails (Bus_error i err) \<longleftrightarrow> True"
| "bus_fails _ \<longleftrightarrow> False"

text \<open>What is left to do: requests to finish, to send, slots to free, calls to receive, to serve, replies and signals to deliver.\<close>

definition unfinished :: "'i client \<Rightarrow> nat set" where
  "unfinished c = {i. \<exists>v im. results c i = Some (False, v, im)}"

definition undelivered :: "('i, 'w) system \<Rightarrow> nat set" where
  "undelivered s = called (world (sy_service s)) - sy_answered s"

definition rank :: "('i, 'w) system \<Rightarrow> nat \<times> nat \<times> nat \<times> nat \<times> nat \<times> nat \<times> nat" where
  "rank s =
     (card (unfinished (sy_client s)), length (live (queue (cl_limiter (sy_client s)))), cl_pumps (sy_client s),
      length (sy_bus s), load (sy_service s), card (undelivered s), length (cl_finished_calls (sy_client s)))"

definition rank_rel :: "((nat \<times> nat \<times> nat \<times> nat \<times> nat \<times> nat \<times> nat) \<times> (nat \<times> nat \<times> nat \<times> nat \<times> nat \<times> nat \<times> nat)) set" where
  "rank_rel = less_than <*lex*> less_than <*lex*> less_than <*lex*> less_than <*lex*> less_than <*lex*> less_than <*lex*> less_than"

lemma wf_rank_rel: "wf rank_rel"
  by (simp add: rank_rel_def wf_lex_prod)

lemma finite_unfinished: "finite (unfinished c)"
proof (rule finite_subset)
  show "unfinished c \<subseteq> fst ` set (cl_reqs c)"
    by (auto simp: unfinished_def results_def get_req_def dest!: map_of_SomeD intro: rev_image_eqI)
qed simp

lemma finish_one:
  assumes "get_req i c = Some r" "\<not> ri_finished r" and "results c' = (results c)(i \<mapsto> (True, v, im))"
  shows "card (unfinished c') < card (unfinished c)"
proof -
  have "unfinished c' = unfinished c - {i}" using assms(3) by (auto simp: unfinished_def)
  moreover have "i \<in> unfinished c" using results_Some [OF assms(1)] assms(2) by (simp add: unfinished_def)
  ultimately show ?thesis using card_Diff1_less [OF finite_unfinished] by metis
qed

lemma rank_client_turn:
  assumes inv: "sys_inv D s" and e: "own_turn e" "\<not> from_outside (Client_turn e)" "api_possible e (sy_client s)"
    and c': "api_step (dp_fromData D) e (sy_client s) = (Inr (), c')"
  shows "(rank (client_next c' s), rank s) \<in> rank_rel"
proof -
  let ?c = "sy_client s"
  have ai: "api_inv ?c" and full: "full_ok (cl_limiter ?c)" using inv by (simp_all add: sys_inv_defs)
  have nb: "nonblocking e" using e(1) by (cases e rule: own_turn.cases) simp_all
  note res = api_step_results [OF ai e(3) c' nb] and st = api_step_sends [OF ai e(3) c' nb full]
  show ?thesis
  proof (cases e)
    case (Finished_call i)
    then have "cl_limiter c' = cl_limiter ?c" "cl_pumps c' = cl_pumps ?c" "cl_finished_calls c' = remove1 i (cl_finished_calls ?c)"
      using c' by auto
    moreover have "results c' = results ?c" using res Finished_call by (simp add: results_step_def)
    moreover have "length (remove1 i (cl_finished_calls ?c)) < length (cl_finished_calls ?c)"
      using e(3) Finished_call length_pos_if_in_set [of i "cl_finished_calls ?c"] by (simp add: length_remove1)
    ultimately show ?thesis
      by (simp add: rank_def rank_rel_def client_next_def newly_sent_def undelivered_def unfinished_def)
  next
    case (Library e0)
    with e consider (fake) i where "e0 = Fake_reply i" | (pump) "e0 = Pump_call" by (cases e0) auto
    then show ?thesis
    proof cases
      case (fake i)
      with res Library obtain r where "get_req i ?c = Some r" "\<not> ri_finished r" "results c' = (results ?c)(i \<mapsto> (True, False, None))"
        by (auto simp: results_step_def)
      from finish_one [OF this] show ?thesis by (simp add: rank_def rank_rel_def client_next_def)
    next
      case pump
      have "results c' = results ?c" using res Library pump by (simp add: results_step_def)
      moreover have "cl_pumps c' < cl_pumps ?c"
        using c' e(3) Library pump pump_sends [of "cl_pumps ?c - 1" ?c c'] by auto
      moreover have "length (live (queue (cl_limiter c'))) \<le> length (live (queue (cl_limiter ?c)))" using st(6) Library pump by simp
      ultimately show ?thesis by (auto simp: rank_def rank_rel_def client_next_def unfinished_def)
    qed
  qed
qed

lemma finite_called: "svc_inv hkey {} {} db \<Longrightarrow> finite (called (world db))"
  by (simp add: svc_inv_def pool_inv_def called_def)

lemma rank_deliver:
  assumes inv: "sys_inv D s" and d: "deliver_reply (dp_fromData D) i reply s = Inr s'"
    and i: "i \<in> awaiting (sy_client s) \<or> i \<in> undelivered s"
  shows "(rank s', rank s) \<in> rank_rel"
  using d
proof (cases rule: deliver_reply_cases)
  case dropped
  with i have i: "i \<in> undelivered s" by simp
  have "undelivered s' = undelivered s - {i}" using dropped by (auto simp: undelivered_def)
  moreover have "finite (undelivered s)" using inv finite_called by (auto simp: sys_inv_defs undelivered_def)
  ultimately have "card (undelivered s') < card (undelivered s)" using card_Diff1_less i by metis
  with dropped show ?thesis by (simp add: rank_def rank_rel_def)
next
  case (received c')
  have ai: "api_inv (sy_client s)" using inv by (simp add: sys_inv_defs)
  have p: "api_possible (Library (Reply_received i reply)) (sy_client s)" using received(1) by (auto simp: awaiting_def)
  from api_step_results [OF ai p received(2)] obtain r where r: "get_req i (sy_client s) = Some r" "\<not> ri_finished r"
      "results c' = (results (sy_client s))(i \<mapsto> reply_outcome (dp_fromData D) (ri_cancelled r) reply)"
    by (auto simp: results_step_def)
  moreover obtain v im where "reply_outcome (dp_fromData D) (ri_cancelled r) reply = (True, v, im)"
    by (cases reply; cases "ri_cancelled r") (auto simp: reply_outcome_def)
  ultimately have "card (unfinished c') < card (unfinished (sy_client s))" using finish_one [OF r(1,2)] by metis
  with received(3) show ?thesis by (simp add: rank_def rank_rel_def client_next_def)
qed

lemma sys_step_rank:
  assumes inv: "sys_inv D s" and safe: "downloads_safe (dp_env D)" and st: "sys_step D ev s s'" and int: "\<not> from_outside ev"
  shows "(rank s', rank s) \<in> rank_rel"
proof -
  from st obtain now where d: "sys_due D ev s" and h: "sys_handle D now ev s = Inr s'" by (rule sys_stepE)
  have side: "service_side D (sy_service s)" using inv by (simp add: sys_inv_def)
  show ?thesis
  proof (cases ev)
    case (Client_turn e)
    with h d int rank_client_turn [OF inv, of e] show ?thesis by (auto split: prod.splits sum.splits)
  next
    case (Call_arrives i)
    with h d have "sy_client s' = sy_client s" "sy_bus s' = removeAll i (sy_bus s)" "i \<in> set (sy_bus s)"
      by (auto simp: rbind_Inr_iff split: option.splits)
    then show ?thesis by (simp add: rank_def rank_rel_def length_removeAll_less)
  next
    case (Service_turn e)
    with h obtain db where db: "handle (dp_env D) (dp_key D) now e (sy_service s) = Inr db" and s': "s' = s\<lparr>sy_service := db\<rparr>"
      by (auto simp: rbind_Inr_iff)
    have e: "due (dp_env D) (dp_key D) e (sy_service s)" "\<not> is_call e" using d int Service_turn by simp_all
    from service_side_step(4) [OF side safe e(1) db e(2)] s' show ?thesis by (simp add: rank_def rank_rel_def)
  next
    case (Reply_arrives i)
    with d h obtain rep where "deliver_reply (dp_fromData D) i (reply_of rep) s = Inr s'" by (auto split: list.splits)
    moreover have "i \<in> undelivered s" using d Reply_arrives replied_iff [OF side, of i] by (simp add: undelivered_def)
    ultimately show ?thesis using rank_deliver [OF inv] by blast
  next
    case (Bus_error i err)
    with d h rank_deliver [OF inv, of i "Inl err" s'] show ?thesis by simp
  qed (use int in simp)
qed

text \<open>The only way the system can fail: an event ends the service's process with an assertion, \<open>abort()\<close> or null dereference.\<close>

definition service_dies :: "('p, 'l, 'w, 'i) deployment \<Rightarrow> ('i, 'w) system \<Rightarrow> bool" where
  "service_dies D s \<longleftrightarrow>
     (\<exists>ev now e. due (dp_env D) (dp_key D) ev (sy_service s) \<and> handle (dp_env D) (dp_key D) now ev (sy_service s) = Inl e \<and> \<not> catchable e)"

definition goes_on :: "('p, 'l, 'w, 'i) deployment \<Rightarrow> ('i, 'w) system \<Rightarrow> bool" where
  "goes_on D s \<longleftrightarrow> (\<exists>ev s'. \<not> from_outside ev \<and> \<not> bus_fails ev \<and> sys_step D ev s s')"

lemma goes_onI: "sys_due D ev s \<Longrightarrow> sys_handle D now ev s = Inr s' \<Longrightarrow> \<not> from_outside ev \<Longrightarrow> \<not> bus_fails ev \<Longrightarrow> goes_on D s"
  unfolding goes_on_def by (blast intro: sys_step.intros)

lemma client_goes_on:
  assumes "sys_inv D s" and "api_possible e (sy_client s)" "own_turn e" "\<not> from_outside (Client_turn e)"
  shows "goes_on D s"
proof -
  have "api_inv (sy_client s)" using assms(1) by (simp add: sys_inv_defs)
  from api_step_refines [OF this assms(2), of "dp_fromData D"] obtain c' where "api_step (dp_fromData D) e (sy_client s) = (Inr (), c')" .
  with assms goes_onI [of D "Client_turn e" s] show ?thesis by simp
qed

lemma service_goes_on:
  assumes "sys_inv D s" and safe: "downloads_safe (dp_env D)" and d: "due (dp_env D) (dp_key D) ev (sy_service s)"
    and "\<And>db. handle (dp_env D) (dp_key D) 0 ev (sy_service s) = Inr db \<Longrightarrow> goes_on D s"
  shows "goes_on D s \<or> service_dies D s"
proof -
  have "sv_abort (world (sy_service s)) = None" using assms(1) by (simp add: sys_inv_defs)
  from handle_uncaught [OF d refl this safe, of 0] assms(4) d show ?thesis
    unfolding service_dies_def by (cases "handle (dp_env D) (dp_key D) 0 ev (sy_service s)") auto
qed

lemma awaiting_goes_on:
  assumes inv: "sys_inv D s" and safe: "downloads_safe (dp_env D)" and i: "i \<in> awaiting (sy_client s)"
  shows "goes_on D s \<or> service_dies D s"
proof -
  have b: "bus_side D s" and side: "service_side D (sy_service s)" using inv by (simp_all add: sys_inv_def)
  have i': "i \<in> sent_calls s" "i \<notin> sy_answered s" using b i unfolding bus_side_def by blast+
  have svc: "svc_inv (dp_key D) {} {} (sy_service s)" using side by (simp add: service_side_def)
  consider "i \<in> set (sy_bus s)" | "i \<in> set (requests (sy_service s))" | "i \<in> called (world (sy_service s)) - set (requests (sy_service s))"
    using i'(1) by (auto simp: sent_calls_def)
  then show ?thesis
  proof cases
    case 1
    from call_arrives_due [OF inv 1] obtain m where m: "sy_calls s i = Some m"
      "due (dp_env D) (dp_key D) (Method_call i (dp_name D) (on_bus m)) (sy_service s)" .
    show ?thesis
      by (rule service_goes_on [OF inv safe m(2)], rule goes_onI [of D "Call_arrives i" s 0]) (use 1 m in simp_all)
  next
    case 2
    then have "requests (sy_service s) \<noteq> []" by auto
    from request_due [OF svc this] obtain ev where ev: "\<not> is_call ev" "due (dp_env D) (dp_key D) ev (sy_service s)" by blast
    then have "others_call (sy_calls s) ev" by (cases ev) simp_all
    with ev show ?thesis
      by (intro service_goes_on [OF inv safe ev(2)] goes_onI [of D "Service_turn ev" s 0]) simp_all
  next
    case 3
    have "i \<in> alive_reqs (sy_client s)" using i by (auto simp: awaiting_def alive_reqs_def)
    then have k: "sy_calls s i \<noteq> None" using inv unfolding sys_inv_def client_side_def by blast
    obtain rep reps where rep: "replies_to i (world (sy_service s)) = rep # reps"
      using replied_iff [OF side, of i] 3 by (cases "replies_to i (world (sy_service s))") auto
    have p: "api_possible (Library (Reply_received i (reply_of rep))) (sy_client s)" using i by (auto simp: awaiting_def)
    have "api_inv (sy_client s)" using inv by (simp add: sys_inv_defs)
    from api_step_refines [OF this p, of "dp_fromData D"] obtain c' where
      "api_step (dp_fromData D) (Library (Reply_received i (reply_of rep))) (sy_client s) = (Inr (), c')" .
    moreover obtain r where "get_req i (sy_client s) = Some r" "ri_watcher r" using i by (auto simp: awaiting_def)
    ultimately have "\<exists>s'. deliver_reply (dp_fromData D) i (reply_of rep) s = Inr s'" by (simp add: deliver_reply_def Let_def)
    then obtain s' where "sys_handle D 0 (Reply_arrives i) s = Inr s'" using rep by auto
    then show ?thesis using rep k i'(2) goes_onI [of D "Reply_arrives i" s 0 s'] by simp
  qed
qed

lemma unfinished_goes_on:
  assumes inv: "sys_inv D s" and safe: "downloads_safe (dp_env D)" and r: "get_req i (sy_client s) = Some r" "\<not> ri_finished r"
  shows "goes_on D s \<or> service_dies D s"
proof -
  let ?c = "sy_client s"
  have ci: "client_inv {} 0 ?c" and full: "full_ok (cl_limiter ?c)" using inv by (simp_all add: sys_inv_defs api_inv_def)
  have ok: "req_ok {} (queue (cl_limiter ?c)) (cl_fakes ?c) i r" by (rule client_invD(4) [OF ci r(1)])
  consider "ri_watcher r" | "i \<in> set (cl_fakes ?c)" | "req_waiting r" using ok r(2) unfolding req_ok_def req_waiting_def by blast
  then show ?thesis
  proof cases
    case 1
    with r(1) awaiting_goes_on [OF inv safe, of i] show ?thesis by (auto simp: awaiting_def)
  next
    case 2
    with client_goes_on [OF inv, of "Library (Fake_reply i)"] show ?thesis by simp
  next
    case 3
    with ok obtain h where "(h, Some i) \<in> set (queue (cl_limiter ?c))" by (auto simp: req_ok_def)
    then have "i \<in> set (live (queue (cl_limiter ?c)))" by (auto simp: set_live)
    then have "live (queue (cl_limiter ?c)) \<noteq> []" by auto
    with full client_invD(1) [OF ci] have "0 < running (cl_limiter ?c)" by (simp add: full_ok_def wf_limiter_def)
    with client_invD(7) [OF ci] consider "0 < cl_pumps ?c" | "0 < outstanding ?c" by fastforce
    then show ?thesis
    proof cases
      case 1
      with client_goes_on [OF inv, of "Library Pump_call"] show ?thesis by simp
    next
      case 2
      then obtain j q where "(j, q) \<in> set (cl_reqs ?c)" "ri_watcher q" by (auto simp: outstanding_def filter_empty_conv)
      with client_invD(2) [OF ci] have "j \<in> awaiting ?c" by (auto simp: awaiting_def get_req_def distinct_reqs_def)
      with awaiting_goes_on [OF inv safe] show ?thesis by blast
    qed
  qed
qed

section \<open>A concrete run\<close>

text \<open>An application asks for album art that the service has in its thumbnail cache.\<close>

primrec sys_run :: "('p, 'l, 'w, 'i) deployment \<Rightarrow> int \<Rightarrow> system_event list \<Rightarrow> ('i, 'w) system \<Rightarrow> ('i, 'w) system result" where
  "sys_run D now [] s = Inr s"
| "sys_run D now (ev # evs) s = (if sys_due D ev s then rbind (sys_handle D now ev s) (sys_run D now evs) else Inl Abort)"

lemma sys_run_reaches: "sys_run D now evs s = Inr s' \<Longrightarrow> sys_reaches D s0 s \<Longrightarrow> sys_reaches D s0 s'"
proof (induction evs arbitrary: s)
  case (Cons ev evs)
  then obtain s1 where "sys_step D ev s s1" "sys_run D now evs s1 = Inr s'" by (auto simp: rbind_Inr_iff split: if_splits intro: sys_step.intros)
  with Cons show ?case by (blast intro: sys_reaches.Sys_next)
qed simp

definition demo_deployment :: "(raw_pixbuf, size_callback \<times> string, mem, unit) deployment" where
  "demo_deployment =
     \<lparr>dp_env = sample_env, dp_key = sample_key, dp_name = '':1.5'', dp_canonical = Inr,
      dp_fromData = (\<lambda>bytes. if bytes = ''png'' then Some () else None)\<rparr>"

definition demo_thumbnailer :: "mem thumbnailer" where
  "demo_thumbnailer =
     sample_thumbnailer\<lparr>thumbnail_cache := mem_helper False [(sized_key (album_key ''A'' ''B'') sample_size, ''png'', 0)]\<rparr>"

definition demo_system :: "dbus_config \<Rightarrow> (unit, mem) system" where
  "demo_system c = new_system demo_client (new_service demo_thumbnailer c False sample_inactivity)"

definition demo_request :: "system_event list" where
  "demo_request = [App_request 0 (Get_album_art ''A'' ''B'' sample_size), Call_arrives 0]"

definition demo_service :: "system_event list" where
  "demo_service = [Service_turn (Peer_answer '':1.5'' (Some (1000, [NUL]))), Service_turn (Callback 0), Service_turn (Callback 0), Reply_arrives 0]"

lemmas demo_client_simps =
  new_system_def demo_client_def getAlbumArt_def Thumbnailer_getAlbumArt_def createRequest_def RequestImpl_def new_request_def act_bind_def on_limiter_def
  schedule_def schedule_now_def send_request_def upd_req_def get_req_def isValid_def sample_size_def client_next_def newly_sent_def

lemmas demo_call_simps =
  method_call_def new_service_def no_requests_def GetAlbumArt_def get_album_art_def
  new_album_request_def RequestBase_def sample_key_def Handler_def request_started_def sample_inactivity_def queueRequest_def requests_for_def run_begin_def
  service_begin_def run_on_def begin_handler_def creds_get_def CredentialsCache_def owe_def emitted_def attach_def detach_def fresh_handler_def called_def numbered_def

lemmas demo_answer_simps =
  peer_answer_def received_credentials_def reply_credentials_def emplace_def MAX_CACHE_SIZE_def run_handler_def deliver_def plain_delivery_def
  gotCredentials_def no_credentials_def check_client_credentials_def act_catch_def owed_to_def loop_callback_def

lemmas demo_lookup_simps =
  do_check_def byte_array_or_error_of_def check_def on_session_def act_zoom_def thumbnail_def look_up_def target_size_def
  on_tn_def on_thumbnail_cache_def cache_sample_simps demo_thumbnailer_def sample_thumbnailer_def set_request_status_def
  checkFinished_def sendThumbnail_def settle_def requestFinished_def successors_def

lemmas demo_reply_simps =
  replies_to_def deliver_reply_def dbusCallFinished_def limiter_done_def Request_isValid_def Request_image_def forward_def

lemma demo_sent: "\<exists>s. sys_run demo_deployment 1 demo_request (demo_system c) = Inr s \<and> Request_isFinished 0 (sy_client s) = Inr False"
  by (simp add: demo_request_def demo_system_def demo_client_simps demo_call_simps demo_deployment_def Let_def Request_isFinished_def forward_def)

lemma demo_done:
  "\<exists>s. sys_run demo_deployment 1 (demo_request @ demo_service) (demo_system c) = Inr s \<and>
       Request_isValid 0 (sy_client s) = Inr True \<and> Request_image 0 (sy_client s) = Inr (Some ())"
  by (simp add: demo_request_def demo_system_def demo_client_simps demo_call_simps demo_deployment_def Let_def
      demo_service_def demo_answer_simps demo_lookup_simps demo_reply_simps)

lemma demo_reached:
  assumes "sys_run demo_deployment 1 evs (demo_system c) = Inr s"
  shows "sys_reaches demo_deployment (new_system demo_client (new_service demo_thumbnailer c False sample_inactivity)) s"
  using sys_run_reaches [OF assms sys_reaches.Sys_start] by (simp add: demo_system_def)

lemma demo_safe: "downloads_safe (dp_env demo_deployment)"
  by (simp add: demo_deployment_def sample_safe)

section \<open>Properties\<close>





end
