(* ===== verification/Resource_Ptr.thy ===== *)
theory Resource_Ptr
  imports Thumb_Prelude "HOL-Library.Multiset" "HOL-Library.Option_ord"
begin

text \<open>
  The owner of arbitrary resources of \<open>include/internal/ResourcePtr.h\<close>. The objects live in a store and are named by their
  position there, because move assignment and swap work on two of them that may be the same one. A deleter is a parameter
  that may throw; its calls are logged. \<open>rp_acquired\<close> and \<open>rp_released\<close> record what was handed to the objects and taken back
  with \<open>release()\<close>. Every operation holds the object's mutex, so that one operation is one step.
\<close>

section \<open>Objects and store\<close>

record ('r, 'd) resource_ptr =
  rp_resource :: 'r
  rp_delete :: 'd
  rp_initialized :: bool

record ('r, 'd) rp_world =
  rp_objects :: "('r, 'd) resource_ptr option list"
  rp_deleted :: "('d \<times> 'r) list"
  rp_acquired :: "('d \<times> 'r) list"
  rp_released :: "('d \<times> 'r) list"

type_synonym ('r, 'd) deleter = "'d \<Rightarrow> 'r \<Rightarrow> unit result"

definition rp_live :: "('r, 'd) rp_world \<Rightarrow> nat \<Rightarrow> bool" where
  "rp_live w i \<longleftrightarrow> i < length (rp_objects w) \<and> rp_objects w ! i \<noteq> None"

definition rp_obj :: "('r, 'd) rp_world \<Rightarrow> nat \<Rightarrow> ('r, 'd) resource_ptr" where
  "rp_obj w i = the (rp_objects w ! i)"

definition rp_put :: "nat \<Rightarrow> ('r, 'd) resource_ptr \<Rightarrow> ('r, 'd) rp_world \<Rightarrow> ('r, 'd) rp_world" where
  "rp_put i p w = w\<lparr>rp_objects := (rp_objects w)[i := Some p]\<rparr>"

definition rp_new :: "('r, 'd) resource_ptr \<Rightarrow> ('r, 'd) rp_world \<Rightarrow> ('r, 'd) rp_world" where
  "rp_new p w = w\<lparr>rp_objects := rp_objects w @ [Some p]\<rparr>"

definition call_deleter :: "('r, 'd) deleter \<Rightarrow> 'd \<Rightarrow> 'r \<Rightarrow> (('r, 'd) rp_world, unit) act" where
  "call_deleter del d r w = (del d r, w\<lparr>rp_deleted := rp_deleted w @ [(d, r)]\<rparr>)"

section \<open>Operations\<close>

text \<open>The constructors; \<open>r0\<close> is whatever a default-initialised resource is.\<close>

definition rp_construct_empty :: "'r \<Rightarrow> 'd \<Rightarrow> ('r, 'd) rp_world \<Rightarrow> ('r, 'd) rp_world" where
  "rp_construct_empty r0 d w = rp_new \<lparr>rp_resource = r0, rp_delete = d, rp_initialized = False\<rparr> w"

definition rp_construct :: "'r \<Rightarrow> 'd \<Rightarrow> ('r, 'd) rp_world \<Rightarrow> ('r, 'd) rp_world" where
  "rp_construct r d w =
     rp_new \<lparr>rp_resource = r, rp_delete = d, rp_initialized = True\<rparr> (w\<lparr>rp_acquired := rp_acquired w @ [(d, r)]\<rparr>)"

definition rp_move_construct :: "nat \<Rightarrow> ('r, 'd) rp_world \<Rightarrow> ('r, 'd) rp_world" where
  "rp_move_construct j w =
     (let r = rp_obj w j; w1 = rp_new r w in rp_put j (r\<lparr>rp_initialized := False\<rparr>) w1)"

definition rp_move_assign :: "('r, 'd) deleter \<Rightarrow> nat \<Rightarrow> nat \<Rightarrow> (('r, 'd) rp_world, unit) act" where
  "rp_move_assign del i j w =
     (let p = rp_obj w i
      in case (if rp_initialized p
               then call_deleter del (rp_delete p) (rp_resource p) (rp_put i (p\<lparr>rp_initialized := False\<rparr>) w)
               else (Inr (), w)) of
           (Inl e, w1) \<Rightarrow> (Inl e, w1)
         | (Inr _, w1) \<Rightarrow>
             (let w2 = rp_put i ((rp_obj w1 i)\<lparr>rp_resource := rp_resource (rp_obj w1 j)\<rparr>) w1;
                  w3 = rp_put i ((rp_obj w2 i)\<lparr>rp_initialized := rp_initialized (rp_obj w2 j)\<rparr>) w2;
                  w4 = rp_put j ((rp_obj w3 j)\<lparr>rp_initialized := False\<rparr>) w3
              in (Inr (), rp_put i ((rp_obj w4 i)\<lparr>rp_delete := rp_delete (rp_obj w4 j)\<rparr>) w4)))"

definition rp_swap :: "nat \<Rightarrow> nat \<Rightarrow> ('r, 'd) rp_world \<Rightarrow> ('r, 'd) rp_world" where
  "rp_swap i j w = (if i = j then w else rp_put j (rp_obj w i) (rp_put i (rp_obj w j) w))"

definition rp_reset :: "('r, 'd) deleter \<Rightarrow> nat \<Rightarrow> 'r \<Rightarrow> (('r, 'd) rp_world, unit) act" where
  "rp_reset del i r w =
     (let p = rp_obj w i;
          w1 = rp_put i (p\<lparr>rp_resource := r, rp_initialized := True\<rparr>) (w\<lparr>rp_acquired := rp_acquired w @ [(rp_delete p, r)]\<rparr>)
      in if rp_initialized p then call_deleter del (rp_delete p) (rp_resource p) w1 else (Inr (), w1))"

definition rp_release :: "nat \<Rightarrow> (('r, 'd) rp_world, 'r) act" where
  "rp_release i w =
     (let p = rp_obj w i
      in if \<not> rp_initialized p then (Inl (Logic_error ''release() called on ResourcePtr without resource''), w)
         else (Inr (rp_resource p),
               (rp_put i (p\<lparr>rp_initialized := False\<rparr>) w)\<lparr>rp_released := rp_released w @ [(rp_delete p, rp_resource p)]\<rparr>))"

definition rp_dealloc :: "('r, 'd) deleter \<Rightarrow> nat \<Rightarrow> (('r, 'd) rp_world, unit) act" where
  "rp_dealloc del i w =
     (let p = rp_obj w i
      in if \<not> rp_initialized p then (Inr (), w)
         else call_deleter del (rp_delete p) (rp_resource p) (rp_put i (p\<lparr>rp_initialized := False\<rparr>) w))"

text \<open>The destructor: \<open>dealloc()\<close>, whose exceptions are swallowed, then the object is gone.\<close>

definition rp_destroy :: "('r, 'd) deleter \<Rightarrow> nat \<Rightarrow> ('r, 'd) rp_world \<Rightarrow> ('r, 'd) rp_world" where
  "rp_destroy del i w =
     (let w1 = snd (rp_dealloc del i w) in w1\<lparr>rp_objects := (rp_objects w1)[i := None]\<rparr>)"

definition rp_get :: "('r, 'd) resource_ptr \<Rightarrow> 'r result" where
  "rp_get p = (if \<not> rp_initialized p then Inl (Logic_error ''get() called on ResourcePtr without resource'') else Inr (rp_resource p))"

definition rp_has_resource :: "('r, 'd) resource_ptr \<Rightarrow> bool" where
  "rp_has_resource p = rp_initialized p"

text \<open>The comparisons, of two different objects; an object compared with itself is equal without a look at its members.\<close>

definition rp_equal :: "('r, 'd) resource_ptr \<Rightarrow> ('r, 'd) resource_ptr \<Rightarrow> bool" where
  "rp_equal p q =
     (if \<not> rp_initialized p then \<not> rp_initialized q
      else if \<not> rp_initialized q then False
      else rp_resource p = rp_resource q)"

definition rp_less :: "('r::linorder, 'd) resource_ptr \<Rightarrow> ('r, 'd) resource_ptr \<Rightarrow> bool" where
  "rp_less p q =
     (if \<not> rp_initialized p then rp_initialized q
      else if \<not> rp_initialized q then False
      else rp_resource p < rp_resource q)"

definition rp_less_equal :: "('r::linorder, 'd) resource_ptr \<Rightarrow> ('r, 'd) resource_ptr \<Rightarrow> bool" where
  "rp_less_equal p q \<longleftrightarrow> rp_resource p < rp_resource q \<or> rp_resource p = rp_resource q"

definition rp_greater :: "('r::linorder, 'd) resource_ptr \<Rightarrow> ('r, 'd) resource_ptr \<Rightarrow> bool" where
  "rp_greater p q \<longleftrightarrow> \<not> rp_less_equal p q"

definition rp_greater_equal :: "('r::linorder, 'd) resource_ptr \<Rightarrow> ('r, 'd) resource_ptr \<Rightarrow> bool" where
  "rp_greater_equal p q \<longleftrightarrow> \<not> rp_less p q"

section \<open>Programs\<close>

datatype ('r, 'd) rp_op =
    Construct_empty 'r 'd
  | Construct 'r 'd
  | Move_construct nat
  | Move_assign nat nat
  | Swap nat nat
  | Reset nat 'r
  | Release nat
  | Dealloc nat
  | Destroy nat

fun rp_operands :: "('r, 'd) rp_op \<Rightarrow> nat list" where
  "rp_operands (Construct_empty r d) = []"
| "rp_operands (Construct r d) = []"
| "rp_operands (Move_construct j) = [j]"
| "rp_operands (Move_assign i j) = [i, j]"
| "rp_operands (Swap i j) = [i, j]"
| "rp_operands (Reset i r) = [i]"
| "rp_operands (Release i) = [i]"
| "rp_operands (Dealloc i) = [i]"
| "rp_operands (Destroy i) = [i]"

fun rp_exec :: "('r, 'd) deleter \<Rightarrow> ('r, 'd) rp_op \<Rightarrow> ('r, 'd) rp_world \<Rightarrow> ('r, 'd) rp_world" where
  "rp_exec del (Construct_empty r d) w = rp_construct_empty r d w"
| "rp_exec del (Construct r d) w = rp_construct r d w"
| "rp_exec del (Move_construct j) w = rp_move_construct j w"
| "rp_exec del (Move_assign i j) w = snd (rp_move_assign del i j w)"
| "rp_exec del (Swap i j) w = rp_swap i j w"
| "rp_exec del (Reset i r) w = snd (rp_reset del i r w)"
| "rp_exec del (Release i) w = snd (rp_release i w)"
| "rp_exec del (Dealloc i) w = snd (rp_dealloc del i w)"
| "rp_exec del (Destroy i) w = rp_destroy del i w"

text \<open>A program: any sequence of operations on live objects, whatever the deleters throw.\<close>

inductive rp_reach :: "('r, 'd) deleter \<Rightarrow> ('r, 'd) rp_world \<Rightarrow> bool" for del where
  start: "rp_reach del \<lparr>rp_objects = [], rp_deleted = [], rp_acquired = [], rp_released = []\<rparr>"
| step: "rp_reach del w \<Longrightarrow> list_all (rp_live w) (rp_operands oper) \<Longrightarrow> rp_reach del (rp_exec del oper w)"

section \<open>Every resource is deleted exactly once\<close>

text \<open>What the live objects own, each resource with the deleter it would be given to.\<close>

definition owns :: "('r, 'd) resource_ptr option \<Rightarrow> ('d \<times> 'r) multiset" where
  "owns x = (case x of None \<Rightarrow> {#} | Some p \<Rightarrow> if rp_initialized p then {#(rp_delete p, rp_resource p)#} else {#})"

definition owned :: "('r, 'd) rp_world \<Rightarrow> ('d \<times> 'r) multiset" where
  "owned w = sum_list (map owns (rp_objects w))"

definition rp_balanced :: "('r, 'd) rp_world \<Rightarrow> bool" where
  "rp_balanced w \<longleftrightarrow> mset (rp_acquired w) = owned w + mset (rp_released w) + mset (rp_deleted w)"

lemma sum_list_owns_update:
  "i < length xs \<Longrightarrow> sum_list (map owns (xs[i := x])) + owns (xs ! i) = sum_list (map owns xs) + owns x"
  by (induction xs arbitrary: i) (auto simp: ac_simps split: nat.splits)

lemma nothing_owned: "list_all (\<lambda>x. x = None) xs \<Longrightarrow> sum_list (map owns xs) = {#}"
  by (induction xs) (auto simp: owns_def)

lemma rp_live_obj: "rp_live w i \<Longrightarrow> rp_objects w ! i = Some (rp_obj w i)"
  by (auto simp: rp_live_def rp_obj_def)

lemma rp_put_simps [simp]:
  "rp_deleted (rp_put i p w) = rp_deleted w" "rp_acquired (rp_put i p w) = rp_acquired w"
  "rp_released (rp_put i p w) = rp_released w" "length (rp_objects (rp_put i p w)) = length (rp_objects w)"
  by (simp_all add: rp_put_def)

lemma rp_live_put [simp]: "rp_live w i \<Longrightarrow> rp_live (rp_put i p w) j \<longleftrightarrow> rp_live w j"
  by (cases "i = j") (auto simp: rp_put_def rp_live_def)

lemma rp_obj_put [simp]: "rp_live w i \<Longrightarrow> rp_obj (rp_put i p w) j = (if i = j then p else rp_obj w j)"
  by (auto simp: rp_obj_def rp_put_def rp_live_def)

lemma rp_log_simps [simp]:
  "owned (w\<lparr>rp_deleted := ds\<rparr>) = owned w" "owned (w\<lparr>rp_acquired := ac\<rparr>) = owned w" "owned (w\<lparr>rp_released := rs\<rparr>) = owned w"
  "rp_live (w\<lparr>rp_deleted := ds\<rparr>) = rp_live w" "rp_live (w\<lparr>rp_acquired := ac\<rparr>) = rp_live w"
  "rp_obj (w\<lparr>rp_deleted := ds\<rparr>) = rp_obj w" "rp_obj (w\<lparr>rp_acquired := ac\<rparr>) = rp_obj w"
  by (simp_all add: owned_def rp_live_def rp_obj_def fun_eq_iff)

lemma owned_put:
  "rp_live w i \<Longrightarrow> owned (rp_put i p w) + owns (Some (rp_obj w i)) = owned w + owns (Some p)"
  using sum_list_owns_update [of i "rp_objects w" "Some p"] rp_live_obj [of w i]
  by (simp add: owned_def rp_put_def rp_live_def)

lemma owned_new: "owned (rp_new p w) = owned w + owns (Some p)"
  by (simp add: owned_def rp_new_def)

lemma owned_same: "rp_live w i \<Longrightarrow> owns (Some p) = owns (Some (rp_obj w i)) \<Longrightarrow> owned (rp_put i p w) = owned w"
  using owned_put [of w i p] by simp

lemma owned_clear:
  assumes "rp_live w i" "rp_initialized (rp_obj w i)"
  shows "owned w = add_mset (rp_delete (rp_obj w i), rp_resource (rp_obj w i))
                     (owned (rp_put i ((rp_obj w i)\<lparr>rp_initialized := False\<rparr>) w))"
  using owned_put [OF assms(1), of "(rp_obj w i)\<lparr>rp_initialized := False\<rparr>"] assms(2) by (simp add: owns_def)

lemma rp_new_simps [simp]:
  "rp_deleted (rp_new p w) = rp_deleted w" "rp_acquired (rp_new p w) = rp_acquired w" "rp_released (rp_new p w) = rp_released w"
  "rp_live w i \<Longrightarrow> rp_live (rp_new p w) i" "rp_live w i \<Longrightarrow> rp_obj (rp_new p w) i = rp_obj w i"
  by (auto simp: rp_new_def rp_live_def rp_obj_def nth_append)

lemma balanced_construct:
  "rp_balanced w \<Longrightarrow> rp_balanced (rp_construct_empty r d w)"
  "rp_balanced w \<Longrightarrow> rp_balanced (rp_construct r d w)"
  by (simp_all add: rp_balanced_def rp_construct_empty_def rp_construct_def owned_new owns_def)

lemma balanced_move_construct:
  assumes "rp_live w j" "rp_balanced w"
  shows "rp_balanced (rp_move_construct j w)"
  using assms owned_put [of "rp_new (rp_obj w j) w" j "(rp_obj w j)\<lparr>rp_initialized := False\<rparr>"]
  by (auto simp: rp_balanced_def rp_move_construct_def Let_def owned_new owns_def split: if_splits)

lemma balanced_dealloc:
  assumes "rp_live w i" "rp_balanced w"
  shows "rp_balanced (snd (rp_dealloc del i w))"
  using assms owned_clear [of w i]
  by (auto simp: rp_balanced_def rp_dealloc_def call_deleter_def Let_def)

lemma balanced_release:
  assumes "rp_live w i" "rp_balanced w"
  shows "rp_balanced (snd (rp_release i w))"
  using assms owned_clear [of w i]
  by (auto simp: rp_balanced_def rp_release_def Let_def)

lemma balanced_reset:
  assumes "rp_live w i" "rp_balanced w"
  shows "rp_balanced (snd (rp_reset del i r w))"
  using assms owned_put [of "w\<lparr>rp_acquired := rp_acquired w @ [(rp_delete (rp_obj w i), r)]\<rparr>" i
      "(rp_obj w i)\<lparr>rp_resource := r, rp_initialized := True\<rparr>"]
  by (auto simp: rp_balanced_def rp_reset_def call_deleter_def Let_def owns_def)

lemma balanced_swap:
  assumes "rp_live w i" "rp_live w j" "rp_balanced w"
  shows "rp_balanced (rp_swap i j w)"
  using assms owned_put [of w i "rp_obj w j"] owned_put [of "rp_put i (rp_obj w j) w" j "rp_obj w i"]
  by (auto simp: rp_balanced_def rp_swap_def)

lemma dealloc_frame:
  assumes "rp_live w i"
  shows "rp_live (snd (rp_dealloc del i w)) = rp_live w"
    and "length (rp_objects (snd (rp_dealloc del i w))) = length (rp_objects w)"
    and "\<not> rp_initialized (rp_obj (snd (rp_dealloc del i w)) i)"
  using assms by (auto simp: rp_dealloc_def call_deleter_def Let_def fun_eq_iff)

text \<open>Destroying an object is deallocating and then forgetting an object that owns nothing.\<close>

lemma balanced_destroy:
  assumes "rp_live w i" "rp_balanced w"
  shows "rp_balanced (rp_destroy del i w)"
proof -
  let ?w = "snd (rp_dealloc del i w)"
  have *: "i < length (rp_objects ?w)" "owns (rp_objects ?w ! i) = {#}"
    using dealloc_frame [OF assms(1), of del] rp_live_obj [of ?w i] assms(1) by (auto simp: owns_def rp_live_def)
  have "owned (rp_destroy del i w) = owned ?w"
    using sum_list_owns_update [OF *(1), of None] *(2) by (simp add: owned_def rp_destroy_def Let_def) (simp add: owns_def)
  then show ?thesis
    using balanced_dealloc [OF assms] by (simp add: rp_balanced_def rp_destroy_def Let_def)
qed

text \<open>Move assignment: the old resource is deallocated, then the other object's resource and deleter change hands.\<close>

definition rp_take :: "nat \<Rightarrow> nat \<Rightarrow> ('r, 'd) rp_world \<Rightarrow> ('r, 'd) rp_world" where
  "rp_take i j w1 =
     (let w2 = rp_put i ((rp_obj w1 i)\<lparr>rp_resource := rp_resource (rp_obj w1 j)\<rparr>) w1;
          w3 = rp_put i ((rp_obj w2 i)\<lparr>rp_initialized := rp_initialized (rp_obj w2 j)\<rparr>) w2;
          w4 = rp_put j ((rp_obj w3 j)\<lparr>rp_initialized := False\<rparr>) w3
      in rp_put i ((rp_obj w4 i)\<lparr>rp_delete := rp_delete (rp_obj w4 j)\<rparr>) w4)"

lemma rp_move_assign_split:
  "rp_move_assign del i j w =
     (case rp_dealloc del i w of (Inl e, w1) \<Rightarrow> (Inl e, w1) | (Inr _, w1) \<Rightarrow> (Inr (), rp_take i j w1))"
  by (cases "rp_initialized (rp_obj w i)")
     (auto simp: rp_move_assign_def rp_dealloc_def rp_take_def Let_def split: prod.split sum.split)

lemma owned_take:
  assumes live: "rp_live w i" "rp_live w j" and empty: "\<not> rp_initialized (rp_obj w i)"
  shows "owned (rp_take i j w) = owned w"
proof (cases "i = j")
  case True
  then show ?thesis
    using live empty by (simp add: rp_take_def Let_def owned_same owns_def)
next
  case False
  let ?p = "rp_obj w i" and ?r = "rp_obj w j"
  let ?w2 = "rp_put i (?p\<lparr>rp_resource := rp_resource ?r\<rparr>) w"
  let ?p3 = "?p\<lparr>rp_resource := rp_resource ?r, rp_initialized := rp_initialized ?r\<rparr>"
  let ?w3 = "rp_put i ?p3 ?w2"
  let ?w4 = "rp_put j (?r\<lparr>rp_initialized := False\<rparr>) ?w3"
  let ?p5 = "?p3\<lparr>rp_delete := rp_delete ?r\<rparr>"
  have "owned ?w2 = owned w"
    using live empty by (simp add: owned_same owns_def)
  moreover have "owned ?w3 = owned ?w2 + owns (Some ?p3)"
    using owned_put [of ?w2 i ?p3] live empty by (simp add: owns_def)
  moreover have "owned ?w4 + owns (Some ?r) = owned ?w3"
    using owned_put [of ?w3 j "?r\<lparr>rp_initialized := False\<rparr>"] live False by (simp add: owns_def)
  moreover have "owned (rp_put i ?p5 ?w4) + owns (Some ?p3) = owned ?w4 + owns (Some ?p5)"
    using owned_put [of ?w4 i ?p5] live False by simp
  moreover have "owns (Some ?p5) = owns (Some ?r)"
    by (simp add: owns_def)
  moreover have "rp_take i j w = rp_put i ?p5 ?w4"
    using live False by (simp add: rp_take_def Let_def)
  ultimately show ?thesis
    by (metis add.commute add_right_cancel)
qed

lemma rp_take_logs [simp]:
  "rp_deleted (rp_take i j w) = rp_deleted w" "rp_acquired (rp_take i j w) = rp_acquired w"
  "rp_released (rp_take i j w) = rp_released w"
  by (simp_all add: rp_take_def Let_def)

lemma balanced_move_assign:
  assumes "rp_live w i" "rp_live w j" "rp_balanced w"
  shows "rp_balanced (snd (rp_move_assign del i j w))"
proof -
  let ?w = "snd (rp_dealloc del i w)"
  have "owned (rp_take i j ?w) = owned ?w"
    using assms dealloc_frame [OF assms(1), of del] by (intro owned_take) auto
  then show ?thesis
    using balanced_dealloc [OF assms(1,3), of del]
    by (auto simp: rp_move_assign_split rp_balanced_def split: prod.splits sum.splits)
qed

lemma balanced_exec:
  "rp_balanced w \<Longrightarrow> list_all (rp_live w) (rp_operands oper) \<Longrightarrow> rp_balanced (rp_exec del oper w)"
  by (cases oper)
     (auto intro: balanced_construct balanced_move_construct balanced_move_assign balanced_swap balanced_reset
       balanced_release balanced_dealloc balanced_destroy)

lemma balanced_reach: "rp_reach del w \<Longrightarrow> rp_balanced w"
  by (induction rule: rp_reach.induct) (simp add: rp_balanced_def owned_def, rule balanced_exec)

text \<open>
  C18. In every program, with deleters that may throw at any call and with any aliasing of the operands, every resource that was
  handed to a pointer is, counted with multiplicity, still owned by exactly one live object, was given back by \<open>release()\<close>,
  or was passed exactly once to the deleter it came with. Once all objects are destroyed, nothing is leaked.
\<close>

theorem resource_exactly_once:
  assumes "rp_reach del w"
  shows "mset (rp_acquired w) = owned w + mset (rp_released w) + mset (rp_deleted w) \<and>
         (list_all (\<lambda>x. x = None) (rp_objects w) \<longrightarrow> mset (rp_acquired w) = mset (rp_released w) + mset (rp_deleted w))"
  using balanced_reach [OF assms] by (auto simp: rp_balanced_def owned_def nothing_owned)

section \<open>The abstract owner\<close>

text \<open>
  The specification: an owner is a deleter with an optional resource; the value of a resource that is not held does not exist.
\<close>

definition rp_value :: "('r, 'd) resource_ptr \<Rightarrow> 'r option" where
  "rp_value p = (if rp_initialized p then Some (rp_resource p) else None)"

type_synonym ('r, 'd) owners = "('d \<times> 'r option) option list"

definition rp_abs :: "('r, 'd) rp_world \<Rightarrow> ('r, 'd) owners" where
  "rp_abs w = map (map_option (\<lambda>p. (rp_delete p, rp_value p))) (rp_objects w)"

definition owner :: "('r, 'd) owners \<Rightarrow> nat \<Rightarrow> 'd \<times> 'r option" where
  "owner s i = the (s ! i)"

definition throws :: "('r, 'd) deleter \<Rightarrow> 'd \<times> 'r option \<Rightarrow> bool" where
  "throws del x = (case x of (d, Some r) \<Rightarrow> (\<exists>e. del d r = Inl e) | (d, None) \<Rightarrow> False)"

fun owner_exec :: "('r, 'd) deleter \<Rightarrow> ('r, 'd) rp_op \<Rightarrow> ('r, 'd) owners \<Rightarrow> ('r, 'd) owners" where
  "owner_exec del (Construct_empty r d) s = s @ [Some (d, None)]"
| "owner_exec del (Construct r d) s = s @ [Some (d, Some r)]"
| "owner_exec del (Move_construct j) s = s[j := Some (fst (owner s j), None)] @ [Some (owner s j)]"
| "owner_exec del (Move_assign i j) s =
     (if i = j \<or> throws del (owner s i) then s[i := Some (fst (owner s i), None)]
      else s[i := Some (owner s j), j := Some (fst (owner s j), None)])"
| "owner_exec del (Swap i j) s = s[i := Some (owner s j), j := Some (owner s i)]"
| "owner_exec del (Reset i r) s = s[i := Some (fst (owner s i), Some r)]"
| "owner_exec del (Release i) s = s[i := Some (fst (owner s i), None)]"
| "owner_exec del (Dealloc i) s = s[i := Some (fst (owner s i), None)]"
| "owner_exec del (Destroy i) s = s[i := None]"

lemma rp_abs_put: "rp_abs (rp_put i p w) = (rp_abs w)[i := Some (rp_delete p, rp_value p)]"
  by (simp add: rp_abs_def rp_put_def map_update)

lemma rp_abs_new: "rp_abs (rp_new p w) = rp_abs w @ [Some (rp_delete p, rp_value p)]"
  by (simp add: rp_abs_def rp_new_def)

lemma rp_abs_logs [simp]:
  "rp_abs (w\<lparr>rp_deleted := ds\<rparr>) = rp_abs w" "rp_abs (w\<lparr>rp_acquired := ac\<rparr>) = rp_abs w" "rp_abs (w\<lparr>rp_released := rs\<rparr>) = rp_abs w"
  by (simp_all add: rp_abs_def)

lemma rp_abs_at: "rp_live w i \<Longrightarrow> rp_abs w ! i = Some (rp_delete (rp_obj w i), rp_value (rp_obj w i))"
  using rp_live_obj [of w i] by (simp add: rp_abs_def rp_live_def)

lemma rp_abs_length: "rp_live w i \<Longrightarrow> i < length (rp_abs w)"
  by (simp add: rp_live_def rp_abs_def)

lemma rp_abs_owner: "rp_live w i \<Longrightarrow> owner (rp_abs w) i = (rp_delete (rp_obj w i), rp_value (rp_obj w i))"
  by (simp add: owner_def rp_abs_at)

lemma rp_abs_same: "rp_live w i \<Longrightarrow> (rp_abs w)[i := Some (rp_delete (rp_obj w i), rp_value (rp_obj w i))] = rp_abs w"
  using list_update_id [of "rp_abs w" i] by (simp add: rp_abs_at)

lemma rp_value_simps [simp]:
  "rp_value (p\<lparr>rp_initialized := b\<rparr>) = (if b then Some (rp_resource p) else None)"
  "rp_value (p\<lparr>rp_delete := d\<rparr>) = rp_value p" "\<not> rp_initialized p \<Longrightarrow> rp_value p = None"
  by (simp_all add: rp_value_def)

lemma abs_dealloc:
  "rp_live w i \<Longrightarrow> rp_abs (snd (rp_dealloc del i w)) = (rp_abs w)[i := Some (fst (owner (rp_abs w) i), None)]"
  using rp_abs_same [of w i] by (auto simp: rp_dealloc_def call_deleter_def Let_def rp_abs_put rp_abs_owner)

lemma fst_dealloc:
  "rp_live w i \<Longrightarrow> (\<exists>e. fst (rp_dealloc del i w) = Inl e) \<longleftrightarrow> throws del (owner (rp_abs w) i)"
  by (auto simp: rp_dealloc_def call_deleter_def Let_def rp_abs_owner throws_def rp_value_def)

lemma abs_take:
  assumes "rp_live w i" "rp_live w j" "\<not> rp_initialized (rp_obj w i)"
  shows "rp_abs (rp_take i j w) =
           (if i = j then rp_abs w else (rp_abs w)[i := Some (owner (rp_abs w) j), j := Some (fst (owner (rp_abs w) j), None)])"
proof (cases "i = j")
  case True
  then show ?thesis
    using assms rp_abs_same [OF assms(1)] by (simp add: rp_take_def Let_def rp_abs_put rp_value_def)
next
  case False
  then show ?thesis
    using assms by (simp add: rp_take_def Let_def rp_abs_put rp_abs_owner rp_value_def list_update_swap)
qed

lemma dealloc_owner:
  assumes "rp_live w i" "rp_live w j" "i \<noteq> j"
  shows "owner (rp_abs (snd (rp_dealloc del i w))) j = owner (rp_abs w) j"
  using assms by (simp add: abs_dealloc owner_def)

lemma abs_move_assign:
  assumes "rp_live w i" "rp_live w j"
  shows "rp_abs (snd (rp_move_assign del i j w)) = owner_exec del (Move_assign i j) (rp_abs w)"
proof -
  let ?w = "snd (rp_dealloc del i w)"
  have take: "rp_abs (rp_take i j ?w) = (if i = j then rp_abs ?w
      else (rp_abs ?w)[i := Some (owner (rp_abs ?w) j), j := Some (fst (owner (rp_abs ?w) j), None)])"
    using assms dealloc_frame [OF assms(1), of del] by (intro abs_take) auto
  show ?thesis
  proof (cases "fst (rp_dealloc del i w)")
    case (Inl e)
    then show ?thesis
      using fst_dealloc [OF assms(1), of del] abs_dealloc [OF assms(1), of del]
      by (auto simp: rp_move_assign_split split: prod.splits)
  next
    case (Inr u)
    then have "\<not> throws del (owner (rp_abs w) i)"
      using fst_dealloc [OF assms(1), of del] by auto
    then show ?thesis
      using Inr take abs_dealloc [OF assms(1), of del] dealloc_owner [OF assms, of del]
      by (auto simp: rp_move_assign_split split: prod.splits)
  qed
qed

lemma rp_exec_refines:
  assumes "list_all (rp_live w) (rp_operands oper)"
  shows "rp_abs (rp_exec del oper w) = owner_exec del oper (rp_abs w)"
proof (cases oper)
  case (Move_construct j)
  then show ?thesis
    using assms rp_abs_length [of w j] by (simp add: rp_move_construct_def Let_def rp_abs_put rp_abs_new rp_abs_owner list_update_append)
next
  case (Swap i j)
  then show ?thesis
    using assms rp_abs_same [of w i] by (auto simp: rp_swap_def rp_abs_put rp_abs_owner)
next
  case (Reset i r)
  then show ?thesis
    using assms by (simp add: rp_reset_def call_deleter_def Let_def rp_abs_put rp_abs_owner rp_value_def)
next
  case (Release i)
  then show ?thesis
    using assms rp_abs_same [of w i] by (auto simp: rp_release_def Let_def rp_abs_put rp_abs_owner)
next
  case (Destroy i)
  have "rp_abs (w'\<lparr>rp_objects := (rp_objects w')[i := None]\<rparr>) = (rp_abs w')[i := None]" for w' :: "('a, 'b) rp_world"
    by (simp add: rp_abs_def map_update)
  then show ?thesis
    using assms Destroy by (simp add: rp_destroy_def Let_def abs_dealloc)
qed (use assms in \<open>simp_all add: rp_construct_empty_def rp_construct_def rp_abs_new abs_dealloc abs_move_assign rp_value_def\<close>)

text \<open>Programs whose operations use live objects only.\<close>

fun all_live :: "('r, 'd) deleter \<Rightarrow> ('r, 'd) rp_op list \<Rightarrow> ('r, 'd) rp_world \<Rightarrow> bool" where
  "all_live del [] w = True"
| "all_live del (oper # opers) w = (list_all (rp_live w) (rp_operands oper) \<and> all_live del opers (rp_exec del oper w))"

text \<open>
  C39. The store of pointers, with flags, stale resource values and member-wise updates in a given order, implements the abstract
  owners: in every program on live objects, throwing deleters, self-assignment and self-swap included, the abstraction of the
  final store is what the specification computes from the abstraction of the first one.
\<close>

theorem resource_refines_owner:
  assumes "all_live del opers w"
  shows "rp_abs (fold (rp_exec del) opers w) = fold (owner_exec del) opers (rp_abs w)"
  using assms by (induction opers arbitrary: w) (simp_all add: rp_exec_refines)

section \<open>Comparisons\<close>

text \<open>
  On the abstract value, an optional resource, the accessors and the comparisons \<open>==\<close>, \<open><\<close> and \<open>>=\<close> are those of options
  ordered with the absent resource first, as documented.
\<close>

theorem resource_comparisons:
  "rp_has_resource p = (rp_value p \<noteq> None) \<and>
   rp_get p = (case rp_value p of Some r \<Rightarrow> Inr r | None \<Rightarrow> Inl (Logic_error ''get() called on ResourcePtr without resource'')) \<and>
   rp_equal p q = (rp_value p = rp_value q) \<and> rp_less p q = (rp_value p < rp_value q) \<and>
   rp_greater_equal p q = (rp_value q \<le> rp_value p)"
  by (auto simp: rp_has_resource_def rp_value_def rp_get_def rp_equal_def rp_less_def rp_greater_equal_def)

text \<open>
  \<open><=\<close> and \<open>>\<close> compare the stored resources even where none is held: an empty pointer that has released a larger resource is
  not \<open><=\<close> a pointer with a resource, although it is \<open><\<close>, and two empty pointers that are \<open>==\<close> may be \<open>>\<close> each other.
\<close>

theorem less_equal_ignores_emptiness:
  assumes "\<not> rp_initialized p" and "rp_resource q < rp_resource p"
  shows "rp_greater p q \<and> \<not> rp_less_equal p q \<and> (if rp_initialized q then rp_less p q else rp_equal p q)"
  using assms by (auto simp: rp_greater_def rp_less_equal_def rp_less_def rp_equal_def)

section \<open>Samples\<close>

text \<open>Descriptors closed by a deleter that throws for 7.\<close>

definition sample_close :: "(int, string) deleter" where
  "sample_close d r = (if r = 7 then Inl (Runtime_error ''close'') else Inr ())"

definition sample_ops :: "(int, string) rp_op list" where
  "sample_ops = [Construct 7 ''close'', Construct 8 ''free'', Move_assign 0 1, Move_assign 0 1, Reset 1 9, Release 1,
                 Destroy 0, Destroy 1]"

definition rp_empty :: "(int, string) rp_world" where
  "rp_empty = \<lparr>rp_objects = [], rp_deleted = [], rp_acquired = [], rp_released = []\<rparr>"

definition sample_world :: "(int, string) rp_world" where
  "sample_world = fold (rp_exec sample_close) sample_ops rp_empty"

lemma rp_reach_fold: "rp_reach del w \<Longrightarrow> all_live del opers w \<Longrightarrow> rp_reach del (fold (rp_exec del) opers w)"
  by (induction opers arbitrary: w) (auto intro: rp_reach.step)

theorem resource_exactly_once_witness:
  "mset (rp_acquired sample_world) = mset (rp_released sample_world) + mset (rp_deleted sample_world) \<and>
   rp_deleted sample_world = [(''close'', 7), (''free'', 8)] \<and> rp_released sample_world = [(''free'', 9)]"
proof -
  have "all_live sample_close sample_ops rp_empty" by code_simp
  then have "rp_reach sample_close sample_world"
    using rp_reach.start [of sample_close] unfolding sample_world_def by (intro rp_reach_fold) (simp_all add: rp_empty_def)
  moreover have "list_all (\<lambda>x. x = None) (rp_objects sample_world)"
    "rp_deleted sample_world = [(''close'', 7), (''free'', 8)]" "rp_released sample_world = [(''free'', 9)]"
    by code_simp+
  ultimately show ?thesis
    using resource_exactly_once [of sample_close sample_world] by blast
qed

theorem resource_refines_owner_witness:
  "rp_abs sample_world = fold (owner_exec sample_close) sample_ops []"
proof -
  have "all_live sample_close sample_ops rp_empty" by code_simp
  from resource_refines_owner [OF this] show ?thesis
    by (simp add: sample_world_def rp_empty_def rp_abs_def)
qed

theorem less_equal_ignores_emptiness_witness:
  "rp_greater \<lparr>rp_resource = 5::int, rp_delete = (), rp_initialized = False\<rparr> \<lparr>rp_resource = 3, rp_delete = (), rp_initialized = True\<rparr>"
  using less_equal_ignores_emptiness [of "\<lparr>rp_resource = 5::int, rp_delete = (), rp_initialized = False\<rparr>"
      "\<lparr>rp_resource = 3, rp_delete = (), rp_initialized = True\<rparr>"]
  by simp

end
