(* ===== verification/Gobj_Ptr.thy ===== *)
theory Gobj_Ptr
  imports Resource_Ptr
begin

text \<open>
  The counted pointer to GObjects of \<open>include/internal/gobj_memory.h\<close>. Objects are numbers; \<open>g_refs\<close> is the reference
  count GLib keeps, \<open>g_client\<close> the number of references the rest of the program holds as plain pointers and \<open>g_leaked\<close> the
  number of references that nobody holds any more. A \<open>gobj_ptr\<close> is
  a position of the store, because assignments may alias. Whether an object is floating does not change here.
\<close>

section \<open>Objects and pointers\<close>

record gobj_world =
  g_refs :: "nat \<Rightarrow> int"
  g_client :: "nat \<Rightarrow> int"
  g_leaked :: "nat \<Rightarrow> int"
  g_ptrs :: "nat option option list"

definition g_live :: "gobj_world \<Rightarrow> nat \<Rightarrow> bool" where
  "g_live w i \<longleftrightarrow> i < length (g_ptrs w) \<and> g_ptrs w ! i \<noteq> None"

definition gobj_get :: "gobj_world \<Rightarrow> nat \<Rightarrow> nat option" where
  "gobj_get w i = the (g_ptrs w ! i)"

definition gobj_put :: "nat \<Rightarrow> nat option \<Rightarrow> gobj_world \<Rightarrow> gobj_world" where
  "gobj_put i u w = w\<lparr>g_ptrs := (g_ptrs w)[i := Some u]\<rparr>"

definition g_object_ref :: "nat \<Rightarrow> gobj_world \<Rightarrow> gobj_world" where
  "g_object_ref x w = w\<lparr>g_refs := (g_refs w)(x := g_refs w x + 1)\<rparr>"

definition g_object_unref :: "nat \<Rightarrow> gobj_world \<Rightarrow> gobj_world" where
  "g_object_unref x w = w\<lparr>g_refs := (g_refs w)(x := g_refs w x - 1)\<rparr>"

definition client_gives :: "nat option \<Rightarrow> gobj_world \<Rightarrow> gobj_world" where
  "client_gives p w = (case p of None \<Rightarrow> w | Some x \<Rightarrow> w\<lparr>g_client := (g_client w)(x := g_client w x - 1)\<rparr>)"

definition client_takes :: "nat option \<Rightarrow> gobj_world \<Rightarrow> gobj_world" where
  "client_takes p w = (case p of None \<Rightarrow> w | Some x \<Rightarrow> w\<lparr>g_client := (g_client w)(x := g_client w x + 1)\<rparr>)"

definition leak :: "nat option \<Rightarrow> gobj_world \<Rightarrow> gobj_world" where
  "leak p w = (case p of None \<Rightarrow> w | Some x \<Rightarrow> w\<lparr>g_leaked := (g_leaked w)(x := g_leaked w x + 1)\<rparr>)"

section \<open>Operations\<close>

definition validate_float :: "(nat \<Rightarrow> bool) \<Rightarrow> nat option \<Rightarrow> unit result" where
  "validate_float floating t =
     (case t of
        None \<Rightarrow> Inr ()
      | Some x \<Rightarrow> if floating x then Inl (Invalid_argument ''Tried to add a floating gobject into a gobj_ptr.'') else Inr ())"

text \<open>
  The constructor takes over a reference of the caller. When \<open>validate_float\<close> throws, the pointer was never constructed, so
  that no destructor runs and the reference is lost.
\<close>

definition gobj_construct :: "(nat \<Rightarrow> bool) \<Rightarrow> nat option \<Rightarrow> (gobj_world, unit) act" where
  "gobj_construct floating t w =
     (case validate_float floating t of
        Inl e \<Rightarrow> (Inl e, leak t (client_gives t w))
      | Inr _ \<Rightarrow> (Inr (), client_gives t (w\<lparr>g_ptrs := g_ptrs w @ [Some t]\<rparr>)))"

text \<open>\<open>reset\<close> on a reference that is already counted for the pointer.\<close>

definition gobj_drop :: "nat \<Rightarrow> gobj_world \<Rightarrow> gobj_world" where
  "gobj_drop i w =
     (case gobj_get w i of None \<Rightarrow> w | Some x \<Rightarrow> gobj_put i None (g_object_unref x w))"

definition gobj_reset :: "(nat \<Rightarrow> bool) \<Rightarrow> nat \<Rightarrow> nat option \<Rightarrow> (gobj_world, unit) act" where
  "gobj_reset floating i p w = (validate_float floating p, gobj_put i p (gobj_drop i w))"

text \<open>Assignment of \<open>nullptr\<close>, and the conversion and comparison of pointers; \<open>addr\<close> is the address of an object.\<close>

definition gobj_assign_null :: "(nat \<Rightarrow> bool) \<Rightarrow> nat \<Rightarrow> (gobj_world, unit) act" where
  "gobj_assign_null floating i = gobj_reset floating i None"

definition gobj_bool :: "nat \<Rightarrow> gobj_world \<Rightarrow> bool" where
  "gobj_bool i w \<longleftrightarrow> gobj_get w i \<noteq> None"

definition gobj_equal :: "nat \<Rightarrow> nat \<Rightarrow> gobj_world \<Rightarrow> bool" where
  "gobj_equal i j w \<longleftrightarrow> gobj_get w i = gobj_get w j"

definition gobj_less :: "(nat option \<Rightarrow> nat) \<Rightarrow> nat \<Rightarrow> nat \<Rightarrow> gobj_world \<Rightarrow> bool" where
  "gobj_less addr i j w \<longleftrightarrow> addr (gobj_get w i) < addr (gobj_get w j)"

definition gobj_copy_assign :: "(nat \<Rightarrow> bool) \<Rightarrow> nat \<Rightarrow> nat \<Rightarrow> (gobj_world, unit) act" where
  "gobj_copy_assign floating i j w =
     (let u = gobj_get w j; w1 = (case u of None \<Rightarrow> w | Some x \<Rightarrow> g_object_ref x w) in gobj_reset floating i u w1)"

text \<open>The copy constructor delegates to the assignment; when that throws, the new pointer is never destroyed.\<close>

definition gobj_copy_construct :: "(nat \<Rightarrow> bool) \<Rightarrow> nat \<Rightarrow> (gobj_world, unit) act" where
  "gobj_copy_construct floating j w =
     (let i = length (g_ptrs w)
      in case gobj_copy_assign floating i j (w\<lparr>g_ptrs := g_ptrs w @ [Some None]\<rparr>) of
           (Inl e, w1) \<Rightarrow> (Inl e, leak (gobj_get w1 i) (w1\<lparr>g_ptrs := (g_ptrs w1)[i := None]\<rparr>))
         | (Inr _, w1) \<Rightarrow> (Inr (), w1))"

definition gobj_move_construct :: "nat \<Rightarrow> gobj_world \<Rightarrow> gobj_world" where
  "gobj_move_construct j w = gobj_put j None (w\<lparr>g_ptrs := g_ptrs w @ [Some (gobj_get w j)]\<rparr>)"

definition gobj_move_assign :: "nat \<Rightarrow> nat \<Rightarrow> gobj_world \<Rightarrow> gobj_world" where
  "gobj_move_assign i j w =
     (let w1 = gobj_drop i w; w2 = gobj_put i (gobj_get w1 j) w1 in gobj_put j None w2)"

definition gobj_swap :: "nat \<Rightarrow> nat \<Rightarrow> gobj_world \<Rightarrow> gobj_world" where
  "gobj_swap i j w =
     (let tmp = gobj_get w i; w1 = gobj_put i (gobj_get w j) w in gobj_put j tmp w1)"

definition gobj_release :: "nat \<Rightarrow> (gobj_world, nat option) act" where
  "gobj_release i w = (let r = gobj_get w i in (Inr r, client_takes r (gobj_put i None w)))"

definition gobj_destroy :: "nat \<Rightarrow> gobj_world \<Rightarrow> gobj_world" where
  "gobj_destroy i w = (let w1 = gobj_drop i w in w1\<lparr>g_ptrs := (g_ptrs w1)[i := None]\<rparr>)"

section \<open>Programs\<close>

datatype gobj_op =
    G_construct "nat option"
  | G_reset nat "nat option"
  | G_copy_construct nat
  | G_copy_assign nat nat
  | G_move_construct nat
  | G_move_assign nat nat
  | G_swap nat nat
  | G_release nat
  | G_destroy nat

fun gobj_operands :: "gobj_op \<Rightarrow> nat list" where
  "gobj_operands (G_construct p) = []"
| "gobj_operands (G_reset i p) = [i]"
| "gobj_operands (G_copy_construct j) = [j]"
| "gobj_operands (G_copy_assign i j) = [i, j]"
| "gobj_operands (G_move_construct j) = [j]"
| "gobj_operands (G_move_assign i j) = [i, j]"
| "gobj_operands (G_swap i j) = [i, j]"
| "gobj_operands (G_release i) = [i]"
| "gobj_operands (G_destroy i) = [i]"

text \<open>Resetting takes a reference over from the client, as construction does.\<close>

fun gobj_exec :: "(nat \<Rightarrow> bool) \<Rightarrow> gobj_op \<Rightarrow> gobj_world \<Rightarrow> gobj_world" where
  "gobj_exec fl (G_construct p) w = snd (gobj_construct fl p w)"
| "gobj_exec fl (G_reset i p) w = snd (gobj_reset fl i p (client_gives p w))"
| "gobj_exec fl (G_copy_construct j) w = snd (gobj_copy_construct fl j w)"
| "gobj_exec fl (G_copy_assign i j) w = snd (gobj_copy_assign fl i j w)"
| "gobj_exec fl (G_move_construct j) w = gobj_move_construct j w"
| "gobj_exec fl (G_move_assign i j) w = gobj_move_assign i j w"
| "gobj_exec fl (G_swap i j) w = gobj_swap i j w"
| "gobj_exec fl (G_release i) w = snd (gobj_release i w)"
| "gobj_exec fl (G_destroy i) w = gobj_destroy i w"

inductive gobj_run :: "(nat \<Rightarrow> bool) \<Rightarrow> gobj_world \<Rightarrow> gobj_world \<Rightarrow> bool" for fl where
  refl: "gobj_run fl w w"
| step: "gobj_run fl w w' \<Longrightarrow> list_all (g_live w') (gobj_operands oper) \<Longrightarrow> gobj_run fl w (gobj_exec fl oper w')"

section \<open>Reference counts\<close>

definition points_to :: "nat \<Rightarrow> nat option option \<Rightarrow> int" where
  "points_to x p = (if p = Some (Some x) then 1 else 0)"

definition pointers :: "gobj_world \<Rightarrow> nat \<Rightarrow> int" where
  "pointers w x = sum_list (map (points_to x) (g_ptrs w))"

definition refs_exact :: "(nat \<Rightarrow> bool) \<Rightarrow> gobj_world \<Rightarrow> bool" where
  "refs_exact floating w \<longleftrightarrow>
     (\<forall>x. g_refs w x = g_client w x + pointers w x + g_leaked w x \<and> (\<not> floating x \<longrightarrow> g_leaked w x = 0))"

lemma sum_points_to_update:
  "i < length ps \<Longrightarrow>
     sum_list (map (points_to x) (ps[i := p])) = sum_list (map (points_to x) ps) + points_to x p - points_to x (ps ! i)"
  by (induction ps arbitrary: i) (auto split: nat.splits)

lemma g_live_get: "g_live w i \<Longrightarrow> g_ptrs w ! i = Some (gobj_get w i)"
  by (auto simp: g_live_def gobj_get_def)

lemma pointers_put:
  "g_live w i \<Longrightarrow> pointers (gobj_put i u w) x = pointers w x + points_to x (Some u) - points_to x (Some (gobj_get w i))"
  using sum_points_to_update [of i "g_ptrs w" x "Some u"] g_live_get [of w i]
  by (simp add: pointers_def gobj_put_def g_live_def)

lemma gobj_put_simps [simp]:
  "g_refs (gobj_put i u w) = g_refs w" "g_client (gobj_put i u w) = g_client w" "g_leaked (gobj_put i u w) = g_leaked w"
  "length (g_ptrs (gobj_put i u w)) = length (g_ptrs w)"
  by (simp_all add: gobj_put_def)

lemma gobj_live_put [simp]: "g_live w i \<Longrightarrow> g_live (gobj_put i u w) j \<longleftrightarrow> g_live w j"
  by (cases "i = j") (auto simp: gobj_put_def g_live_def)

lemma gobj_get_put [simp]: "g_live w i \<Longrightarrow> gobj_get (gobj_put i u w) j = (if i = j then u else gobj_get w j)"
  by (auto simp: gobj_get_def gobj_put_def g_live_def)

lemma gobj_count_simps [simp]:
  "pointers (w\<lparr>g_refs := r\<rparr>) = pointers w" "pointers (w\<lparr>g_client := c\<rparr>) = pointers w" "pointers (w\<lparr>g_leaked := l\<rparr>) = pointers w"
  "g_live (w\<lparr>g_refs := r\<rparr>) = g_live w" "g_live (w\<lparr>g_client := c\<rparr>) = g_live w"
  "gobj_get (w\<lparr>g_refs := r\<rparr>) = gobj_get w" "gobj_get (w\<lparr>g_client := c\<rparr>) = gobj_get w"
  by (simp_all add: pointers_def g_live_def gobj_get_def fun_eq_iff)

lemma pointers_append [simp]: "pointers (w\<lparr>g_ptrs := g_ptrs w @ [p]\<rparr>) x = pointers w x + points_to x p"
  by (simp add: pointers_def)

lemma gobj_append_simps [simp]:
  "g_live w j \<Longrightarrow> g_live (w\<lparr>g_ptrs := g_ptrs w @ [p]\<rparr>) j"
  "g_live w j \<Longrightarrow> gobj_get (w\<lparr>g_ptrs := g_ptrs w @ [p]\<rparr>) j = gobj_get w j"
  by (auto simp: g_live_def gobj_get_def nth_append)

lemma gobj_last_simps [simp]:
  "g_live (w\<lparr>g_ptrs := g_ptrs w @ [Some p]\<rparr>) (length (g_ptrs w))"
  "gobj_get (w\<lparr>g_ptrs := g_ptrs w @ [Some p]\<rparr>) (length (g_ptrs w)) = p"
  by (auto simp: g_live_def gobj_get_def nth_append)

lemmas gobj_moves = g_object_ref_def g_object_unref_def client_gives_def client_takes_def leak_def

text \<open>The excess of the reference count over the references that are accounted for.\<close>

definition excess :: "gobj_world \<Rightarrow> nat \<Rightarrow> int" where
  "excess w x = g_refs w x - g_client w x - pointers w x - g_leaked w x"

lemma excess_drop: "g_live w i \<Longrightarrow> excess (gobj_drop i w) = excess w"
  by (auto simp: excess_def gobj_drop_def gobj_moves pointers_put points_to_def fun_eq_iff split: option.splits)

lemma drop_frame:
  assumes "g_live w i"
  shows "g_live (gobj_drop i w) = g_live w" "gobj_get (gobj_drop i w) = (gobj_get w)(i := None)"
    and "g_leaked (gobj_drop i w) = g_leaked w" "g_client (gobj_drop i w) = g_client w"
    and "length (g_ptrs (gobj_drop i w)) = length (g_ptrs w)"
  using assms by (auto simp: gobj_drop_def g_object_unref_def fun_eq_iff split: option.splits)

lemma excess_put_empty:
  "g_live w i \<Longrightarrow> gobj_get w i = None \<Longrightarrow> excess (gobj_put i u w) x = excess w x - points_to x (Some u)"
  by (simp add: excess_def pointers_put points_to_def)

text \<open>\<open>reset\<close> takes over one reference to its argument.\<close>

lemma excess_reset:
  assumes "g_live w i"
  shows "excess (snd (gobj_reset fl i p w)) x = excess w x - points_to x (Some p)"
  using assms drop_frame [OF assms] excess_drop [OF assms]
  by (simp add: gobj_reset_def excess_put_empty)

lemma leaked_reset [simp]: "g_live w i \<Longrightarrow> g_leaked (snd (gobj_reset fl i p w)) = g_leaked w"
  by (simp add: gobj_reset_def drop_frame)

lemma excess_simps:
  "excess (client_gives p w) x = excess w x + points_to x (Some p)"
  "excess (client_takes p w) x = excess w x - points_to x (Some p)"
  "excess (leak p w) x = excess w x - points_to x (Some p)"
  "excess (g_object_ref y w) x = excess w x + points_to x (Some (Some y))"
  by (auto simp: excess_def gobj_moves points_to_def split: option.splits)

lemma leaked_simps [simp]:
  "g_leaked (client_gives p w) = g_leaked w" "g_leaked (client_takes p w) = g_leaked w" "g_leaked (g_object_ref y w) = g_leaked w"
  "g_live (client_gives p w) = g_live w" "g_live (g_object_ref y w) = g_live w"
  by (auto simp: gobj_moves split: option.splits)

lemma excess_copy_assign:
  assumes "g_live w i" "g_live w j"
  shows "excess (snd (gobj_copy_assign fl i j w)) x = excess w x" "g_leaked (snd (gobj_copy_assign fl i j w)) = g_leaked w"
  using assms by (auto simp: gobj_copy_assign_def Let_def excess_reset excess_simps points_to_def split: option.splits)

lemma excess_move_construct:
  assumes "g_live w j"
  shows "excess (gobj_move_construct j w) x = excess w x" "g_leaked (gobj_move_construct j w) = g_leaked w"
  using assms by (simp_all add: gobj_move_construct_def excess_def pointers_put points_to_def)

lemma excess_move_assign:
  assumes "g_live w i" "g_live w j"
  shows "excess (gobj_move_assign i j w) x = excess w x" "g_leaked (gobj_move_assign i j w) = g_leaked w"
proof -
  let ?w = "gobj_drop i w"
  have w: "g_live ?w i" "g_live ?w j" "gobj_get ?w i = None"
    using assms drop_frame [OF assms(1)] by simp_all
  have "excess (gobj_put j None (gobj_put i (gobj_get ?w j) ?w)) x = excess ?w x"
    using w by (simp add: excess_def pointers_put points_to_def)
  then show "excess (gobj_move_assign i j w) x = excess w x"
    using excess_drop [OF assms(1)] by (simp add: gobj_move_assign_def Let_def)
  show "g_leaked (gobj_move_assign i j w) = g_leaked w"
    by (simp add: gobj_move_assign_def Let_def drop_frame [OF assms(1)])
qed

lemma excess_swap:
  assumes "g_live w i" "g_live w j"
  shows "excess (gobj_swap i j w) x = excess w x" "g_leaked (gobj_swap i j w) = g_leaked w"
  using assms by (simp_all add: gobj_swap_def Let_def excess_def pointers_put)

lemma excess_forget:
  assumes "g_live w i"
  shows "excess (w\<lparr>g_ptrs := (g_ptrs w)[i := None]\<rparr>) x = excess w x + points_to x (Some (gobj_get w i))"
  using assms sum_points_to_update [of i "g_ptrs w" x None] g_live_get [OF assms]
  by (simp add: excess_def pointers_def g_live_def points_to_def)

lemma excess_destroy:
  assumes "g_live w i"
  shows "excess (gobj_destroy i w) x = excess w x" "g_leaked (gobj_destroy i w) = g_leaked w"
  using assms drop_frame [OF assms] excess_drop [OF assms]
  by (simp_all add: gobj_destroy_def Let_def excess_forget points_to_def)

lemma excess_release:
  assumes "g_live w i"
  shows "excess (snd (gobj_release i w)) x = excess w x" "g_leaked (snd (gobj_release i w)) = g_leaked w"
  using assms by (simp_all add: gobj_release_def Let_def excess_simps) (simp add: excess_def pointers_put points_to_def)

lemma validate_float_fails: "validate_float fl p = Inl e \<Longrightarrow> \<exists>x. p = Some x \<and> fl x"
  by (auto simp: validate_float_def split: option.splits if_splits)

lemma leaked_leak: "g_leaked (leak p w) x = g_leaked w x + points_to x (Some p)"
  by (auto simp: leak_def points_to_def split: option.splits)

lemma excess_construct:
  "excess (snd (gobj_construct fl p w)) x = excess w x"
  "\<not> fl x \<Longrightarrow> g_leaked (snd (gobj_construct fl p w)) x = g_leaked w x"
  by (auto simp: gobj_construct_def excess_simps leaked_leak points_to_def split: sum.splits dest!: validate_float_fails)
     (auto simp: excess_def points_to_def)

lemma copy_assign_get:
  assumes "g_live w i" "g_live w j"
  shows "g_live (snd (gobj_copy_assign fl i j w)) = g_live w" "gobj_get (snd (gobj_copy_assign fl i j w)) i = gobj_get w j"
    and "fst (gobj_copy_assign fl i j w) = validate_float fl (gobj_get w j)"
  using assms by (auto simp: gobj_copy_assign_def gobj_reset_def Let_def drop_frame fun_eq_iff split: option.splits)

lemma excess_copy_construct:
  assumes "g_live w j"
  shows "excess (snd (gobj_copy_construct fl j w)) x = excess w x"
    and "\<not> fl x \<Longrightarrow> g_leaked (snd (gobj_copy_construct fl j w)) x = g_leaked w x"
proof -
  let ?i = "length (g_ptrs w)" and ?w = "w\<lparr>g_ptrs := g_ptrs w @ [Some None]\<rparr>"
  obtain r w1 where a: "gobj_copy_assign fl ?i j ?w = (r, w1)" by fastforce
  have live: "g_live ?w ?i" "g_live ?w j"
    using assms by simp_all
  note a' = copy_assign_get [OF live, of fl, unfolded a fst_conv snd_conv]
    excess_copy_assign [OF live, of fl, unfolded a fst_conv snd_conv]
  have e: "excess ?w x = excess w x"
    by (simp add: excess_def points_to_def)
  have g: "gobj_get ?w j = gobj_get w j"
    using assms by simp
  show "excess (snd (gobj_copy_construct fl j w)) x = excess w x"
    using live a'(1,2,4) e
    by (cases r) (simp_all add: gobj_copy_construct_def Let_def a excess_simps excess_forget)
  show "g_leaked (snd (gobj_copy_construct fl j w)) x = g_leaked w x" if "\<not> fl x"
  proof (cases r)
    case (Inl e)
    then obtain y where "gobj_get w j = Some y" "fl y"
      using a'(3) g validate_float_fails [of fl "gobj_get w j" e] by auto
    then show ?thesis
      using Inl a'(2,5) g that by (auto simp: gobj_copy_construct_def Let_def a leaked_leak points_to_def)
  next
    case (Inr u)
    then show ?thesis
      using a'(5) by (simp add: gobj_copy_construct_def Let_def a)
  qed
qed

lemma gobj_exec_exact:
  assumes "list_all (g_live w) (gobj_operands oper)"
  shows "excess (gobj_exec fl oper w) x = excess w x"
    and "\<not> fl x \<Longrightarrow> g_leaked (gobj_exec fl oper w) x = g_leaked w x"
  using assms
  by (cases oper; simp add: excess_construct excess_copy_construct excess_copy_assign excess_move_construct excess_move_assign
      excess_swap excess_release excess_destroy excess_reset excess_simps)+

lemma gobj_run_exact:
  "gobj_run fl w w' \<Longrightarrow> excess w' x = excess w x \<and> (\<not> fl x \<longrightarrow> g_leaked w' x = g_leaked w x)"
  by (induction rule: gobj_run.induct) (auto simp: gobj_exec_exact)

lemma refs_exact_excess:
  "refs_exact fl w \<longleftrightarrow> (\<forall>x. excess w x = 0 \<and> (\<not> fl x \<longrightarrow> g_leaked w x = 0))"
proof -
  have "excess w x = 0 \<longleftrightarrow> g_refs w x = g_client w x + pointers w x + g_leaked w x" for x
    by (auto simp: excess_def)
  then show ?thesis by (simp add: refs_exact_def)
qed

text \<open>
  C40. Reference counts stay exact in every program that uses \<open>gobj_ptr\<close>: each object has as many references as plain pointers of
  the client and \<open>gobj_ptr\<close>s hold, whatever is copied, moved, swapped, assigned to itself, released or destroyed. References
  are lost only for floating objects, which the class refuses.
\<close>

theorem gobj_refs_exact:
  assumes "gobj_run fl w w'" and "refs_exact fl w"
  shows "refs_exact fl w'"
  using gobj_run_exact [OF assms(1)] assms(2) by (simp add: refs_exact_excess)

text \<open>
  A floating object handed to the constructor is refused with \<open>invalid_argument\<close>, but it is not unreferenced: its count stays
  as it was while the caller's reference is gone.
\<close>

theorem floating_object_leaks:
  assumes "fl x"
  shows "\<exists>e w'. gobj_construct fl (Some x) w = (Inl e, w') \<and> catchable e \<and> g_refs w' = g_refs w \<and>
           g_leaked w' x = g_leaked w x + 1 \<and> g_ptrs w' = g_ptrs w"
  using assms by (simp add: gobj_construct_def validate_float_def gobj_moves)

section \<open>Samples\<close>

definition gobj_start :: gobj_world where
  "gobj_start = \<lparr>g_refs = (\<lambda>_. 1), g_client = (\<lambda>_. 1), g_leaked = (\<lambda>_. 0), g_ptrs = []\<rparr>"

definition gobj_ops :: "gobj_op list" where
  "gobj_ops = [G_construct (Some 1), G_copy_construct 0, G_construct (Some 2), G_copy_assign 2 2, G_move_assign 1 2, G_destroy 0]"

fun gobj_all_live :: "(nat \<Rightarrow> bool) \<Rightarrow> gobj_op list \<Rightarrow> gobj_world \<Rightarrow> bool" where
  "gobj_all_live fl [] w = True"
| "gobj_all_live fl (oper # opers) w =
     (list_all (g_live w) (gobj_operands oper) \<and> gobj_all_live fl opers (gobj_exec fl oper w))"

lemma gobj_run_fold: "gobj_run fl w0 w \<Longrightarrow> gobj_all_live fl opers w \<Longrightarrow> gobj_run fl w0 (fold (gobj_exec fl) opers w)"
  by (induction opers arbitrary: w) (auto intro: gobj_run.step)

theorem gobj_refs_exact_witness:
  "refs_exact (\<lambda>_. False) (fold (gobj_exec (\<lambda>_. False)) gobj_ops gobj_start) \<and>
   g_refs (fold (gobj_exec (\<lambda>_. False)) gobj_ops gobj_start) 1 = 0"
proof -
  have "gobj_all_live (\<lambda>_. False) gobj_ops gobj_start"
    "g_refs (fold (gobj_exec (\<lambda>_. False)) gobj_ops gobj_start) 1 = 0"
    by code_simp+
  moreover have "refs_exact (\<lambda>_. False) gobj_start"
    by (simp add: refs_exact_def gobj_start_def pointers_def)
  ultimately show ?thesis
    using gobj_refs_exact [OF gobj_run_fold [OF gobj_run.refl]] by blast
qed

theorem floating_object_leaks_witness:
  "\<exists>e w'. gobj_construct (\<lambda>x. x = 3) (Some 3) gobj_start = (Inl e, w') \<and> catchable e \<and> g_refs w' = g_refs gobj_start \<and>
     g_leaked w' 3 = g_leaked gobj_start 3 + 1 \<and> g_ptrs w' = g_ptrs gobj_start"
  by (rule floating_object_leaks) simp

end
