(* ===== verification/Trace_Messages.thy ===== *)
theory Trace_Messages
  imports Thumb_Prelude
begin

text \<open>
  The message handler of \<open>src/trace.cpp\<close>: class \<open>TraceMessageHandler\<close> installs it for its scope and puts the previous one
  back. The record has the file-scope variable \<open>prefix\<close>, the handler Qt has installed and the text on standard error;
  messages another handler gets are logged in \<open>tr_elsewhere\<close>. The local time as \<open>strftime\<close> prints it is an argument.
\<close>

section \<open>State\<close>

datatype msg_type = Debug_msg | Info_msg | Warning_msg | Critical_msg | Fatal_msg

datatype msg_handler = Trace_message_handler | Other_handler nat

record tracing =
  tr_prefix :: string
  tr_handler :: msg_handler
  tr_stderr :: string
  tr_elsewhere :: "(nat \<times> msg_type \<times> string) list"

text \<open>A time point: milliseconds since the epoch, and the text \<open>%T\<close> of the local time.\<close>

type_synonym trace_time = "int \<times> string"

section \<open>Operations\<close>

text \<open>\<open>%03d\<close>: the width counts the sign, and the zeros follow it.\<close>

definition three_digits :: "int \<Rightarrow> string" where
  "three_digits n =
     (let sg = (if n < 0 then ''-'' else []); s = int_to_string \<bar>n\<bar>
      in sg @ replicate (3 - length sg - length s) (CHR ''0'') @ s)"

fun msg_label :: "msg_type \<Rightarrow> string" where
  "msg_label Warning_msg = '' Warning:''"
| "msg_label Critical_msg = '' Critical:''"
| "msg_label Fatal_msg = '' Fatal:''"
| "msg_label _ = []"

definition trace_message_handler :: "trace_time \<Rightarrow> msg_type \<Rightarrow> string \<Rightarrow> (tracing, unit) act" where
  "trace_message_handler now typ msg s =
     (let msecs = sgn (fst now) * (\<bar>fst now\<bar> mod 1000);  \<comment> \<open>the remainder has the sign of the dividend\<close>
          s' = s\<lparr>tr_stderr := tr_stderr s @ (if tr_prefix s = [] then [] else tr_prefix s @ '': '') @
                 ''['' @ snd now @ ''.'' @ three_digits msecs @ '']'' @ msg_label typ @ '' '' @ msg @ [CHR 0x0A]\<rparr>
      in (if typ = Fatal_msg then Inl Abort else Inr (), s'))"

text \<open>The constructor returns the member \<open>old_message_handler_\<close>.\<close>

definition TraceMessageHandler :: "string \<Rightarrow> tracing \<Rightarrow> msg_handler \<times> tracing" where
  "TraceMessageHandler prog_name s = (tr_handler s, s\<lparr>tr_prefix := prog_name, tr_handler := Trace_message_handler\<rparr>)"

definition TraceMessageHandler_destroy :: "msg_handler \<Rightarrow> tracing \<Rightarrow> tracing" where
  "TraceMessageHandler_destroy old_message_handler s = s\<lparr>tr_handler := old_message_handler\<rparr>"

text \<open>A message goes to the handler that is installed.\<close>

definition q_message :: "trace_time \<Rightarrow> msg_type \<Rightarrow> string \<Rightarrow> (tracing, unit) act" where
  "q_message now typ msg s =
     (case tr_handler s of
        Trace_message_handler \<Rightarrow> trace_message_handler now typ msg s
      | Other_handler n \<Rightarrow> (if typ = Fatal_msg then Inl Abort else Inr (), s\<lparr>tr_elsewhere := tr_elsewhere s @ [(n, typ, msg)]\<rparr>))"

section \<open>Scopes\<close>

text \<open>A program: messages, and blocks with a local \<open>TraceMessageHandler\<close> that is destroyed when the block is left.\<close>

datatype trace_prog = Say trace_time msg_type string | Scope string "trace_prog list"

fun trace_run :: "trace_prog \<Rightarrow> (tracing, unit) act" and trace_runs :: "trace_prog list \<Rightarrow> (tracing, unit) act" where
  "trace_run (Say now typ msg) s = q_message now typ msg s"
| "trace_run (Scope prog_name ps) s =
     (case TraceMessageHandler prog_name s of
        (old, s1) \<Rightarrow> (case trace_runs ps s1 of (Inl e, s2) \<Rightarrow> (Inl e, s2) | (Inr _, s2) \<Rightarrow> (Inr (), TraceMessageHandler_destroy old s2)))"
| "trace_runs [] s = (Inr (), s)"
| "trace_runs (p # ps) s = (case trace_run p s of (Inl e, s1) \<Rightarrow> (Inl e, s1) | (Inr _, s1) \<Rightarrow> trace_runs ps s1)"

text \<open>The messages of a program, and whether one of them is fatal.\<close>

fun fatal_in :: "trace_prog \<Rightarrow> bool" where
  "fatal_in (Say now typ msg) \<longleftrightarrow> typ = Fatal_msg"
| "fatal_in (Scope n ps) \<longleftrightarrow> list_ex fatal_in ps"

definition restores :: "bool \<Rightarrow> tracing \<Rightarrow> unit result \<times> tracing \<Rightarrow> bool" where
  "restores fatal s x \<longleftrightarrow>
     fst x = (if fatal then Inl Abort else Inr ()) \<and> (\<not> fatal \<longrightarrow> tr_handler (snd x) = tr_handler s) \<and>
     (tr_handler s = Trace_message_handler \<longrightarrow> tr_elsewhere (snd x) = tr_elsewhere s)"

lemma q_message_restores: "restores (typ = Fatal_msg) s (q_message now typ msg s)"
  by (auto simp: restores_def q_message_def trace_message_handler_def Let_def split: msg_handler.split)

lemma trace_run_restores:
  "restores (fatal_in p) s (trace_run p s)" "restores (list_ex fatal_in ps) s (trace_runs ps s)"
proof (induction p s and ps s rule: trace_run_trace_runs.induct)
  case (1 now t msg s)
  then show ?case using q_message_restores by simp
next
  case (2 prog_name ps s)
  let ?s1 = "s\<lparr>tr_prefix := prog_name, tr_handler := Trace_message_handler\<rparr>"
  obtain r s2 where run: "trace_runs ps ?s1 = (r, s2)" by (cases "trace_runs ps ?s1")
  from 2 [of "tr_handler s" ?s1] run show ?case
    by (simp add: restores_def TraceMessageHandler_def TraceMessageHandler_destroy_def)
next
  case (4 p ps s)
  obtain r s1 where run: "trace_run p s = (r, s1)" by (cases "trace_run p s")
  from 4 run show ?case by (cases "fatal_in p") (auto simp: restores_def)
qed (simp_all add: restores_def)

text \<open>
  Scopes restore the handler: a program of messages and nested blocks aborts exactly if it sends a fatal message; otherwise, when
  it is over, the handler that was installed before is installed again, and while a trace handler is installed no message
  goes elsewhere.
\<close>

theorem trace_scopes_restore:
  assumes "\<not> fatal_in (Scope prog_name ps)"
  shows "\<exists>s'. trace_run (Scope prog_name ps) s = (Inr (), s') \<and> tr_handler s' = tr_handler s \<and> tr_elsewhere s' = tr_elsewhere s"
proof -
  let ?s1 = "s\<lparr>tr_prefix := prog_name, tr_handler := Trace_message_handler\<rparr>"
  obtain r s2 where run: "trace_runs ps ?s1 = (r, s2)" by (cases "trace_runs ps ?s1")
  from trace_run_restores(2) [of ps ?s1] assms run have "r = Inr ()" "tr_elsewhere s2 = tr_elsewhere s"
    by (simp_all add: restores_def)
  with run show ?thesis by (simp add: TraceMessageHandler_def TraceMessageHandler_destroy_def)
qed

theorem trace_scopes_restore_witness:
  "\<exists>s'. trace_run (Scope ''outer'' [Say (61007, ''00:01:01'') Warning_msg ''a'', Scope ''inner'' [], Say (61008, ''00:01:01'') Debug_msg ''b''])
     \<lparr>tr_prefix = [], tr_handler = Other_handler 0, tr_stderr = [], tr_elsewhere = []\<rparr> = (Inr (), s') \<and> tr_handler s' = Other_handler 0"
  using trace_scopes_restore [of "''outer''" "[Say (61007, ''00:01:01'') Warning_msg ''a'', Scope ''inner'' [], Say (61008, ''00:01:01'') Debug_msg ''b'']"
      "\<lparr>tr_prefix = [], tr_handler = Other_handler 0, tr_stderr = [], tr_elsewhere = []\<rparr>"]
  by (auto simp del: trace_run.simps)

text \<open>A warning in full; the prefix of the inner block stays in use after that block.\<close>

lemma trace_example:
  "tr_stderr (snd (trace_run (Scope ''outer'' [Scope ''inner'' [], Say (61007, ''00:01:01'') Warning_msg ''disk full''])
     \<lparr>tr_prefix = [], tr_handler = Other_handler 0, tr_stderr = [], tr_elsewhere = []\<rparr>)) =
   ''inner: [00:01:01.007] Warning: disk full'' @ [CHR 0x0A]"
  by code_simp

end
