(* ===== verification/Spec2Isabelle.thy ===== *)
theory Spec2Isabelle
  imports Thumbnailer_Lifecycle Qml_Engine Admin_Program Video_Buffers Stats_Summary
    Service_Instances Client_Service Exceptions Gobj_Ptr Trace_Messages
begin

text \<open>
  A verification of the thumbnailer: a D-Bus service that makes thumbnails of local images, songs and videos and of remote album and
  artist art, its client library, its administration tool and its media helper program.

  \<^bold>\<open>The program.\<close> A client calls the Qt library, which limits its own backlog and sends D-Bus calls. \<open>DBusInterface\<close> makes a
  \<open>Handler\<close> for each call and runs one handler per key at a time. A handler asks \<open>CredentialsCache\<close> who the caller is, then
  \<open>Thumbnailer\<close> for a \<open>ThumbnailRequest\<close>, and passes through the stages check, download or extraction (behind a \<open>RateLimiter\<close>)
  and create. A request looks in three persistent caches behind \<open>CacheHelper\<close> (full-size images, thumbnails, failures), obtains
  the image (from the file, from tags by \<open>local_album_art\<close>, from \<open>vs-thumb\<close> by \<open>ImageExtractor\<close>, from the art server by
  \<open>ArtReply\<close>), scales it with \<open>Image\<close> and stores the result. \<open>BackoffAdjuster\<close> spaces attempts on a failing server,
  \<open>InactivityHandler\<close> ends an idle service, \<open>Version\<close> and \<open>Settings\<close> decide at start-up what to keep, and \<open>AdminInterface\<close>
  serves \<open>thumbnailer-admin\<close>.

  \<^bold>\<open>Theories and sources.\<close> Paths are relative to the repository.

  \<^item> \<open>Thumb_Prelude\<close>: exceptions as a datatype (\<open>exn\<close>; \<open>catchable\<close> tells which ones a handler for \<open>std::exception\<close> stops),
    results \<open>exn + 'a\<close>, the state and error monad \<open>act\<close>, the frame predicate \<open>leaves\<close> with its rules, and the parts of the C++
    library for text and numbers.
  \<^item> \<open>Backoff\<close>: \<open>src/backoff_adjuster.cpp\<close>; the interface \<open>retry_gate\<close>, interpreted on the adjuster.
  \<^item> \<open>Rate_Limiter\<close>: \<open>src/ratelimiter.cpp\<close>; the interface \<open>job_pool\<close>, interpreted on the limiter: capacity, exactly-once
    start, last-in-first-out draining.
  \<^item> \<open>Cache_Helper\<close>: \<open>include/internal/cachehelper.h\<close> over a parameter for the persistent cache; self-healing after
    corruption; the interface \<open>string_cache\<close> (what a look-up returns after a store), interpreted on the helper over a store in memory.
  \<^item> \<open>System_Utils\<close>: \<open>src/safe_strerror.cpp\<close>, \<open>mimetype.cpp\<close>, \<open>check_access.cpp\<close>, \<open>file_io.cpp\<close>, \<open>file_lock.cpp\<close>,
    \<open>make_directories.cpp\<close>.
  \<^item> \<open>Image_Model\<close>: \<open>src/image.cpp\<close>, with GdkPixbuf, libexif and Qt's scaling as parameters; sizes, orientation, formats.
  \<^item> \<open>Settings\<close>, \<open>Version_Model\<close>, \<open>Local_Album_Art\<close> (interface \<open>cover_scan\<close>), \<open>Art_Download\<close>, \<open>Image_Extractor\<close>: the
    sources of the same names; \<open>Art_Download\<close> is \<open>src/ubuntuserverdownloader.cpp\<close>.
  \<^item> \<open>Thumbnailer\<close>, \<open>Thumbnailer_Lookup\<close>, \<open>Thumbnailer_Lifecycle\<close>: \<open>src/thumbnailer.cpp\<close>: requests, the look-up and its
    guarantees (caching, bounds, failures, back-off), start-up, shut-down and administration.
  \<^item> \<open>Credentials\<close>, \<open>Inactivity\<close>: \<open>src/service/credentialscache.cpp\<close>, \<open>inactivityhandler.cpp\<close>.
  \<^item> \<open>Request_Handler\<close>: \<open>src/service/handler.cpp\<close>, one definition per callback; \<open>Handler_Protocol\<close>: exactly one reply per
    request over all interleavings, cancellations and destructions.
  \<^item> \<open>DBus_Interface\<close>: \<open>src/service/dbusinterface.cpp\<close>; \<open>Request_Chain\<close>: one running request per key, and the next is started.
  \<^item> \<open>Handler_Effects\<close>, \<open>Service_Events\<close>, \<open>Service_Invariant\<close>, \<open>Service_System\<close>, \<open>Service_Answers\<close>: the running service, composed of
    the interface, any number of handlers, both limiters, the credentials cache and the inactivity handler. \<open>Handler_Effects\<close> states what each
    callback does to the shared objects, \<open>Service_Events\<close> has the events of the event loop as a step relation, the next two
    the invariant and its preservation, the last the guarantees: each call is answered exactly once, no
    request is lost, slots and counts are exact. \<open>Service_Replies\<close>: replies are final, and only calls add to what is registered.
  \<^item> \<open>Qt_Client\<close>: \<open>src/libthumbnailer-qt/libthumbnailer-qt.cpp\<close>; \<open>Client_Slots\<close>: slots of the client's limiter are accounted
    for exactly and every request finishes once; \<open>Request_Contract\<close>: the public classes, and the documented state machine of a
    request, which the library refines; \<open>Client_Sends\<close>: which requests an event sends and which results it changes;
    \<open>Qml_Plugin\<close>, \<open>Qml_Engine\<close>: \<open>plugins/Ubuntu/Thumbnailer.0.1\<close>: the QML image providers on top and their registration.
  \<^item> \<open>Client_Service\<close>: client and service composed over the bus, with other peers, destroyed and cancelled requests and errors of the bus: the
    application sees the service's one reply to its own call, and every request finishes.
  \<^item> \<open>Admin_Interface\<close>: \<open>src/service/admininterface.cpp\<close>, \<open>stats.cpp\<close>, \<open>client_config.cpp\<close>; \<open>Admin_Tool\<close> and
    \<open>Admin_Program\<close>: \<open>src/thumbnailer-admin\<close>: marshalling, selector checks, arguments and effect of the commands.
  \<^item> \<open>Service_Main\<close>: \<open>src/service/main.cpp\<close>: the lock around the caches, construction and destruction order; \<open>Service_Instances\<close>: several
    instances that share the lock file; \<open>Stats_Summary\<close>: the summary logged at start-up.
  \<^item> \<open>Video_Extractor\<close>: \<open>src/vs-thumb\<close>: choice of cover art, still frames, complete output, termination; \<open>Video_Buffers\<close>: the memory of the still frame
    (\<open>BufferMap\<close>), and the program \<open>test-seq.cpp\<close> that uses one extractor for several files.
  \<^item> \<open>Exceptions\<close>: \<open>src/Exception.cpp\<close>, \<open>src/UnityExceptions.cpp\<close>: printing of nested and remembered exceptions.
  \<^item> \<open>Resource_Ptr\<close>: \<open>include/internal/ResourcePtr.h\<close>: exactly-once deletion and refinement of abstract owners;
    \<open>Gobj_Ptr\<close>: \<open>include/internal/gobj_memory.h\<close>: exact reference counts.
  \<^item> \<open>Trace_Messages\<close>: \<open>src/trace.cpp\<close>: the log line, and scopes that restore the previous message handler.
  \<^item> This theory: properties that span components.

  \<^bold>\<open>Modelling conventions.\<close> A class is a record of its members, a method a function on that record with its exceptions as values.
  C++ \<open>int\<close>s are integers with the range checks and the wrap-around written out where the code depends on them, D-Bus and
  histogram values are words. Assertions are enabled, as in the default build; a failed one is a value that no handler catches.
  Libraries the sources only call (GdkPixbuf, GStreamer, TagLib, libexif, leveldb cache, AppArmor, Qt's parser and
  process class, the kernel) are arguments: functions, or lists of results consumed call by call. What a theorem needs of them is a
  named hypothesis such as \<open>healthy_backend\<close>, with a concrete instance in the witness.

  \<^bold>\<open>Loops, fuel and interleaving.\<close> Loops over system-call results recurse on the list of results. Two loops that may wait
  for ever, \<open>flock_loop\<close> and \<open>wait_async\<close>, have the value \<open>None\<close> for that, and their theorems say when they return. The
  nesting of \<open>finished\<close> signals in \<open>emit_finished\<close> is bounded by the length of the chain of requests for the key, which is
  proved to be enough; a handler owes at most seven callbacks. Progress of client and service together is a lexicographic measure on their
  state, so that no fuel is needed there. A callback of the event loop, a thread-pool job or an operation under a mutex is one atomic
  step; everything between steps is interleaved freely.

  \<^bold>\<open>Not modelled.\<close> Pixel contents, wall-clock timing of Qt timers, races inside one callback, cyclic exception histories, a client that blocks
  in \<open>waitForFinished\<close> while composed with the service (the client alone is modelled with it), headers that only declare macros and constants, and the tests.
\<close>

section \<open>From a media file to its image data\<close>



text \<open>
  A media file without any artwork is reported as a crash: \<open>vs-thumb\<close> fails its assertion on the missing video stream, and the
  extractor's error is that the program crashed, never that there is no artwork.
\<close>

theorem no_artwork_reported_as_crash:
  assumes "no_artwork G" and "u_valid in_url" "u_scheme in_url = ''file''" and "u_valid out_url" "u_scheme out_url = ''fd''" "u_fd out_url = Some n"
    and "ex_error e = []"
  shows "vs_thumb_main G strerr open_errno ws lower [in_url, out_url] = Some (Inl (Assertion ''extractor.has_video()''), []) \<and>
         fst (extractor_read (processFinished se CrashExit code rs e)) =
           Inl (Runtime_error (''ImageExtractor::read(): '' @ exe_path e @ '' crashed''))"
  using assms no_artwork_asserts [OF assms(1)]
  by (simp add: vs_thumb_main_def processFinished_def extractor_read_def Let_def)

theorem no_artwork_reported_as_crash_witness:
  "vs_thumb_main (sample_gst\<lparr>audio_tags := None, paused_change := (Change_success, [])\<rparr>) (\<lambda>_. ''error'') None [] (\<lambda>s. s)
     [file_url ''/a.mp3'', fd_url 1] = Some (Inl (Assertion ''extractor.has_video()''), [])"
  using no_artwork_reported_as_crash [of "sample_gst\<lparr>audio_tags := None, paused_change := (Change_success, [])\<rparr>"
      "file_url ''/a.mp3''" "fd_url 1" 1 sample_extractor "\<lambda>_. ''error''" None "[]" "\<lambda>s. s"]
  by (simp add: no_artwork_def has_video_def sample_gst_def file_url_def fd_url_def sample_extractor_def)

end
